(* ===== verification/Prelude.thy ===== *)
theory Prelude
  imports Main "HOL-Library.Word"
begin

text \<open>
  What the components of the development share: fixed-width integers, results with an
  error, runs of a step function with their invariants, and the parts of the C library
  the code relies on (hexadecimal printing and \<^verbatim>\<open>strtol\<close> with base 16 on the 32-bit
  targets the Makefiles list, and the conversion of an unsigned 32-bit integer to
  \<^verbatim>\<open>float\<close>).
\<close>

section \<open>Machine integers and results\<close>

type_synonym u8 = "8 word"
type_synonym u16 = "16 word"
type_synonym u32 = "32 word"

named_theorems res_simps "unfolding rules for results and their sequencing"
named_theorems frame_simps "fields that an operation leaves unchanged"

text \<open>
  A result is \<open>Inr\<close> of a value, or \<open>Inl\<close> of the reason why the C code has no defined
  continuation: a read or write outside an array, the dereference of a null pointer, or a
  wait loop that used up the steps it was given.
\<close>

datatype fault = OutOfBounds | NullPointer | OutOfFuel

definition and_then :: "fault + 'a \<Rightarrow> ('a \<Rightarrow> fault + 'b) \<Rightarrow> fault + 'b" where
  "and_then r f = (case r of Inl e \<Rightarrow> Inl e | Inr x \<Rightarrow> f x)"

lemma and_then_Inl [simp, res_simps]: "and_then (Inl e) f = Inl e"
  by (simp add: and_then_def)

lemma and_then_Inr [simp, res_simps]: "and_then (Inr x) f = f x"
  by (simp add: and_then_def)

lemma and_then_eq_Inr [res_simps]:
  "and_then r f = Inr y \<longleftrightarrow> (\<exists>x. r = Inr x \<and> f x = Inr y)"
  by (cases r) auto

text \<open>Reading an array cell: outside the array there is no defined value.\<close>

definition nth_res :: "'a list \<Rightarrow> nat \<Rightarrow> fault + 'a" where
  "nth_res xs i = (if i < length xs then Inr (xs ! i) else Inl OutOfBounds)"

lemma nth_res_ok [simp]: "i < length xs \<Longrightarrow> nth_res xs i = Inr (xs ! i)"
  by (simp add: nth_res_def)

lemma nth_res_fault [simp]: "length xs \<le> i \<Longrightarrow> nth_res xs i = Inl OutOfBounds"
  by (simp add: nth_res_def)

text \<open>Dereferencing a pointer.\<close>

definition deref :: "'a option \<Rightarrow> fault + 'a" where
  "deref p = (case p of None \<Rightarrow> Inl NullPointer | Some x \<Rightarrow> Inr x)"

lemma deref_simps [simp]: "deref None = Inl NullPointer" "deref (Some x) = Inr x"
  by (simp_all add: deref_def)

section \<open>Runs and invariants\<close>

text \<open>
  A component that handles one event after the other is a step function; a run folds it
  over the events. An invariant of the step is an invariant of every run.
\<close>

locale run_invariant =
  fixes step :: "'s \<Rightarrow> 'e \<Rightarrow> 's"
    and inv :: "'s \<Rightarrow> bool"
  assumes step_inv: "inv s \<Longrightarrow> inv (step s e)"
begin

lemma run_inv: "inv s \<Longrightarrow> inv (foldl step s es)"
  by (induction es arbitrary: s) (auto intro: step_inv)

end

text \<open>The same for steps that may fault; a fault ends the run.\<close>

fun run_res :: "('s \<Rightarrow> 'e \<Rightarrow> fault + 's) \<Rightarrow> 's \<Rightarrow> 'e list \<Rightarrow> fault + 's" where
  "run_res f s [] = Inr s"
| "run_res f s (e # es) = and_then (f s e) (\<lambda>s'. run_res f s' es)"

lemma run_res_append:
  "run_res f s (es @ fs) = and_then (run_res f s es) (\<lambda>s'. run_res f s' fs)"
  by (induction es arbitrary: s) (auto simp: and_then_def split: sum.splits)

locale res_invariant =
  fixes step :: "'s \<Rightarrow> 'e \<Rightarrow> fault + 's"
    and inv :: "'s \<Rightarrow> bool"
  assumes step_inv: "inv s \<Longrightarrow> step s e = Inr s' \<Longrightarrow> inv s'"
begin

lemma run_inv: "inv s \<Longrightarrow> run_res step s es = Inr s' \<Longrightarrow> inv s'"
  by (induction es arbitrary: s) (auto simp: and_then_eq_Inr intro: step_inv)

end

text \<open>A component whose steps never fault while the invariant holds.\<close>

locale safe_invariant = res_invariant +
  assumes step_safe: "inv s \<Longrightarrow> \<exists>s'. step s e = Inr s'"
begin

lemma run_safe: "inv s \<Longrightarrow> \<exists>s'. run_res step s es = Inr s' \<and> inv s'"
proof (induction es arbitrary: s)
  case Nil
  then show ?case by simp
next
  case (Cons e es)
  from step_safe [OF Cons.prems] obtain t where t: "step s e = Inr t" by blast
  with Cons.prems have "inv t" by (rule step_inv)
  with Cons.IH t show ?case by simp
qed

end

section \<open>C strings\<close>

text \<open>What \<^verbatim>\<open>"%s"\<close> prints: the characters before the terminating 0.\<close>

definition cstr :: "string \<Rightarrow> string" where
  "cstr s = takeWhile (\<lambda>c. c \<noteq> CHR 0x00) s"

section \<open>Hexadecimal text\<close>

text \<open>
  \<^verbatim>\<open>"%08X"\<close> of a 32-bit value: eight upper-case digits, most significant first.
\<close>

definition hexdigit :: "nat \<Rightarrow> char" where
  "hexdigit n = ''0123456789ABCDEF'' ! (n mod 16)"

definition hex8 :: "u32 \<Rightarrow> string" where
  "hex8 v = map (\<lambda>i. hexdigit (unat v div 16 ^ i)) [7, 6, 5, 4, 3, 2, 1, 0]"

definition hexval :: "char \<Rightarrow> nat option" where
  "hexval c = (let n = of_char c :: nat in
     if 48 \<le> n \<and> n \<le> 57 then Some (n - 48)
     else if 65 \<le> n \<and> n \<le> 70 then Some (n - 55)
     else if 97 \<le> n \<and> n \<le> 102 then Some (n - 87)
     else None)"

text \<open>
  \<^verbatim>\<open>strtol(s, NULL, 16)\<close>: leading white space, an optional sign, an optional
  \<^verbatim>\<open>0x\<close>, then digits up to the first character that is none. \<^verbatim>\<open>long\<close> has 32
  bits on every board the Makefiles list, and the result saturates at its bounds.
\<close>

definition LONG_MAX :: int where "LONG_MAX = 2 ^ 31 - 1"
definition LONG_MIN :: int where "LONG_MIN = - (2 ^ 31)"

fun hexnum :: "nat \<Rightarrow> string \<Rightarrow> nat" where
  "hexnum a [] = a"
| "hexnum a (c # cs) = (case hexval c of None \<Rightarrow> a | Some d \<Rightarrow> hexnum (16 * a + d) cs)"

definition c_isspace :: "char \<Rightarrow> bool" where
  "c_isspace c \<longleftrightarrow> (let n = of_char c :: nat in n = 32 \<or> (9 \<le> n \<and> n \<le> 13))"

definition strip_0x :: "string \<Rightarrow> string" where
  "strip_0x s = (case s of
     z # x # d # r \<Rightarrow>
       if z = CHR ''0'' \<and> (x = CHR ''x'' \<or> x = CHR ''X'') \<and> hexval d \<noteq> None then d # r else s
   | _ \<Rightarrow> s)"

definition strtol16 :: "string \<Rightarrow> int" where
  "strtol16 s =
     (let s1 = dropWhile c_isspace s;
          neg = (s1 \<noteq> [] \<and> hd s1 = CHR ''-'');
          s2 = (if s1 \<noteq> [] \<and> (hd s1 = CHR ''-'' \<or> hd s1 = CHR ''+'') then tl s1 else s1);
          v = int (hexnum 0 (strip_0x s2))
      in if neg then max LONG_MIN (- v) else min LONG_MAX v)"

lemmas strtol_simps = strtol16_def c_isspace_def strip_0x_def hexval_def LONG_MAX_def LONG_MIN_def

lemma hexval_hexdigit [simp]: "hexval (hexdigit n) = Some (n mod 16)"
proof -
  have *: "hexval (''0123456789ABCDEF'' ! m) = Some m" if "m < 16" for m
  proof -
    have "m = 0 \<or> m = 1 \<or> m = 2 \<or> m = 3 \<or> m = 4 \<or> m = 5 \<or> m = 6 \<or> m = 7 \<or> m = 8 \<or> m = 9
      \<or> m = 10 \<or> m = 11 \<or> m = 12 \<or> m = 13 \<or> m = 14 \<or> m = 15" using that by arith
    then show ?thesis by (elim disjE) (simp_all add: hexval_def)
  qed
  show ?thesis unfolding hexdigit_def by (rule *) simp
qed

lemma hexdigit_cases:
  "hexdigit n \<in> set ''0123456789ABCDEF''"
  unfolding hexdigit_def by (rule nth_mem) simp

lemma hexdigit_facts [simp]:
  "\<not> c_isspace (hexdigit n)" "hexdigit n \<noteq> CHR ''-''" "hexdigit n \<noteq> CHR ''+''"
  "hexdigit n \<noteq> CHR ''x''" "hexdigit n \<noteq> CHR ''X''"
  using hexdigit_cases [of n] by (auto simp: c_isspace_def)

lemma nibble: "16 * ((n::nat) div (16 * d)) + n div d mod 16 = n div d"
proof -
  have "n div (16 * d) = n div d div 16" by (metis div_mult2_eq mult.commute)
  then show ?thesis by simp
qed

lemma hexnum_hexdigit: "hexnum a (hexdigit n # cs) = hexnum (16 * a + n mod 16) cs"
  by simp

lemma hex8_hexnum: "hexnum 0 (hex8 v) = unat v"
proof -
  let ?n = "unat v"
  have b: "?n div 16 ^ 7 mod 16 = ?n div 16 ^ 7"
    using unsigned_less [of v, where 'a = nat] by (simp add: less_mult_imp_div_less)
  have s6: "16 * (?n div 16 ^ 7) + ?n div 16 ^ 6 mod 16 = ?n div 16 ^ 6"
    using nibble [of ?n "16 ^ 6"] by simp
  have s5: "16 * (?n div 16 ^ 6) + ?n div 16 ^ 5 mod 16 = ?n div 16 ^ 5"
    using nibble [of ?n "16 ^ 5"] by simp
  have s4: "16 * (?n div 16 ^ 5) + ?n div 16 ^ 4 mod 16 = ?n div 16 ^ 4"
    using nibble [of ?n "16 ^ 4"] by simp
  have s3: "16 * (?n div 16 ^ 4) + ?n div 16 ^ 3 mod 16 = ?n div 16 ^ 3"
    using nibble [of ?n "16 ^ 3"] by simp
  have s2: "16 * (?n div 16 ^ 3) + ?n div 16 ^ 2 mod 16 = ?n div 16 ^ 2"
    using nibble [of ?n "16 ^ 2"] by simp
  have s1: "16 * (?n div 16 ^ 2) + ?n div 16 ^ 1 mod 16 = ?n div 16 ^ 1"
    using nibble [of ?n "16 ^ 1"] by simp
  have s0: "16 * (?n div 16 ^ 1) + ?n div 16 ^ 0 mod 16 = ?n div 16 ^ 0"
    using nibble [of ?n "16 ^ 0"] by simp
  have e: "hexnum 0 (hex8 v) = 16 * (16 * (16 * (16 * (16 * (16 * (16 * (?n div 16 ^ 7 mod 16) +
      ?n div 16 ^ 6 mod 16) + ?n div 16 ^ 5 mod 16) + ?n div 16 ^ 4 mod 16) +
      ?n div 16 ^ 3 mod 16) + ?n div 16 ^ 2 mod 16) + ?n div 16 ^ 1 mod 16) + ?n div 16 ^ 0 mod 16"
    by (simp only: hex8_def list.map hexnum_hexdigit hexnum.simps(1) mult_0_right add_0)
  show ?thesis unfolding e b s6 s5 s4 s3 s2 s1 s0 by simp
qed

lemma length_hex8 [simp]: "length (hex8 v) = 8"
  by (simp add: hex8_def)

lemma strtol16_hex8:
  "strtol16 (hex8 v) = (if unat v < 2 ^ 31 then int (unat v) else LONG_MAX)"
proof -
  have "strip_0x (hex8 v) = hex8 v" by (simp add: strip_0x_def hex8_def)
  moreover have "dropWhile c_isspace (hex8 v) = hex8 v" by (simp add: hex8_def)
  moreover have "hd (hex8 v) \<noteq> CHR ''-''" "hd (hex8 v) \<noteq> CHR ''+''"
    by (simp_all add: hex8_def)
  ultimately have "strtol16 (hex8 v) = min LONG_MAX (int (unat v))"
    by (simp only: strtol16_def Let_def hex8_hexnum if_False simp_thms)
  moreover have "min LONG_MAX (int n) = (if n < 2 ^ 31 then int n else LONG_MAX)" for n
    by (simp add: LONG_MAX_def min_def)
  ultimately show ?thesis by (simp only:)
qed

section \<open>Conversion to float\<close>

text \<open>
  A natural number as \<^verbatim>\<open>float\<close>: the 24 most significant bits are kept and the rest is rounded to
  nearest, ties to even. The result is an integer again. \<open>u32_to_float\<close> is \<^verbatim>\<open>(float) r\<close> for an
  unsigned 32-bit \<open>r\<close>.
\<close>

fun bit_len :: "nat \<Rightarrow> nat" where
  "bit_len n = (if n = 0 then 0 else Suc (bit_len (n div 2)))"

declare bit_len.simps [simp del]

lemma bit_len_simps: "bit_len 0 = 0" "bit_len 1 = 1" "bit_len (Suc 0) = 1"
  "bit_len (numeral k) = Suc (bit_len (numeral k div 2))"
  by (simp_all add: bit_len.simps [of 0] bit_len.simps [of "Suc 0"] bit_len.simps [of "numeral k"])

lemma bit_len_le: "0 < n \<Longrightarrow> 2 ^ bit_len n \<le> 2 * n"
proof (induction n rule: bit_len.induct)
  case (1 n)
  show ?case
  proof (cases "n div 2 = 0")
    case True
    with 1 have "n = 1" by linarith
    then show ?thesis by (simp add: bit_len_simps)
  next
    case False
    with 1 have "2 ^ bit_len (n div 2) \<le> 2 * (n div 2)" by simp
    with 1 show ?thesis by (simp add: bit_len.simps [of n])
  qed
qed

definition float_of_nat :: "nat \<Rightarrow> nat" where
  "float_of_nat n =
     (let e = bit_len n - 24; q = n div 2 ^ e; m = n mod 2 ^ e; h = 2 ^ e div 2
      in if e = 0 then n
         else if m < h \<or> (m = h \<and> even q) then q * 2 ^ e else (q + 1) * 2 ^ e)"

definition u32_to_float :: "u32 \<Rightarrow> nat" where
  "u32_to_float r = float_of_nat (unat r)"

text \<open>Rounding changes less than one part in a thousand (far less, but this is enough here).\<close>

lemma float_of_nat_near: "1024 * \<bar>int (float_of_nat n) - int n\<bar> \<le> int n"
proof (cases "bit_len n \<le> 24")
  case True
  then show ?thesis by (simp add: float_of_nat_def)
next
  case False
  define e where "e = bit_len n - 24"
  have "0 < n" using False by (cases n) (simp_all add: bit_len_simps)
  have "bit_len n = 24 + e" using False by (simp add: e_def)
  define w where "w = (2 :: nat) ^ e"
  have "2 ^ 24 * w \<le> 2 * n" using bit_len_le [OF \<open>0 < n\<close>] \<open>bit_len n = 24 + e\<close> by (simp add: power_add w_def)
  then have "8388608 * w \<le> n" by simp
  moreover have "n mod w < w" by (simp add: w_def)
  moreover have "n = n div w * w + n mod w" by (rule div_mult_mod_eq [symmetric])
  moreover have "float_of_nat n = n div w * w \<or> float_of_nat n = n div w * w + w"
    by (simp add: float_of_nat_def e_def [symmetric] w_def Let_def)
  ultimately have "float_of_nat n \<le> n + w" "n \<le> float_of_nat n + w" "8388608 * w \<le> n" by linarith+
  then have "int (float_of_nat n) - int n \<le> int w" "int n - int (float_of_nat n) \<le> int w"
    "8388608 * int w \<le> int n"
    by linarith+
  then show ?thesis by (simp add: abs_if)
qed

end
