(* ===== verification/Dow_Types.thy ===== *)
theory Dow_Types
  imports Complex_Main Prelude
begin

text \<open>
  The data of the caching application (\<^verbatim>\<open>ccnl_caching/dow.h\<close>, \<^verbatim>\<open>ccnlriot.h\<close> and the
  globals of \<^verbatim>\<open>dow.c\<close>, \<^verbatim>\<open>ccnl_helper.c\<close>, \<^verbatim>\<open>beaconing.c\<close>, \<^verbatim>\<open>main.c\<close>): the compile-time
  configuration, the state of one node, the messages and timers, and the record of the
  operations of CCN-lite and RIOT the code calls. Logging is left out; every other call
  that leaves the component is an entry of the node's trace.
\<close>

section \<open>Compile-time configuration\<close>

text \<open>
  One field per macro of \<^verbatim>\<open>dow.h\<close> and \<^verbatim>\<open>ccnlriot.h\<close> that selects code or bounds. A
  conditional of the preprocessor is an \<open>if\<close> on the field.
\<close>

record config =
  DOW_DEPUTY :: bool
  DOW_DEBUG :: bool
  DOW_D :: nat
  DOW_XD :: nat
  DOW_START_P :: rat
  DOW_Y :: nat
  DOW_CACHE_REPL_STRAT :: bool
  DOW_HARDWIRED :: bool
  DOW_PRIO_CACHE :: nat
  DOW_INT_INT :: bool
  DOW_REBC_LAST :: bool
  DOW_PER :: nat
  DOW_APMDMR :: bool
  DOW_PSR :: nat
  DOW_PSR2 :: nat
  DOW_RAND_SEEDING :: bool
  DOW_KEEP_ALIVE_PFX :: bool
  DOW_KEEP_ALIVE_MIN_THR :: nat
  DOW_BC_COUNT :: nat
  CCNLRIOT_CACHE_SIZE :: nat

text \<open>
  The configuration in the repository. \<^verbatim>\<open>DOW_XD\<close> stands for the expression
  \<^verbatim>\<open>DOW_X * DOW_D\<close>, which the code only ever converts to an unsigned integer
  (\<^verbatim>\<open>.031 * 33\<close> is 1). \<^verbatim>\<open>DOW_START_P\<close> is the \<^verbatim>\<open>float\<close> nearest to 0.90.
\<close>

definition caching_cfg :: config where
  "caching_cfg = \<lparr>
     DOW_DEPUTY = False, DOW_DEBUG = False, DOW_D = 33, DOW_XD = 1, DOW_START_P = 15099494 / 2 ^ 24,
     DOW_Y = 24, DOW_CACHE_REPL_STRAT = True, DOW_HARDWIRED = False, DOW_PRIO_CACHE = 0,
     DOW_INT_INT = False, DOW_REBC_LAST = True, DOW_PER = 0, DOW_APMDMR = False,
     DOW_PSR = 0, DOW_PSR2 = 0, DOW_RAND_SEEDING = False, DOW_KEEP_ALIVE_PFX = False,
     DOW_KEEP_ALIVE_MIN_THR = 0, DOW_BC_COUNT = 3, CCNLRIOT_CACHE_SIZE = 20 \<rparr>"

definition DOW_FIRST_PHASE :: int where "DOW_FIRST_PHASE = 3"
definition DOW_APMDMR_MIN_INT :: nat where "DOW_APMDMR_MIN_INT = 3"
definition DOW_SENSOR_MAX_NR :: nat where "DOW_SENSOR_MAX_NR = 5"
definition DOW_MAX_PREFIXES :: nat where "DOW_MAX_PREFIXES = 10"
definition DOW_CONT_LEN :: nat where "DOW_CONT_LEN = 8"
definition DOW_BEACONING_COUNT :: nat where "DOW_BEACONING_COUNT = 3"

definition SEC_IN_USEC :: u32 where "SEC_IN_USEC = 1000000"
definition DOW_KEEP_ALIVE_PERIOD :: u32 where "DOW_KEEP_ALIVE_PERIOD = 100 * 1000"
definition DOW_BEACONING_WAIT :: u32 where
  "DOW_BEACONING_WAIT = (of_nat DOW_BEACONING_COUNT + 1) * SEC_IN_USEC"

text \<open>The strings and numbers of \<^verbatim>\<open>ccnlriot.h\<close>.\<close>

definition CCNLRIOT_ALL_PREFIX :: string where "CCNLRIOT_ALL_PREFIX = ''/*''"
definition CCNLRIOT_SITE_PREFIX :: string where "CCNLRIOT_SITE_PREFIX = ''/s''"
definition CCNLRIOT_TYPE_PREFIX :: string where "CCNLRIOT_TYPE_PREFIX = ''/t''"
definition CCNLRIOT_BEACON_PREFIX :: string where "CCNLRIOT_BEACON_PREFIX = ''/#''"
definition CCNLRIOT_CONT_ACK :: string where "CCNLRIOT_CONT_ACK = ''ACK''"
definition CCNLRIOT_INT_RETRIES :: nat where "CCNLRIOT_INT_RETRIES = 3"
definition CCNLRIOT_INT_TIMEOUT :: int where "CCNLRIOT_INT_TIMEOUT = 100000"
definition CCNLRIOT_BUF_SIZE :: nat where "CCNLRIOT_BUF_SIZE = 128"

definition CCNLRIOT_TIMEOUT :: nat where "CCNLRIOT_TIMEOUT = 0"
definition CCNLRIOT_RECEIVED_CHUNK :: nat where "CCNLRIOT_RECEIVED_CHUNK = 1"
definition CCNLRIOT_LAST_CN :: nat where "CCNLRIOT_LAST_CN = 2"

section \<open>Packets, content store and pending interests\<close>

text \<open>
  The fields of CCN-lite's structures that the code reads or writes. A linked list is a
  list in the order of its \<^verbatim>\<open>next\<close> pointers; an entry carries its address. A name component
  is the list of its bytes: the byte that follows it in the packet starts the next
  type-length-value block and is no hexadecimal digit.
\<close>

record prefix =
  comp :: "string list"
  chunknum :: "int option"

abbreviation compcnt :: "prefix \<Rightarrow> nat" where "compcnt p \<equiv> length (comp p)"

text \<open>\<^verbatim>\<open>dow_content_t\<close>: the value bytes and the number.\<close>

record dow_content_t =
  cvalue :: string
  cnum :: int

definition sizeof_dow_content :: nat where "sizeof_dow_content = 13"

record pkt =
  pfx :: prefix
  content :: dow_content_t
  contlen :: nat

record content_s =
  c_addr :: nat
  c_pkt :: pkt
  f_static :: bool
  f_user1 :: bool
  f_user2 :: bool

record interest_s =
  i_addr :: nat
  i_pfx :: prefix
  i_from :: int
  i_pending :: int

record relay =
  contents :: "content_s list"
  pit :: "interest_s list"
  max_cache_entries :: int
  contentcnt :: nat
  cache_write_lock :: bool

section \<open>Messages, timers and calls\<close>

datatype dow_state_t =
    DOW_STATE_DEPUTY | DOW_STATE_HANDOVER | DOW_STATE_INACTIVE | DOW_STATE_STOPPED

datatype mtype =
    DOW_MSG_SECOND | DOW_MSG_TAKEOVER | DOW_MSG_NEWDATA | DOW_MSG_INACTIVE
  | DOW_MSG_BACKTOSLEEP | DOW_MSG_BEACON | DOW_MSG_BEACON_END | DOW_MSG_RECEIVED
  | DOW_MSG_RECEIVED_ACK | DOW_MSG_RECEIVED_INT
  | GNRC_NETAPI_MSG_TYPE_RCV | CCNL_MSG_TIMEOUT | OTHER_MSG u16

text \<open>The numbers \<^verbatim>\<open>dow.h\<close> gives to the message types.\<close>

fun dow_msg_code :: "mtype \<Rightarrow> u16 option" where
  "dow_msg_code DOW_MSG_SECOND = Some 0x4443"
| "dow_msg_code DOW_MSG_TAKEOVER = Some 0x4444"
| "dow_msg_code DOW_MSG_NEWDATA = Some 0x4445"
| "dow_msg_code DOW_MSG_INACTIVE = Some 0x4446"
| "dow_msg_code DOW_MSG_BACKTOSLEEP = Some 0x4447"
| "dow_msg_code DOW_MSG_BEACON = Some 0x4448"
| "dow_msg_code DOW_MSG_BEACON_END = Some 0x4449"
| "dow_msg_code DOW_MSG_RECEIVED = Some 0x4450"
| "dow_msg_code DOW_MSG_RECEIVED_ACK = Some 0x4451"
| "dow_msg_code DOW_MSG_RECEIVED_INT = Some 0x4452"
| "dow_msg_code _ = None"

text \<open>
  What a message carries: nothing, the prefix pointer of \<^verbatim>\<open>DOW_MSG_RECEIVED\<close>, or the packet
  snip of the network API (its type is CCN chunk or not, and its bytes).
\<close>

datatype payload = No_payload | Pfx_payload prefix | Snip bool string

record msg =
  m_type :: mtype
  m_content :: payload

datatype timer =
    Dow_timer | Dow_data_timer | Sleep_timer | Helper_sleep_timer | Wait_timer | Beacon_timer

datatype netopt_state = NETOPT_STATE_SLEEP | NETOPT_STATE_IDLE | NETOPT_STATE_OTHER u16

datatype cmp_mode = CMP_EXACT | CMP_MATCH

text \<open>The calls that leave the component, as they appear in the trace.\<close>

datatype effect =
    Timer_set timer u32 mtype
  | Timer_remove timer
  | Msg_sent mtype payload
  | Radio_set netopt_state bool
  | Clear_pit_but_own
  | Clear_pit_own
  | Packet_freed pkt
  | Content_freed nat
  | Prefix_freed prefix
  | Chunk_broadcast pkt
  | Chunk_looped_back pkt
  | Chunk_enqueued int pkt
  | Interest_sent prefix
  | Beacon_sent u32
  | Slept nat
  | Netreg_registered
  | Netreg_unregistered
  | New_data_printed string
  | Thread_created
  | Random_seeded u32

section \<open>The state of a node\<close>

text \<open>
  The counters of the environment say which read of the clock, of the random number
  generator and so on comes next.
\<close>

record env =
  e_clock :: nat
  e_random :: nat
  e_alloc :: nat
  e_recv :: nat
  e_get :: nat
  e_set :: nat
  e_trace :: "effect list"

record node =
  ccnl_relay :: relay
  dow_state :: dow_state_t
  dow_my_id :: u32
  dow_prevent_sleep :: u8
  dow_time_sleeping :: u32
  dow_time_active :: u32
  dow_sleeping :: bool
  dow_ts_wakeup :: u32
  dow_ts_sleep :: u32
  dow_prio_cache_cnt :: u8
  dow_my_prefix_interest_count :: u8
  dow_cache_size :: u32
  dow_period_counter :: u32
  sleep_period :: u32
  last_deputy_ts :: u32
  dow_phase_counter :: int
  old_data :: u32
  send_old_data :: bool
  DOW_P :: rat
  dow_registered_prefix :: string
  dow_is_registered :: bool
  dow_sensors :: "string list"
  dow_sensor_nr :: u8
  dow_manual_id :: bool
  dow_num_src :: u16
  dow_is_source :: bool
  dow_position :: u16
  dow_size :: u16
  dow_neighbors :: "u32 list"
  all_pfx :: prefix
  my_pfx :: prefix
  flagged_cache :: u8
  dow_pfx_pres :: "(char \<times> u32) list"
  first_time_full :: bool
  env :: env

section \<open>CCN-lite and RIOT\<close>

text \<open>
  The code outside the repository: its operations are fields of a record every operation
  of the model takes. \<open>x_now\<close>, \<open>x_random\<close>, \<open>x_alloc\<close>, \<open>x_recv\<close>, \<open>x_get_state\<close> and
  \<open>x_set_state\<close> give the result of the n-th call; \<open>add2cache\<close> takes the replacement
  strategy CCN-lite calls back, if one is registered. \<open>wait_fuel\<close> is no operation: it bounds
  the rounds of a loop that waits for messages (enough of them are shown to suffice).
\<close>

record ext =
  prefix_cmp :: "prefix \<Rightarrow> prefix \<Rightarrow> cmp_mode \<Rightarrow> int"
  uri_to_prefix :: "string \<Rightarrow> int option \<Rightarrow> prefix option"
  prefix_dup :: "prefix \<Rightarrow> prefix"
  prepend_content :: "prefix \<Rightarrow> dow_content_t \<Rightarrow> string"
  data_bytes2pkt :: "string \<Rightarrow> pkt option"
  dehead_is_data :: "string \<Rightarrow> bool"
  wire :: "pkt \<Rightarrow> string option"
  add2cache :: "(node \<Rightarrow> content_s \<Rightarrow> fault + (int \<times> node)) option \<Rightarrow> node \<Rightarrow> content_s
      \<Rightarrow> fault + (bool \<times> node)"
  content_remove :: "relay \<Rightarrow> content_s \<Rightarrow> relay"
  interest_remove :: "relay \<Rightarrow> interest_s \<Rightarrow> relay"
  serve_pending :: "relay \<Rightarrow> content_s \<Rightarrow> relay"
  mk_interest :: "prefix \<Rightarrow> u32 \<Rightarrow> string"
  dehead_ok :: "string \<Rightarrow> bool"
  interest_bytes2pkt :: "string \<Rightarrow> pkt option"
  interest_new :: "relay \<Rightarrow> int \<Rightarrow> pkt option \<Rightarrow> interest_s option \<times> relay"
  loopback_face :: int
  wait_fuel :: nat
  max_interest_retransmit :: int
  etimedout :: int
  x_now :: "nat \<Rightarrow> u32"
  x_random :: "nat \<Rightarrow> u32"
  x_alloc :: "nat \<Rightarrow> nat option"
  x_recv :: "nat \<Rightarrow> msg"
  x_get_state :: "nat \<Rightarrow> netopt_state option"
  x_set_state :: "nat \<Rightarrow> bool"
  x_cpuid :: u32
  bloom_check :: "u32 list \<Rightarrow> u32 \<Rightarrow> bool"

section \<open>Reading the environment and writing the trace\<close>

definition emit :: "effect \<Rightarrow> node \<Rightarrow> node" where
  "emit e s = s\<lparr>env := (env s)\<lparr>e_trace := e_trace (env s) @ [e]\<rparr>\<rparr>"

definition xtimer_now :: "ext \<Rightarrow> node \<Rightarrow> u32 \<times> node" where
  "xtimer_now X s = (x_now X (e_clock (env s)), s\<lparr>env := (env s)\<lparr>e_clock := e_clock (env s) + 1\<rparr>\<rparr>)"

definition random_uint32 :: "ext \<Rightarrow> node \<Rightarrow> u32 \<times> node" where
  "random_uint32 X s =
     (x_random X (e_random (env s)), s\<lparr>env := (env s)\<lparr>e_random := e_random (env s) + 1\<rparr>\<rparr>)"

definition msg_receive :: "ext \<Rightarrow> node \<Rightarrow> msg \<times> node" where
  "msg_receive X s = (x_recv X (e_recv (env s)), s\<lparr>env := (env s)\<lparr>e_recv := e_recv (env s) + 1\<rparr>\<rparr>)"

definition radio_get :: "ext \<Rightarrow> node \<Rightarrow> netopt_state option \<times> node" where
  "radio_get X s = (x_get_state X (e_get (env s)), s\<lparr>env := (env s)\<lparr>e_get := e_get (env s) + 1\<rparr>\<rparr>)"

definition radio_set :: "ext \<Rightarrow> netopt_state \<Rightarrow> node \<Rightarrow> node" where
  "radio_set X st s =
     (let ok = x_set_state X (e_set (env s))
      in emit (Radio_set st ok) (s\<lparr>env := (env s)\<lparr>e_set := e_set (env s) + 1\<rparr>\<rparr>))"

definition trace :: "node \<Rightarrow> effect list" where
  "trace s = e_trace (env s)"

text \<open>
  \<^verbatim>\<open>ccnl_content_new\<close>: a block from the heap, or none; the packet moves into it and no
  flag is set.
\<close>

definition content_new :: "ext \<Rightarrow> pkt \<Rightarrow> node \<Rightarrow> content_s option \<times> node" where
  "content_new X p s =
     (map_option (\<lambda>a. \<lparr>c_addr = a, c_pkt = p, f_static = False, f_user1 = False, f_user2 = False\<rparr>)
        (x_alloc X (e_alloc (env s))),
      s\<lparr>env := (env s)\<lparr>e_alloc := e_alloc (env s) + 1\<rparr>\<rparr>)"

text \<open>\<^verbatim>\<open>dow_registered_prefix[1]\<close>, which is 0 before a subscription.\<close>

definition reg_char :: "node \<Rightarrow> char" where
  "reg_char s = (case dow_registered_prefix s of [_, c] \<Rightarrow> c | _ \<Rightarrow> CHR 0x00)"

definition set_contents :: "content_s list \<Rightarrow> node \<Rightarrow> node" where
  "set_contents cs s = s\<lparr>ccnl_relay := (ccnl_relay s)\<lparr>contents := cs\<rparr>\<rparr>"

text \<open>
  The probability tests: \<^verbatim>\<open>DOW_GO_SLEEP\<close> compares in \<^verbatim>\<open>float\<close>, where \<^verbatim>\<open>UINT32_MAX\<close>
  is 2^32; \<^verbatim>\<open>DOW_DO_CACHE\<close> compares in \<^verbatim>\<open>double\<close>, which holds every 32-bit integer, against
  half of \<^verbatim>\<open>UINT32_MAX\<close>.
\<close>

definition dow_go_sleep :: "ext \<Rightarrow> node \<Rightarrow> bool \<times> node" where
  "dow_go_sleep X s =
     (let (r, s) = random_uint32 X s in (rat_of_nat (u32_to_float r) < 2 ^ 32 * DOW_P s, s))"

definition dow_do_cache :: "ext \<Rightarrow> node \<Rightarrow> bool \<times> node" where
  "dow_do_cache X s = (let (r, s) = random_uint32 X s in (2 * unat r < 2 ^ 32 - 1, s))"

definition dow_event_period_jitter :: "ext \<Rightarrow> node \<Rightarrow> u32 \<times> node" where
  "dow_event_period_jitter X s =
     (let (r, s) = random_uint32 X s in (SEC_IN_USEC + and r 0x1FFFFFF, s))"

definition dow_beaconing_period :: "ext \<Rightarrow> node \<Rightarrow> u32 \<times> node" where
  "dow_beaconing_period X s =
     (let (r, s) = random_uint32 X s in (and r 0x000FFFFF + 50000, s))"

text \<open>\<^verbatim>\<open>DOW_RANDOM_CHUNK\<close>: the remainder by zero has no defined value in C.\<close>

definition dow_random_chunk :: "ext \<Rightarrow> node \<Rightarrow> fault + (int \<times> node)" where
  "dow_random_chunk X s =
     (let (r, s) = random_uint32 X s
      in if contentcnt (ccnl_relay s) = 0 then Inl OutOfBounds
         else Inr (int (unat r mod contentcnt (ccnl_relay s)), s))"

end
