(* ===== verification/Ccnl_Store.thy ===== *)
theory Ccnl_Store
  imports Dow_Types
begin

text \<open>
  The content store side of \<^verbatim>\<open>ccnl_caching/ccnl_helper.c\<close>: subscriptions and prefix
  statistics, building content, the newest-value flags (\<^verbatim>\<open>_unflag_cs\<close>,
  \<^verbatim>\<open>_ccnl_helper_handle_content\<close>), the removal of pending interests, and the replacement
  strategy \<^verbatim>\<open>cs_oldest_representative\<close>.
\<close>

section \<open>Initialisation, subscription and prefix statistics\<close>

definition ccnl_helper_reset :: "node \<Rightarrow> node" where
  "ccnl_helper_reset s =
     set_contents (map (\<lambda>c. c\<lparr>f_user2 := False\<rparr>) (contents (ccnl_relay s))) s"

text \<open>
  \<^verbatim>\<open>ccnl_URItoPrefix\<close> may return a null pointer, which the code stores and dereferences at
  its first use; the model faults at once.
\<close>

definition ccnl_helper_init :: "ext \<Rightarrow> node \<Rightarrow> fault + node" where
  "ccnl_helper_init X s =
     and_then (deref (uri_to_prefix X CCNLRIOT_ALL_PREFIX (Some 0))) (\<lambda>p.
       Inr ((ccnl_helper_reset (s\<lparr>all_pfx := p\<rparr>))
              \<lparr>dow_pfx_pres := replicate DOW_MAX_PREFIXES (CHR 0x00, 0)\<rparr>))"

definition ccnl_helper_subsribe :: "ext \<Rightarrow> char \<Rightarrow> node \<Rightarrow> fault + node" where
  "ccnl_helper_subsribe X c s =
     and_then (deref (uri_to_prefix X (CCNLRIOT_TYPE_PREFIX @ ''/'' @ cstr [c]) (Some 0))) (\<lambda>p.
       Inr (s\<lparr>dow_registered_prefix := [CHR ''/'', c], dow_is_registered := True, my_pfx := p\<rparr>))"

fun pfx_under_represented :: "char \<Rightarrow> (char \<times> u32) list \<Rightarrow> bool" where
  "pfx_under_represented p [] = False"
| "pfx_under_represented p ((q, n) # r) =
     (if q = CHR 0x00 then False
      else if q = p \<and> unat n < DOW_APMDMR_MIN_INT then True
      else pfx_under_represented p r)"

definition ccnl_helper_prefix_under_represented :: "char \<Rightarrow> node \<Rightarrow> bool" where
  "ccnl_helper_prefix_under_represented p s = pfx_under_represented p (dow_pfx_pres s)"

fun pfx_seen :: "char \<Rightarrow> (char \<times> u32) list \<Rightarrow> (char \<times> u32) list" where
  "pfx_seen p [] = []"
| "pfx_seen p ((q, n) # r) =
     (if q = p \<or> q = CHR 0x00 then (p, n + 1) # r else (q, n) # pfx_seen p r)"

definition prefix_seen_interest :: "char \<Rightarrow> node \<Rightarrow> node" where
  "prefix_seen_interest p s = s\<lparr>dow_pfx_pres := pfx_seen p (dow_pfx_pres s)\<rparr>"

section \<open>Building content and interests\<close>

definition set_num :: "int \<Rightarrow> pkt \<Rightarrow> pkt" where
  "set_num n p = p\<lparr>content := (content p)\<lparr>cnum := n\<rparr>\<rparr>"

text \<open>\<^verbatim>\<open>memset\<close> and \<^verbatim>\<open>memcpy\<close> of the value into the nine bytes of \<^verbatim>\<open>dow_content_t\<close>.\<close>

definition dow_content :: "string \<Rightarrow> dow_content_t" where
  "dow_content v =
     \<lparr>cvalue = v @ replicate (DOW_CONT_LEN + 1 - length v) (CHR 0x00), cnum = -1\<rparr>"

fun broadcast_loop :: "config \<Rightarrow> nat \<Rightarrow> pkt \<Rightarrow> node \<Rightarrow> node" where
  "broadcast_loop cfg 0 p s = s"
| "broadcast_loop cfg (Suc n) p s =
     (let s = emit (Chunk_broadcast p) s;
          s = (if DOW_BC_COUNT cfg > 1 then emit (Slept 20000) s else s)
      in broadcast_loop cfg n p s)"

text \<open>The value argument is the \<^verbatim>\<open>len\<close> bytes at \<^verbatim>\<open>value\<close>.\<close>

definition ccnl_helper_create_cont ::
  "config \<Rightarrow> ext \<Rightarrow> prefix \<Rightarrow> string \<Rightarrow> bool \<Rightarrow> bool \<Rightarrow> node \<Rightarrow> fault + (content_s option \<times> node)"
where
  "ccnl_helper_create_cont cfg X p value cache send s =
     (if length value > DOW_CONT_LEN + 1 then Inr (None, s)
      else let bytes = prepend_content X p (dow_content value) in
        if \<not> dehead_is_data X bytes then Inr (None, s)
        else case data_bytes2pkt X bytes of
            None \<Rightarrow> Inr (None, s)
          | Some pk \<Rightarrow>
             (let (c, s) = content_new X pk s in
              and_then
                (if send then and_then (deref c) (\<lambda>c. Inr (broadcast_loop cfg (DOW_BC_COUNT cfg) (c_pkt c) s))
                 else Inr s) (\<lambda>s.
              and_then
                (if cache then and_then (deref c) (\<lambda>c.
                   Inr (emit (Content_freed (c_addr c)) (emit (Packet_freed (c_pkt c))
                     (emit (Chunk_looped_back (c_pkt c)) s))))
                 else Inr s) (\<lambda>s.
              Inr (c, s)))))"

definition ccnl_helper_create_int :: "ext \<Rightarrow> prefix \<Rightarrow> node \<Rightarrow> interest_s option \<times> node" where
  "ccnl_helper_create_int X p s =
     (let (nonce, s) = random_uint32 X s;
          bytes = mk_interest X p nonce
      in if \<not> dehead_ok X bytes then (None, s)
         else let (i, r) = interest_new X (ccnl_relay s) (loopback_face X) (interest_bytes2pkt X bytes)
              in (i, s\<lparr>ccnl_relay := r\<rparr>))"

definition send_ack :: "config \<Rightarrow> ext \<Rightarrow> int \<Rightarrow> prefix \<Rightarrow> int \<Rightarrow> node \<Rightarrow> fault + node" where
  "send_ack cfg X from p num s =
     and_then (ccnl_helper_create_cont cfg X p (CCNLRIOT_CONT_ACK @ [CHR 0x00]) False False s)
       (\<lambda>(c, s). case c of
          None \<Rightarrow> Inr s
        | Some c \<Rightarrow>
           Inr (emit (Content_freed (c_addr c)) (emit (Packet_freed (set_num num (c_pkt c)))
             (emit (Chunk_enqueued from (set_num num (c_pkt c))) s))))"

text \<open>
  \<^verbatim>\<open>_cont_is_dup\<close> sets both numbers to -1 while it compares the two encodings, and
  restores them.
\<close>

fun is_dup_of :: "ext \<Rightarrow> pkt \<Rightarrow> content_s list \<Rightarrow> bool" where
  "is_dup_of X p [] = False"
| "is_dup_of X p (c # cs) =
     (if wire X (set_num (-1) (c_pkt c)) \<noteq> None \<and> wire X (set_num (-1) p) \<noteq> None \<and>
         wire X (set_num (-1) (c_pkt c)) = wire X (set_num (-1) p) then True
      else is_dup_of X p cs)"

definition cont_is_dup :: "ext \<Rightarrow> pkt \<Rightarrow> node \<Rightarrow> bool" where
  "cont_is_dup X p s = is_dup_of X p (contents (ccnl_relay s))"

definition ccnl_helper_clear_pit_for_own :: "node \<Rightarrow> node" where
  "ccnl_helper_clear_pit_for_own s = emit Clear_pit_own s"

section \<open>Pending interests\<close>

fun remove_pit_loop :: "ext \<Rightarrow> prefix \<Rightarrow> int \<Rightarrow> relay \<Rightarrow> interest_s list \<Rightarrow> fault + relay" where
  "remove_pit_loop X ap num r [] = Inr r"
| "remove_pit_loop X ap num r (i # is) =
     (if prefix_cmp X ap (i_pfx i) CMP_MATCH \<ge> 1 then
        and_then (deref (chunknum (i_pfx i))) (\<lambda>n.
          if n = num then Inr (interest_remove X r i) else remove_pit_loop X ap num r is)
      else remove_pit_loop X ap num r is)"

definition remove_pit :: "ext \<Rightarrow> int \<Rightarrow> node \<Rightarrow> fault + node" where
  "remove_pit X num s =
     and_then (remove_pit_loop X (all_pfx s) num (ccnl_relay s) (pit (ccnl_relay s)))
       (\<lambda>r. Inr (s\<lparr>ccnl_relay := r\<rparr>))"

section \<open>The newest-value flags\<close>

text \<open>\<^verbatim>\<open>ccnl_helper_removed_t\<close>: a set of two bits, here a record.\<close>

record removed =
  REMOVED_NEWEST_FLAG :: bool
  REMOVED_PRIO_FLAG :: bool

definition removed_nothing :: removed where
  "removed_nothing = \<lparr>REMOVED_NEWEST_FLAG = False, REMOVED_PRIO_FLAG = False\<rparr>"

text \<open>Clear \<^verbatim>\<open>USER1\<close> and \<^verbatim>\<open>STATIC\<close> of one entry and note what was set.\<close>

definition unflag_entry :: "content_s \<Rightarrow> removed \<Rightarrow> content_s \<times> removed" where
  "unflag_entry c u =
     (c\<lparr>f_user1 := False, f_static := False\<rparr>,
      \<lparr>REMOVED_NEWEST_FLAG = (REMOVED_NEWEST_FLAG u \<or> f_user1 c),
       REMOVED_PRIO_FLAG = (REMOVED_PRIO_FLAG u \<or> f_static c)\<rparr>)"

fun unflag_loop :: "string \<Rightarrow> content_s list \<Rightarrow> removed \<Rightarrow> content_s list \<times> removed" where
  "unflag_loop source [] u = ([], u)"
| "unflag_loop source (c # cs) u =
     (let (c', u') =
            (if compcnt (pfx (c_pkt c)) > 3 \<and>
                take DOW_CONT_LEN source = take DOW_CONT_LEN (comp (pfx (c_pkt c)) ! 2)
             then unflag_entry c u else (c, u));
          (cs', u'') = unflag_loop source cs u'
      in (c' # cs', u''))"

definition unflag_cs :: "string \<Rightarrow> node \<Rightarrow> removed \<times> node" where
  "unflag_cs source s =
     (let (cs, u) = unflag_loop source (contents (ccnl_relay s)) removed_nothing
      in (u, set_contents cs s))"

text \<open>
  The scan of \<^verbatim>\<open>_ccnl_helper_handle_content\<close>: the entries before the newer one it stops
  at, that entry, and the rest.
\<close>

fun newer_scan ::
  "ext \<Rightarrow> prefix \<Rightarrow> int \<Rightarrow> content_s list \<Rightarrow> removed
     \<Rightarrow> content_s list \<times> content_s option \<times> content_s list \<times> removed" where
  "newer_scan X p ts [] u = ([], None, [], u)"
| "newer_scan X p ts (c # cs) u =
     (if compcnt (pfx (c_pkt c)) < 4 then
        (let (pre, n, post, u') = newer_scan X p ts cs u in (c # pre, n, post, u'))
      else if prefix_cmp X (pfx (c_pkt c)) p CMP_MATCH \<ge> 3 then
        (let (c', u') = unflag_entry c u in
         if strtol16 (comp (pfx (c_pkt c)) ! 3) > ts then ([], Some c', cs, u')
         else (let (pre, n, post, u'') = newer_scan X p ts cs u' in (c' # pre, n, post, u'')))
      else (let (pre, n, post, u') = newer_scan X p ts cs u in (c # pre, n, post, u')))"

text \<open>The flags of the store and of the new entry after the scan.\<close>

definition handle_flags :: "config \<Rightarrow> ext \<Rightarrow> content_s \<Rightarrow> int \<Rightarrow> node \<Rightarrow> content_s \<times> node" where
  "handle_flags cfg X c ts s =
     (let (pre, newest, post, u) =
            newer_scan X (pfx (c_pkt c)) ts (contents (ccnl_relay s)) removed_nothing
      in case newest of
          None \<Rightarrow>
            (let s = set_contents (pre @ post) s;
                 (c, s) =
                   (if DOW_PRIO_CACHE cfg \<noteq> 0 then
                      (if \<not> REMOVED_NEWEST_FLAG u \<and> unat (dow_prio_cache_cnt s) < DOW_PRIO_CACHE cfg
                       then (c\<lparr>f_static := True\<rparr>, s\<lparr>dow_prio_cache_cnt := dow_prio_cache_cnt s + 1\<rparr>)
                       else if REMOVED_PRIO_FLAG u then (c\<lparr>f_static := True\<rparr>, s)
                       else (c, s))
                    else (c, s))
             in (c\<lparr>f_user1 := True\<rparr>, s))
        | Some n \<Rightarrow>
            (let n = n\<lparr>f_user1 := True\<rparr>;
                 n = (if DOW_PRIO_CACHE cfg \<noteq> 0 \<and> REMOVED_PRIO_FLAG u then n\<lparr>f_static := True\<rparr> else n)
             in (c, set_contents (pre @ n # post) s)))"

section \<open>Cache replacement\<close>

text \<open>
  A candidate of the scan: the entry and its time stamp, where time stamp 0 means that no
  candidate has been seen.
\<close>

type_synonym candidate = "content_s option \<times> int"

definition older :: "int \<Rightarrow> content_s \<Rightarrow> candidate \<Rightarrow> candidate" where
  "older ts c old = (if snd old = 0 \<or> ts < snd old then (Some c, ts) else old)"

record cs_scan_t =
  oldest :: candidate
  oldest_same :: candidate
  oldest_unflagged :: candidate
  oldest_unregistered :: candidate
  count_user_flag2 :: u32

definition cs_scan_init :: cs_scan_t where
  "cs_scan_init = \<lparr>oldest = (None, 0), oldest_same = (None, 0), oldest_unflagged = (None, 0),
     oldest_unregistered = (None, 0), count_user_flag2 = 0\<rparr>"

text \<open>
  One round. The test for short names looks at the new content \<^verbatim>\<open>c\<close>, not at the entry
  \<^verbatim>\<open>c2\<close> it is about to read.
\<close>

definition cs_scan_step ::
  "ext \<Rightarrow> bool \<Rightarrow> string \<Rightarrow> content_s \<Rightarrow> content_s \<Rightarrow> cs_scan_t \<Rightarrow> fault + cs_scan_t" where
  "cs_scan_step X reg rp c c2 a =
     (if compcnt (pfx (c_pkt c)) < 4 then Inr a
      else
        let a = (if f_user2 c2 then a\<lparr>count_user_flag2 := count_user_flag2 a + 1\<rparr> else a) in
        and_then (nth_res (comp (pfx (c_pkt c2))) 3) (\<lambda>t3.
          let ts = strtol16 t3 in
          if f_static c2 then Inr a
          else
            let a = (if prefix_cmp X (pfx (c_pkt c)) (pfx (c_pkt c2)) CMP_MATCH \<ge> 3
                     then a\<lparr>oldest_same := older ts c2 (oldest_same a)\<rparr> else a);
                a = (if \<not> f_user1 c2
                     then a\<lparr>oldest_unflagged := older ts c2 (oldest_unflagged a)\<rparr> else a);
                a = a\<lparr>oldest := older ts c2 (oldest a)\<rparr>
            in if reg then
                 and_then (nth_res (comp (pfx (c_pkt c2))) 1) (\<lambda>t1.
                 and_then (nth_res t1 0) (\<lambda>ch.
                   if ch \<noteq> rp ! 1
                   then Inr (a\<lparr>oldest_unregistered := older ts c2 (oldest_unregistered a)\<rparr>)
                   else Inr a))
               else Inr a))"

fun cs_scan ::
  "ext \<Rightarrow> bool \<Rightarrow> string \<Rightarrow> content_s \<Rightarrow> content_s list \<Rightarrow> cs_scan_t \<Rightarrow> fault + cs_scan_t" where
  "cs_scan X reg rp c [] a = Inr a"
| "cs_scan X reg rp c (c2 # cs) a =
     and_then (cs_scan_step X reg rp c c2 a) (cs_scan X reg rp c cs)"

text \<open>The removal drops the write lock around \<^verbatim>\<open>ccnl_content_remove\<close>.\<close>

definition set_lock :: "bool \<Rightarrow> node \<Rightarrow> node" where
  "set_lock b s = s\<lparr>ccnl_relay := (ccnl_relay s)\<lparr>cache_write_lock := b\<rparr>\<rparr>"

definition cs_remove :: "ext \<Rightarrow> content_s \<Rightarrow> u32 \<Rightarrow> node \<Rightarrow> node" where
  "cs_remove X v count s =
     (let s = set_lock False s;
          s = s\<lparr>ccnl_relay := content_remove X (ccnl_relay s) v\<rparr>;
          s = set_lock True s
      in s\<lparr>flagged_cache := ucast count\<rparr>)"

definition cs_oldest_representative :: "ext \<Rightarrow> node \<Rightarrow> content_s \<Rightarrow> fault + (int \<times> node)" where
  "cs_oldest_representative X s c =
     (let s = (if \<not> first_time_full s then (ccnl_helper_reset s)\<lparr>first_time_full := True\<rparr> else s) in
      and_then (cs_scan X (dow_is_registered s) (dow_registered_prefix s) c
                  (contents (ccnl_relay s)) cs_scan_init) (\<lambda>a.
      and_then (nth_res (comp (pfx (c_pkt c))) 3) (\<lambda>t3.
        let c_ts = strtol16 t3; n = count_user_flag2 a in
        if snd (oldest_same a) > c_ts then Inr (1, s)
        else case fst (oldest_same a) of Some v \<Rightarrow> Inr (1, cs_remove X v n s) | None \<Rightarrow>
          (case fst (oldest_unflagged a) of Some v \<Rightarrow> Inr (1, cs_remove X v n s) | None \<Rightarrow>
            (case fst (oldest_unregistered a) of Some v \<Rightarrow> Inr (1, cs_remove X v n s) | None \<Rightarrow>
              if snd (oldest a) > c_ts then Inr (1, s)
              else case fst (oldest a) of Some v \<Rightarrow> Inr (1, cs_remove X v n s) | None \<Rightarrow> Inr (1, s))))))"

definition cache_strategy ::
  "config \<Rightarrow> ext \<Rightarrow> (node \<Rightarrow> content_s \<Rightarrow> fault + (int \<times> node)) option" where
  "cache_strategy cfg X =
     (if DOW_CACHE_REPL_STRAT cfg then Some (cs_oldest_representative X) else None)"

section \<open>Handling incoming content\<close>

text \<open>
  \<^verbatim>\<open>ccnl_content_new\<close> takes the packet over and nulls the caller's pointer, so the later
  \<^verbatim>\<open>free_packet(pkt)\<close> has nothing to free.
\<close>

definition handle_content :: "config \<Rightarrow> ext \<Rightarrow> pkt \<Rightarrow> node \<Rightarrow> fault + (bool \<times> node)" where
  "handle_content cfg X p s =
     (let (c, s) = content_new X p s in
      case c of
        None \<Rightarrow> Inr (False, s)
      | Some c \<Rightarrow>
         (let s = s\<lparr>ccnl_relay := serve_pending X (ccnl_relay s) c\<rparr> in
          and_then (nth_res (comp (pfx (c_pkt c))) 3) (\<lambda>t3.
            let (c, s) = handle_flags cfg X c (strtol16 t3) s in
            if max_cache_entries (ccnl_relay s) \<noteq> 0 then
              (let c = c\<lparr>f_user2 := True\<rparr> in
               and_then (add2cache X (cache_strategy cfg X) s c) (\<lambda>(ok, s).
                 if \<not> ok then Inr (False, emit (Content_freed (c_addr c)) s) else Inr (True, s)))
            else Inr (False, emit (Content_freed (c_addr c)) s))))"

definition check_in_range :: "u32 \<Rightarrow> u32 \<Rightarrow> u32 \<Rightarrow> u32 \<Rightarrow> bool" where
  "check_in_range start val interval mx =
     (if start > val then (mx - start) + val < interval else val - start < interval)"

section \<open>Publishing the tail of the store\<close>

fun publish_skip :: "u8 \<Rightarrow> u8 \<Rightarrow> content_s list \<Rightarrow> content_s list" where
  "publish_skip i start [] = []"
| "publish_skip i start (c # cs) = (if i < start then publish_skip (i + 1) start cs else c # cs)"

fun publish_loop :: "content_s list \<Rightarrow> node \<Rightarrow> node" where
  "publish_loop [] s = s"
| "publish_loop (c # cs) s = publish_loop cs (emit (Chunk_broadcast (c_pkt c)) s)"

definition ccnl_helper_publish_content :: "config \<Rightarrow> node \<Rightarrow> node" where
  "ccnl_helper_publish_content cfg s =
     (let psr = (if DOW_PSR cfg \<noteq> 0 then DOW_PSR cfg else DOW_PSR2 cfg);
          start_pos = of_int (int (contentcnt (ccnl_relay s)) - int psr) :: u8
      in publish_loop (publish_skip 0 start_pos (contents (ccnl_relay s))) s)"

end
