(* ===== verification/Ccnl_Callbacks.thy ===== *)
theory Ccnl_Callbacks
  imports Ccnl_Store
begin

text \<open>
  The callbacks CCN-lite runs for every incoming packet: \<^verbatim>\<open>ccnlriot_consumer\<close> for content
  and \<^verbatim>\<open>ccnlriot_producer\<close> for interests (\<^verbatim>\<open>ccnl_caching/ccnl_helper.c\<close>). The result is the
  return value (1: handled, 0: CCN-lite goes on with the packet) and the node; the producer
  may rename the packet it passes on.
\<close>

section \<open>Content\<close>

definition same_number :: "nat option \<Rightarrow> node \<Rightarrow> node" where
  "same_number a s = set_contents
     (map (\<lambda>c. if a = Some (c_addr c) then c\<lparr>c_pkt := set_num (-1) (c_pkt c)\<rparr> else c)
        (contents (ccnl_relay s))) s"

text \<open>The pending interest for the content (only with interest-interest).\<close>

fun find_pending :: "ext \<Rightarrow> int \<Rightarrow> pkt \<Rightarrow> interest_s list \<Rightarrow> bool \<times> interest_s list" where
  "find_pending X from p [] = (False, [])"
| "find_pending X from p (i # is) =
     (if prefix_cmp X (i_pfx i) (pfx p) CMP_EXACT = 0 then
        (True, (if from = i_from i then i\<lparr>i_pending := loopback_face X\<rparr> else i) # is)
      else (let (f, is') = find_pending X from p is in (f, i # is')))"

text \<open>The node is not deputy: only its own content is cached.\<close>

definition consumer_own :: "config \<Rightarrow> ext \<Rightarrow> pkt \<Rightarrow> node \<Rightarrow> fault + (int \<times> node)" where
  "consumer_own cfg X p s =
     (let my_id = hex8 (dow_my_id s) in
      and_then (nth_res (comp (pfx p)) 2) (\<lambda>c2.
        if \<not> DOW_DEBUG cfg \<and> take 8 my_id \<noteq> take 8 c2 then Inr (1, emit (Packet_freed p) s)
        else if max_cache_entries (ccnl_relay s) \<noteq> 0 then
          (let (c, s) = content_new X p s in
           case c of
             None \<Rightarrow> Inr (0, s)
           | Some c \<Rightarrow>
              (let (_, s) = unflag_cs my_id s;
                   c = c\<lparr>f_user1 := True, f_user2 := True\<rparr>
               in and_then (add2cache X (cache_strategy cfg X) s c) (\<lambda>(ok, s).
                  let s = (if ok then s else emit (Packet_freed p) (emit (Content_freed (c_addr c)) s));
                      s = (if DOW_INT_INT cfg
                           then emit (Msg_sent DOW_MSG_RECEIVED (Pfx_payload (prefix_dup X (pfx p)))) s
                           else s)
                  in Inr (1, s))))
        else Inr (1, s)))"

text \<open>Is the content of the subscribed prefix, or does the coin say to cache it?\<close>

definition wants_content :: "ext \<Rightarrow> pkt \<Rightarrow> node \<Rightarrow> fault + (bool \<times> node)" where
  "wants_content X p s =
     (if dow_is_registered s then
        and_then (nth_res (comp (pfx p)) 1) (\<lambda>c1. and_then (nth_res c1 0) (\<lambda>ch.
          if ch = dow_registered_prefix s ! 1 then Inr (True, s) else Inr (dow_do_cache X s)))
      else Inr (dow_do_cache X s))"

definition content_id :: "pkt \<Rightarrow> fault + u32" where
  "content_id p = and_then (nth_res (comp (pfx p)) 2) (\<lambda>c2. Inr (of_int (strtol16 c2)))"

definition my_range :: "config \<Rightarrow> u32 \<Rightarrow> node \<Rightarrow> bool" where
  "my_range cfg cont_id s =
     check_in_range (dow_my_id s) cont_id (of_nat (CCNLRIOT_CACHE_SIZE cfg) - 1) (ucast (dow_num_src s))"

definition to_res :: "bool \<times> node \<Rightarrow> int \<times> node" where
  "to_res r = (if fst r then 1 else 0, snd r)"

text \<open>
  The node is deputy and neither deputies nor periodic interests are configured (as in the
  repository).
\<close>

definition consumer_deputy :: "config \<Rightarrow> ext \<Rightarrow> pkt \<Rightarrow> node \<Rightarrow> fault + (int \<times> node)" where
  "consumer_deputy cfg X p s =
     (if dow_manual_id s then
        and_then (content_id p) (\<lambda>cont_id.
          if my_range cfg cont_id s then and_then (handle_content cfg X p s) (\<lambda>r. Inr (to_res r))
          else Inr (1, emit (Packet_freed p) s))
      else and_then (wants_content X p s) (\<lambda>(w, s).
        if w then and_then (handle_content cfg X p s) (\<lambda>r. Inr (to_res r)) else Inr (0, s)))"

text \<open>
  With deputies or periodic interests. The pointer \<^verbatim>\<open>cc\<close> into the packet still names the
  content when it is in the store: its number is reset there (\<open>same_number\<close>). The condition
  of the last case has one closing parenthesis too many in the source; it is read as the
  same condition in the other branch.
\<close>

definition chunk_done :: "int \<Rightarrow> nat option \<Rightarrow> bool \<times> node \<Rightarrow> int \<times> node" where
  "chunk_done num a r =
     (let s = snd r;
          s = (if num \<ge> 0 then emit (Msg_sent DOW_MSG_RECEIVED No_payload) s else s)
      in (fst (to_res r), same_number a s))"

definition consumer_deputy_per :: "config \<Rightarrow> ext \<Rightarrow> bool \<Rightarrow> pkt \<Rightarrow> node \<Rightarrow> fault + (int \<times> node)" where
  "consumer_deputy_per cfg X is_dup p s =
     (if contlen p = sizeof_dow_content then
        let num = cnum (content p); a = x_alloc X (e_alloc (env s))
        in and_then (if num \<ge> 0 then remove_pit X num s else Inr s) (\<lambda>s.
          if DOW_INT_INT cfg then
            (if is_dup then Inr (chunk_done num a (True, s))
             else and_then (handle_content cfg X p s) (\<lambda>r. Inr (chunk_done num a r)))
          else if dow_manual_id s then
            and_then (content_id p) (\<lambda>cont_id.
              if my_range cfg cont_id s then and_then (handle_content cfg X p s) (\<lambda>r. Inr (chunk_done num a r))
              else Inr (chunk_done num a (True, s)))
          else and_then (wants_content X p s) (\<lambda>(w, s).
            if w then and_then (handle_content cfg X p s) (\<lambda>r. Inr (chunk_done num a r)) else Inr (0, s)))
      else Inr (0, s))"

definition ccnlriot_consumer :: "config \<Rightarrow> ext \<Rightarrow> int \<Rightarrow> pkt \<Rightarrow> node \<Rightarrow> fault + (int \<times> node)" where
  "ccnlriot_consumer cfg X from p s =
     (if dow_state s = DOW_STATE_STOPPED then Inr (1, emit (Packet_freed p) s)
      else if DOW_DEPUTY cfg \<and> dow_state s = DOW_STATE_HANDOVER then Inr (1, emit (Packet_freed p) s)
      else if prefix_cmp X (all_pfx s) (pfx p) CMP_MATCH \<ge> 1 \<and>
              take (length CCNLRIOT_CONT_ACK) (cvalue (content p)) = CCNLRIOT_CONT_ACK then
        and_then (if cnum (content p) \<ge> 0 then remove_pit X (cnum (content p)) s else Inr s) (\<lambda>s.
          Inr (1, emit (Packet_freed p) (emit (Msg_sent DOW_MSG_RECEIVED_ACK No_payload) s)))
      else
        let is_dup = (DOW_INT_INT cfg \<and> cont_is_dup X p s);
            (found, pit') = (if DOW_INT_INT cfg \<and> \<not> is_dup
                             then find_pending X from p (pit (ccnl_relay s))
                             else (False, pit (ccnl_relay s)));
            s = s\<lparr>ccnl_relay := (ccnl_relay s)\<lparr>pit := pit'\<rparr>\<rparr>
        in if found then Inr (0, s)
        else
          let s = (if DOW_DEBUG cfg then s\<lparr>dow_state := DOW_STATE_DEPUTY\<rparr> else s) in
          if dow_state s \<noteq> DOW_STATE_DEPUTY then consumer_own cfg X p s
          else if DOW_DEPUTY cfg \<or> DOW_PER cfg > 0 then consumer_deputy_per cfg X is_dup p s
          else consumer_deputy cfg X p s)"

section \<open>Interests\<close>

text \<open>
  The walk to the requested chunk: \<open>i\<close> counts the entries of the node's prefix passed so
  far, and the last of them is the fallback.
\<close>

fun chunk_walk :: "ext \<Rightarrow> bool \<Rightarrow> prefix \<Rightarrow> int \<Rightarrow> int \<Rightarrow> int \<Rightarrow> content_s option \<Rightarrow> content_s list
    \<Rightarrow> int \<times> content_s list \<times> content_s option" where
  "chunk_walk X reg mp limit pos i fs [] = (i, [], fs)"
| "chunk_walk X reg mp limit pos i fs (c # cs) =
     (if i < pos \<and> i < limit then
        (if \<not> reg \<or> prefix_cmp X mp (pfx (c_pkt c)) CMP_MATCH \<ge> 2
         then chunk_walk X reg mp limit pos (i + 1) (Some c) cs
         else chunk_walk X reg mp limit pos i fs cs)
      else (i, c # cs, fs))"

definition number_entry :: "content_s \<Rightarrow> int \<Rightarrow> node \<Rightarrow> node" where
  "number_entry e n s = set_contents
     (map (\<lambda>c. if c_addr c = c_addr e then c\<lparr>c_pkt := set_num n (c_pkt c)\<rparr> else c)
        (contents (ccnl_relay s))) s"

text \<open>An interest for any content or for the node's prefix that the node may answer.\<close>

definition producer_serve ::
  "config \<Rightarrow> ext \<Rightarrow> int \<Rightarrow> pkt \<Rightarrow> node \<Rightarrow> fault + (int \<times> pkt \<times> node)" where
  "producer_serve cfg X from p s =
     (let s = s\<lparr>dow_my_prefix_interest_count := dow_my_prefix_interest_count s + 1\<rparr> in
      if chunknum (pfx p) = None \<or> chunknum (pfx p) = Some (-1) then Inr (1, p, emit (Packet_freed p) s)
      else
        let s = (if DOW_DEPUTY cfg then s\<lparr>dow_state := DOW_STATE_HANDOVER\<rparr> else s) in
        and_then (if DOW_RAND_SEEDING cfg then dow_random_chunk X s
                  else Inr (the (chunknum (pfx p)), s)) (\<lambda>(pos, s).
          let limit = int (CCNLRIOT_CACHE_SIZE cfg);
              (i, cit, failsafe) = chunk_walk X (dow_is_registered s) (my_pfx s) limit pos 0 None
                (contents (ccnl_relay s));
              cit = (if i \<ge> limit \<or> cit = [] then (if DOW_DEPUTY cfg then None else failsafe)
                     else Some (hd cit))
          in case cit of
               None \<Rightarrow>
                 if \<not> DOW_DEPUTY cfg then Inr (1, p, emit (Packet_freed p) s)
                 else and_then (send_ack cfg X from (all_pfx s) i s) (\<lambda>s.
                   Inr (1, p, emit (Packet_freed p) (emit (Msg_sent DOW_MSG_INACTIVE No_payload) s)))
             | Some e \<Rightarrow>
                 if i \<ge> limit then
                   and_then (send_ack cfg X from (all_pfx s) i s) (\<lambda>s.
                     Inr (1, p, emit (Packet_freed p) (emit (Msg_sent DOW_MSG_INACTIVE No_payload) s)))
                 else
                   Inr (0, p\<lparr>pfx := prefix_dup X (pfx (c_pkt e))\<rparr>,
                     emit (Prefix_freed (pfx p)) (number_entry e i s))))"

text \<open>
  The interest comes back for content the node has (only with interest-interest).
\<close>

definition producer_bounced :: "ext \<Rightarrow> pkt \<Rightarrow> node \<Rightarrow> node option" where
  "producer_bounced X p s =
     (case find (\<lambda>i. prefix_cmp X (i_pfx i) (pfx p) CMP_EXACT = 0) (pit (ccnl_relay s)) of
        None \<Rightarrow> None
      | Some i \<Rightarrow>
         (case find (\<lambda>c. prefix_cmp X (pfx (c_pkt c)) (pfx p) CMP_EXACT = 0) (contents (ccnl_relay s)) of
            None \<Rightarrow> None
          | Some c \<Rightarrow>
             (let s = emit (Msg_sent DOW_MSG_RECEIVED_INT No_payload) s;
                  s = s\<lparr>ccnl_relay := interest_remove X (ccnl_relay s) i,
                        dow_prevent_sleep := dow_prevent_sleep s - 1\<rparr>
              in Some (if dow_state s \<noteq> DOW_STATE_HANDOVER
                       then emit (Timer_set Helper_sleep_timer DOW_KEEP_ALIVE_PERIOD DOW_MSG_BACKTOSLEEP) s
                       else s))))"

definition ccnlriot_producer ::
  "config \<Rightarrow> ext \<Rightarrow> int \<Rightarrow> pkt \<Rightarrow> node \<Rightarrow> fault + (int \<times> pkt \<times> node)" where
  "ccnlriot_producer cfg X from p s =
     (if dow_state s = DOW_STATE_STOPPED then Inr (1, p, emit (Packet_freed p) s)
      else
      let bounced = (if DOW_INT_INT cfg then producer_bounced X p s else None) in
      case bounced of Some s \<Rightarrow> Inr (0, p, s) | None \<Rightarrow>
      if dow_state s = DOW_STATE_INACTIVE then Inr (1, p, emit (Packet_freed p) s)
      else and_then
        (if DOW_APMDMR cfg \<and> prefix_cmp X (all_pfx s) (pfx p) CMP_MATCH < 1 \<and> compcnt (pfx p) > 1
         then and_then (nth_res (comp (pfx p) ! 1) 0) (\<lambda>ch. Inr (prefix_seen_interest ch s))
         else Inr s) (\<lambda>s.
        if (prefix_cmp X (all_pfx s) (pfx p) CMP_MATCH \<ge> 1 \<or>
            (dow_is_registered s \<and> prefix_cmp X (my_pfx s) (pfx p) CMP_MATCH \<ge> 2)) \<and>
           (DOW_PSR cfg \<noteq> 0 \<longrightarrow> unat (flagged_cache s) + 1 \<ge> CCNLRIOT_CACHE_SIZE cfg) then
          (if dow_state s = DOW_STATE_DEPUTY \<or> dow_state s = DOW_STATE_HANDOVER
           then producer_serve cfg X from p s
           else Inr (1, p, emit (Packet_freed p) s))
        else if \<not> DOW_INT_INT cfg then Inr (1, p, emit (Packet_freed p) s)
        else if dow_state s = DOW_STATE_HANDOVER then Inr (1, p, emit (Packet_freed p) s)
        else Inr (0, p, s)))"

end
