(* ===== verification/Ccnl_Helper_Int.thy ===== *)
theory Ccnl_Helper_Int
  imports Ccnl_Store
begin

text \<open>
  Sending an interest and waiting for the answer: \<^verbatim>\<open>_wait_for_chunk\<close> and
  \<^verbatim>\<open>ccnl_helper_int\<close> of \<^verbatim>\<open>ccnl_caching/ccnl_helper.c\<close>.
\<close>

section \<open>Waiting\<close>

text \<open>
  The remaining time is a signed 32-bit number from which an unsigned one is subtracted;
  \<open>sint\<close> reads it. The loop runs at most \<open>fuel\<close> rounds in the model. The result is the
  return value, the buffer and the node. \<^verbatim>\<open>sizeof(CCNLRIOT_CONT_ACK)\<close> is 4.
\<close>

definition ack_bytes :: string where "ack_bytes = CCNLRIOT_CONT_ACK @ [CHR 0x00]"

definition copy_into :: "string \<Rightarrow> string \<Rightarrow> string" where
  "copy_into data buf = data @ drop (length data) buf"

fun wait_loop ::
  "ext \<Rightarrow> nat \<Rightarrow> nat \<Rightarrow> bool \<Rightarrow> u32 \<Rightarrow> u32 \<Rightarrow> string \<Rightarrow> node \<Rightarrow> fault + (int \<times> string \<times> node)" where
  "wait_loop X 0 buf_len wait_for_int now remaining buf s = Inl OutOfFuel"
| "wait_loop X (Suc fuel) buf_len wait_for_int now remaining buf s =
     (let (t, s) = xtimer_now X s;
          remaining = remaining - (t - now)
      in if sint remaining < 0 then Inr (- etimedout X, buf, s)
      else
        let s = emit (Timer_set Wait_timer remaining CCNL_MSG_TIMEOUT) (emit (Timer_remove Wait_timer) s);
            (m, s) = msg_receive X s
        in case m_type m of
             DOW_MSG_RECEIVED \<Rightarrow>
               if wait_for_int then wait_loop X fuel buf_len wait_for_int now remaining buf s
               else Inr (int CCNLRIOT_RECEIVED_CHUNK, buf, emit (Timer_remove Wait_timer) s)
           | DOW_MSG_RECEIVED_ACK \<Rightarrow>
               if wait_for_int then wait_loop X fuel buf_len wait_for_int now remaining buf s
               else Inr (int (length ack_bytes), copy_into ack_bytes buf, emit (Timer_remove Wait_timer) s)
           | DOW_MSG_RECEIVED_INT \<Rightarrow>
               if wait_for_int
               then Inr (int CCNLRIOT_RECEIVED_CHUNK, buf, emit (Timer_remove Wait_timer) s)
               else wait_loop X fuel buf_len wait_for_int now remaining buf s
           | GNRC_NETAPI_MSG_TYPE_RCV \<Rightarrow>
               (case m_content m of
                  Snip is_chunk data \<Rightarrow>
                    if is_chunk then
                      (let len = (if length data > buf_len then buf_len else length data)
                       in Inr (int len, copy_into (take len data) buf, emit (Timer_remove Wait_timer) s))
                    else wait_loop X fuel buf_len wait_for_int now remaining buf s
                | _ \<Rightarrow> Inl NullPointer)
           | CCNL_MSG_TIMEOUT \<Rightarrow> Inr (- etimedout X, buf, s)
           | DOW_MSG_NEWDATA \<Rightarrow>
               wait_loop X fuel buf_len wait_for_int now remaining buf
                 (emit (Timer_set Dow_data_timer SEC_IN_USEC DOW_MSG_NEWDATA) s)
           | DOW_MSG_SECOND \<Rightarrow>
               (let s = emit (Timer_remove Dow_timer) s;
                    s = (if dow_period_counter s = 1 then s
                         else s\<lparr>dow_period_counter := dow_period_counter s - 1\<rparr>)
                in wait_loop X fuel buf_len wait_for_int now remaining buf
                     (emit (Timer_set Dow_timer SEC_IN_USEC DOW_MSG_SECOND) s))
           | _ \<Rightarrow> wait_loop X fuel buf_len wait_for_int now remaining buf s)"

definition wait_for_chunk ::
  "ext \<Rightarrow> string \<Rightarrow> nat \<Rightarrow> bool \<Rightarrow> node \<Rightarrow> fault + (int \<times> string \<times> node)" where
  "wait_for_chunk X buf buf_len wait_for_int s =
     (let remaining = of_int ((if max_interest_retransmit X \<noteq> 0 then max_interest_retransmit X else 1)
                        * CCNLRIOT_INT_TIMEOUT);
          (now, s) = xtimer_now X s
      in wait_loop X (wait_fuel X) buf_len wait_for_int now remaining buf s)"

section \<open>Sending\<close>

text \<open>
  The prefix is passed by reference, and its chunk number is written: the prefix for all
  content, the subscribed prefix, or one the caller owns.
\<close>

datatype pfx_ref = All_pfx | My_pfx | Own_pfx prefix

fun get_pfx :: "pfx_ref \<Rightarrow> node \<Rightarrow> prefix" where
  "get_pfx All_pfx s = all_pfx s"
| "get_pfx My_pfx s = my_pfx s"
| "get_pfx (Own_pfx p) s = p"

fun set_chunknum :: "pfx_ref \<Rightarrow> int \<Rightarrow> node \<Rightarrow> pfx_ref \<times> node" where
  "set_chunknum All_pfx n s = (All_pfx, s\<lparr>all_pfx := (all_pfx s)\<lparr>chunknum := Some n\<rparr>\<rparr>)"
| "set_chunknum My_pfx n s = (My_pfx, s\<lparr>my_pfx := (my_pfx s)\<lparr>chunknum := Some n\<rparr>\<rparr>)"
| "set_chunknum (Own_pfx p) n s = (Own_pfx (p\<lparr>chunknum := Some n\<rparr>), s)"

definition write_chunknum :: "pfx_ref \<Rightarrow> nat option \<Rightarrow> node \<Rightarrow> fault + (pfx_ref \<times> node)" where
  "write_chunknum r cn s = (case cn of
     None \<Rightarrow> Inr (r, s)
   | Some n \<Rightarrow> and_then (deref (chunknum (get_pfx r s))) (\<lambda>_. Inr (set_chunknum r (int n) s)))"

text \<open>The \<^verbatim>\<open>for\<close> loop with \<open>n\<close> rounds left; its result says whether an answer came.\<close>

fun int_loop :: "ext \<Rightarrow> nat \<Rightarrow> pfx_ref \<Rightarrow> nat option \<Rightarrow> bool \<Rightarrow> string \<Rightarrow> node
    \<Rightarrow> fault + (nat \<times> string \<times> node)" where
  "int_loop X 0 r cn wait_for_int buf s = Inr (CCNLRIOT_TIMEOUT, buf, s)"
| "int_loop X (Suc n) r cn wait_for_int buf s =
     (let s = emit Netreg_registered s in
      and_then (write_chunknum r cn s) (\<lambda>(r, s).
        let s = emit (Interest_sent (get_pfx r s)) s in
        and_then (wait_for_chunk X buf CCNLRIOT_BUF_SIZE wait_for_int s) (\<lambda>(res, buf, s).
          let s = emit Netreg_unregistered s in
          if res > 0 then Inr (CCNLRIOT_RECEIVED_CHUNK, buf, s)
          else int_loop X n r cn wait_for_int buf s)))"

definition ccnl_helper_int ::
  "ext \<Rightarrow> pfx_ref \<Rightarrow> nat option \<Rightarrow> bool \<Rightarrow> node \<Rightarrow> fault + (nat \<times> node)" where
  "ccnl_helper_int X r cn wait_for_int s =
     and_then (int_loop X CCNLRIOT_INT_RETRIES r cn wait_for_int
                 (replicate CCNLRIOT_BUF_SIZE (CHR 0x00)) s) (\<lambda>(success, buf, s).
       if success = CCNLRIOT_RECEIVED_CHUNK \<and>
          take (length CCNLRIOT_CONT_ACK) buf = CCNLRIOT_CONT_ACK
       then Inr (CCNLRIOT_LAST_CN, s) else Inr (success, s))"

end
