(* ===== verification/Dow_Radio.thy ===== *)
theory Dow_Radio
  imports Ccnl_Helper_Int
begin

text \<open>
  Sleeping and waking up in \<^verbatim>\<open>ccnl_caching/dow.c\<close>: the radio, the accounting of active and
  sleeping time, the second timer, the take-over of a deputy's store and the interests sent
  after waking up.
\<close>

definition dow_second_timer :: "node \<Rightarrow> node" where
  "dow_second_timer s = emit (Timer_set Dow_timer SEC_IN_USEC DOW_MSG_SECOND) s"

definition retry_sleep :: "node \<Rightarrow> node" where
  "retry_sleep s =
     emit (Timer_set Sleep_timer DOW_KEEP_ALIVE_PERIOD DOW_MSG_BACKTOSLEEP) (emit (Timer_remove Sleep_timer) s)"

text \<open>From the accounting on: the part of \<^verbatim>\<open>_radio_sleep\<close> every configuration has.\<close>

definition radio_sleep_now :: "ext \<Rightarrow> node \<Rightarrow> node" where
  "radio_sleep_now X s =
     (let s = (if \<not> dow_sleeping s then
                 (let (t, s) = xtimer_now X s
                  in s\<lparr>dow_ts_sleep := t,
                       dow_time_active := dow_time_active s + (t - dow_ts_wakeup s),
                       dow_sleeping := True\<rparr>)
               else s);
          (st, s) = radio_get X s
      in case st of
           Some NETOPT_STATE_IDLE \<Rightarrow> radio_set X NETOPT_STATE_SLEEP s
         | Some NETOPT_STATE_SLEEP \<Rightarrow> s
         | Some (NETOPT_STATE_OTHER _) \<Rightarrow> retry_sleep s
         | None \<Rightarrow> s)"

definition radio_sleep :: "config \<Rightarrow> ext \<Rightarrow> node \<Rightarrow> node" where
  "radio_sleep cfg X s =
     (if DOW_INT_INT cfg \<and> dow_prevent_sleep s > 0 then
        (if pit (ccnl_relay s) = [] then radio_sleep_now X (s\<lparr>dow_prevent_sleep := 0\<rparr>)
         else retry_sleep s)
      else radio_sleep_now X s)"

definition dow_sleep :: "config \<Rightarrow> ext \<Rightarrow> u8 \<Rightarrow> node \<Rightarrow> node" where
  "dow_sleep cfg X periods s =
     (let s = emit Clear_pit_but_own s;
          s = s\<lparr>dow_state := DOW_STATE_INACTIVE\<rparr>;
          s = radio_sleep cfg X s;
          s = (if DOW_DEPUTY cfg then
                 (let n = ucast periods * of_nat (DOW_Y cfg)
                  in s\<lparr>dow_period_counter := n, sleep_period := n\<rparr>)
               else s\<lparr>dow_period_counter := ucast periods\<rparr>);
          s = emit (Timer_remove Dow_timer) s
      in dow_second_timer s)"

text \<open>
  \<^verbatim>\<open>_send_interests\<close>, with \<open>n\<close> rounds left of the \<^verbatim>\<open>DOW_PER\<close> the configuration gives.
\<close>

fun interests_loop :: "ext \<Rightarrow> pfx_ref \<Rightarrow> nat \<Rightarrow> nat \<Rightarrow> node \<Rightarrow> fault + node" where
  "interests_loop X r 0 cn s = Inr s"
| "interests_loop X r (Suc n) cn s =
     and_then (ccnl_helper_int X r (Some cn) False s) (\<lambda>(res, s).
       if res \<noteq> CCNLRIOT_LAST_CN then interests_loop X r n (cn + 1) s else Inr s)"

definition send_interests :: "config \<Rightarrow> ext \<Rightarrow> node \<Rightarrow> fault + node" where
  "send_interests cfg X s =
     interests_loop X (if dow_is_registered s then My_pfx else All_pfx) (DOW_PER cfg) 0 s"

definition dow_wakeup :: "config \<Rightarrow> ext \<Rightarrow> node \<Rightarrow> fault + node" where
  "dow_wakeup cfg X s =
     (let s = (if dow_sleeping s then
                 (let (t, s) = xtimer_now X s
                  in s\<lparr>dow_ts_wakeup := t,
                       dow_time_sleeping := dow_time_sleeping s + (t - dow_ts_sleep s),
                       dow_sleeping := False\<rparr>)
               else s);
          (st, s) = radio_get X s
      in case st of
           None \<Rightarrow> Inr s
         | Some st \<Rightarrow>
             (let s = (if st = NETOPT_STATE_SLEEP then radio_set X NETOPT_STATE_IDLE s else s)
              in if \<not> DOW_DEPUTY cfg \<and> DOW_PER cfg > 0 then send_interests cfg X s else Inr s))"

text \<open>
  \<^verbatim>\<open>dow_takeover\<close> asks for one chunk after the other, until the acknowledgement comes or
  \<open>n\<close> rounds are over: the loop of the source allows \<^verbatim>\<open>CCNLRIOT_CACHE_SIZE\<close> + 2 requests.
\<close>

fun takeover_loop :: "ext \<Rightarrow> nat \<Rightarrow> nat \<Rightarrow> node \<Rightarrow> fault + node" where
  "takeover_loop X 0 cn s = Inr s"
| "takeover_loop X (Suc n) cn s =
     and_then (ccnl_helper_int X All_pfx (Some cn) False s) (\<lambda>(res, s).
       if res \<noteq> CCNLRIOT_LAST_CN then takeover_loop X n (cn + 1) s else Inr s)"

definition dow_takeover :: "config \<Rightarrow> ext \<Rightarrow> node \<Rightarrow> fault + node" where
  "dow_takeover cfg X s =
     (let (t, s) = xtimer_now X s;
          s = s\<lparr>last_deputy_ts := t\<rparr>;
          s = (if DOW_INT_INT cfg then ccnl_helper_clear_pit_for_own s else s);
          s = s\<lparr>dow_state := DOW_STATE_DEPUTY\<rparr>
      in and_then (dow_wakeup cfg X s) (\<lambda>s.
         takeover_loop X (CCNLRIOT_CACHE_SIZE cfg + 2) 0 s))"

end
