(* ===== verification/Beaconing.thy ===== *)
theory Beaconing
  imports Dow_Types
begin

text \<open>
  The start-up beaconing of \<^verbatim>\<open>ccnl_caching/beaconing.c\<close>, which counts the neighbours and
  gives the node its position among their identifiers.
\<close>

section \<open>Received beacons\<close>

text \<open>\<^verbatim>\<open>beacon_t\<close>: a 16-bit key and a 32-bit identifier, little endian, six bytes.\<close>

definition BEACONING_MK :: u16 where "BEACONING_MK = 0x1701"

record beacon_t =
  magic_key :: u16
  b_id :: u32

definition byte :: "char \<Rightarrow> nat" where "byte c = of_char c"

fun parse_beacon :: "string \<Rightarrow> beacon_t option" where
  "parse_beacon [k0, k1, i0, i1, i2, i3] =
     Some \<lparr>magic_key = of_nat (byte k0 + 256 * byte k1),
           b_id = of_nat (byte i0 + 256 * (byte i1 + 256 * (byte i2 + 256 * byte i3)))\<rparr>"
| "parse_beacon _ = None"

definition beacon_bytes :: "beacon_t \<Rightarrow> string" where
  "beacon_bytes b = map char_of
     [unat (magic_key b), unat (magic_key b) div 256,
      unat (b_id b), unat (b_id b) div 256, unat (b_id b) div 65536, unat (b_id b) div 16777216]"

text \<open>The packet is its bytes; it is released in every case.\<close>

definition handle_beacon :: "ext \<Rightarrow> string \<Rightarrow> node \<Rightarrow> node" where
  "handle_beacon X data s =
     (case parse_beacon data of
        None \<Rightarrow> s
      | Some b \<Rightarrow>
         if magic_key b \<noteq> BEACONING_MK then s
         else if bloom_check X (dow_neighbors s) (b_id b) then s
         else
           (let s = s\<lparr>dow_neighbors := dow_neighbors s @ [b_id b], dow_size := dow_size s + 1\<rparr>
            in if b_id b < dow_my_id s then s\<lparr>dow_position := dow_position s + 1\<rparr> else s))"

section \<open>The beaconing phase\<close>

text \<open>
  Two blocks of the packet buffer are needed, for the beacon and for the header; without
  them nothing is sent. \<open>Beacon_sent\<close> is the call of \<^verbatim>\<open>gnrc_netapi_send\<close>.
\<close>

definition pktbuf_alloc :: "ext \<Rightarrow> node \<Rightarrow> bool \<times> node" where
  "pktbuf_alloc X s =
     (x_alloc X (e_alloc (env s)) \<noteq> None, s\<lparr>env := (env s)\<lparr>e_alloc := e_alloc (env s) + 1\<rparr>\<rparr>)"

definition beaconing_send :: "ext \<Rightarrow> node \<Rightarrow> node" where
  "beaconing_send X s =
     (let (ok, s) = pktbuf_alloc X s in
      if \<not> ok then s
      else let (ok, s) = pktbuf_alloc X s in
        if \<not> ok then s else emit (Beacon_sent (dow_my_id s)) s)"

text \<open>
  The loop: \<open>remaining\<close> beacons to send; after the last one the timer's message becomes the
  end message. It ends with that message; \<open>fuel\<close> bounds the messages it may take.
\<close>

fun beaconing_loop :: "ext \<Rightarrow> nat \<Rightarrow> u32 \<Rightarrow> u8 \<Rightarrow> mtype \<Rightarrow> node \<Rightarrow> fault + node" where
  "beaconing_loop X 0 start remaining bmsg s = Inl OutOfFuel"
| "beaconing_loop X (Suc fuel) start remaining bmsg s =
     (let (m, s) = msg_receive X s in
      case m_type m of
        DOW_MSG_BEACON \<Rightarrow>
          (let s = beaconing_send X s;
               (tmp, s) = dow_beaconing_period X s;
               remaining = remaining - 1
           in if remaining > 0 then
                beaconing_loop X fuel start remaining bmsg (emit (Timer_set Beacon_timer tmp bmsg) s)
              else
                (let (t, s) = xtimer_now X s;
                     tmp = 2 * DOW_BEACONING_WAIT - (t - start)
                 in beaconing_loop X fuel start remaining DOW_MSG_BEACON_END
                      (emit (Timer_set Beacon_timer tmp DOW_MSG_BEACON_END) s)))
      | DOW_MSG_BEACON_END \<Rightarrow> Inr s
      | GNRC_NETAPI_MSG_TYPE_RCV \<Rightarrow>
          (case m_content m of
             Snip _ data \<Rightarrow> beaconing_loop X fuel start remaining bmsg (handle_beacon X data s)
           | _ \<Rightarrow> Inl NullPointer)
      | _ \<Rightarrow> beaconing_loop X fuel start remaining bmsg s)"

definition beaconing_start :: "ext \<Rightarrow> node \<Rightarrow> fault + node" where
  "beaconing_start X s =
     (let s = emit Netreg_registered s;
          (p, s) = dow_beaconing_period X s;
          s = emit (Timer_set Beacon_timer (p + DOW_BEACONING_WAIT) DOW_MSG_BEACON) s;
          (start, s) = xtimer_now X s
      in and_then (beaconing_loop X (wait_fuel X) start (of_nat DOW_BEACONING_COUNT) DOW_MSG_BEACON s)
           (\<lambda>s. Inr (emit Netreg_unregistered s)))"

end
