(* ===== verification/Dow_Loop.thy ===== *)
theory Dow_Loop
  imports Ccnl_Callbacks Dow_Radio Beaconing
begin

text \<open>
  The caching manager of \<^verbatim>\<open>ccnl_caching/dow.c\<close>: generating data, announcing the node, the
  start of the thread and one round of its event loop.
\<close>

section \<open>Announcing and generating data\<close>

text \<open>\<^verbatim>\<open>"%08" PRIx32\<close>: the same digits in lower case.\<close>

definition lower :: "char \<Rightarrow> char" where
  "lower c = (let n = of_char c :: nat in if 65 \<le> n \<and> n \<le> 90 then char_of (n + 32) else c)"

definition hex8_lower :: "u32 \<Rightarrow> string" where
  "hex8_lower v = map lower (hex8 v)"

text \<open>The chunk is broadcast but not looped back; its pointer is dropped.\<close>

definition dow_beacon_id :: "config \<Rightarrow> ext \<Rightarrow> node \<Rightarrow> fault + node" where
  "dow_beacon_id cfg X s =
     (let val = hex8_lower (x_cpuid X);
          p = CCNLRIOT_BEACON_PREFIX @ CCNLRIOT_BEACON_PREFIX @ ''/'' @ hex8 (x_cpuid X) @ ''/'' @ val
      in case uri_to_prefix X p None of
           None \<Rightarrow> Inr s
         | Some pre \<Rightarrow>
             and_then (ccnl_helper_create_cont cfg X pre (val @ [CHR 0x00]) False True s)
               (\<lambda>(_, s). Inr (emit (Prefix_freed pre) s)))"

text \<open>
  The value to publish: the clock, or with \<^verbatim>\<open>DOW_REBC_LAST\<close> every second time the value
  published before. The flag says whether the value is a repeated one.
\<close>

definition next_value :: "config \<Rightarrow> ext \<Rightarrow> node \<Rightarrow> u32 \<times> bool \<times> node" where
  "next_value cfg X s =
     (let (data, s) = xtimer_now X s in
      if DOW_REBC_LAST cfg then
        (if old_data s \<noteq> 0 \<and> send_old_data s then (old_data s, True, s\<lparr>send_old_data := False\<rparr>)
         else (data, False, s\<lparr>old_data := data, send_old_data := True\<rparr>))
      else (data, False, s))"

text \<open>The name: type and sensor (a random one of several), or type and subscribed prefix, or site and type.\<close>

definition data_name :: "ext \<Rightarrow> string \<Rightarrow> node \<Rightarrow> fault + (string \<times> node)" where
  "data_name X val s =
     (let tail = ''/'' @ hex8 (dow_my_id s) @ ''/'' @ val in
      if dow_sensor_nr s > 0 then
        (let (r, s) = random_uint32 X s
         in and_then (nth_res (dow_sensors s) (unat r mod unat (dow_sensor_nr s))) (\<lambda>sens.
              Inr (CCNLRIOT_TYPE_PREFIX @ cstr sens @ tail, s)))
      else if dow_is_registered s then
        Inr (CCNLRIOT_TYPE_PREFIX @ cstr (dow_registered_prefix s) @ tail, s)
      else Inr (CCNLRIOT_SITE_PREFIX @ CCNLRIOT_TYPE_PREFIX @ tail, s))"

text \<open>
  \<^verbatim>\<open>dow_new_data\<close>. The period is halved in every configuration, because \<^verbatim>\<open>DOW_REBC_LAST\<close>
  is always defined.
\<close>

definition dow_new_data :: "config \<Rightarrow> ext \<Rightarrow> node \<Rightarrow> fault + node" where
  "dow_new_data cfg X s =
     (if dow_state s = DOW_STATE_HANDOVER then
        Inr (emit (Timer_set Dow_data_timer SEC_IN_USEC DOW_MSG_NEWDATA) s)
      else
        let (data, sent_old, s) = next_value cfg X s;
            val = hex8 data
        in and_then (data_name X val s) (\<lambda>(p, s).
          let s = (if \<not> sent_old then emit (New_data_printed p) s else s);
              (offset, s) = dow_event_period_jitter X s;
              s = emit (Timer_set Dow_data_timer (offset div 2) DOW_MSG_NEWDATA) s
          in case uri_to_prefix X p None of
               None \<Rightarrow> Inr s
             | Some pre \<Rightarrow>
                 and_then
                   (if DOW_INT_INT cfg then
                      ccnl_helper_create_cont cfg X pre (val @ [CHR 0x00]) True False s
                    else
                      let s = (if DOW_PSR2 cfg \<noteq> 0 then ccnl_helper_publish_content cfg s else s);
                          s = emit (Slept (500 * 1000)) s
                      in ccnl_helper_create_cont cfg X pre (val @ [CHR 0x00]) True True s)
                   (\<lambda>(_, s). Inr (emit (Prefix_freed pre) s))))"

definition populate_data :: "config \<Rightarrow> ext \<Rightarrow> prefix \<Rightarrow> node \<Rightarrow> fault + node" where
  "populate_data cfg X p s =
     and_then (dow_wakeup cfg X s) (\<lambda>s.
     and_then (ccnl_helper_int X (Own_pfx p) None True s) (\<lambda>(_, s). Inr s))"

section \<open>The second message\<close>

text \<open>With \<^verbatim>\<open>DOW_APMDMR\<close>: after the first phase, change to an under-represented prefix.\<close>

fun first_under_represented :: "(char \<times> u32) list \<Rightarrow> node \<Rightarrow> char option" where
  "first_under_represented [] s = None"
| "first_under_represented ((q, n) # r) s =
     (if ccnl_helper_prefix_under_represented q s then Some q else first_under_represented r s)"

definition reconsider_prefix :: "config \<Rightarrow> ext \<Rightarrow> node \<Rightarrow> fault + node" where
  "reconsider_prefix cfg X s =
     (if dow_state s = DOW_STATE_INACTIVE then Inr s
      else
        let s = s\<lparr>dow_phase_counter := dow_phase_counter s - 1\<rparr> in
        if dow_phase_counter s \<noteq> 0 then Inr s
        else and_then
          (if ccnl_helper_prefix_under_represented (reg_char s) s then Inr s
           else case first_under_represented (dow_pfx_pres s) s of
                  None \<Rightarrow> Inr s
                | Some q \<Rightarrow> ccnl_helper_subsribe X q (emit (Prefix_freed (my_pfx s)) s))
          (send_interests cfg X))"

text \<open>The period is over and the node is inactive: it may stay asleep.\<close>

definition period_over_inactive :: "config \<Rightarrow> ext \<Rightarrow> node \<Rightarrow> fault + node" where
  "period_over_inactive cfg X s =
     (let (sleep, s) = dow_go_sleep X s in
      and_then
        (if sleep then Inr s
         else
           let s = s\<lparr>dow_state := DOW_STATE_DEPUTY\<rparr> in
           and_then (dow_beacon_id cfg X s) (\<lambda>s. dow_wakeup cfg X (ccnl_helper_reset s))) (\<lambda>s.
        let s = s\<lparr>dow_period_counter := of_nat (DOW_XD cfg)\<rparr>;
            s = (if DOW_APMDMR cfg
                 then s\<lparr>dow_phase_counter := DOW_FIRST_PHASE,
                        dow_pfx_pres := replicate DOW_MAX_PREFIXES (CHR 0x00, 0)\<rparr>
                 else s);
            s = dow_second_timer s
        in Inr (if DOW_KEEP_ALIVE_PFX cfg then s\<lparr>dow_my_prefix_interest_count := 0\<rparr> else s)))"

text \<open>The period is over and the node is active: it may go to sleep.\<close>

definition period_over_active :: "config \<Rightarrow> ext \<Rightarrow> node \<Rightarrow> node" where
  "period_over_active cfg X s =
     (let force_awake = (DOW_KEEP_ALIVE_PFX cfg \<and>
            unat (dow_my_prefix_interest_count s) < DOW_KEEP_ALIVE_MIN_THR cfg);
          active_period_duration = (if force_awake then DOW_D cfg else DOW_XD cfg);
          s = (if DOW_KEEP_ALIVE_PFX cfg then s\<lparr>dow_my_prefix_interest_count := 0\<rparr> else s);
          (sleep, s) = (if force_awake then (False, s) else dow_go_sleep X s)
      in if sleep then dow_sleep cfg X (of_nat (DOW_XD cfg)) (s\<lparr>dow_state := DOW_STATE_INACTIVE\<rparr>)
         else dow_second_timer (s\<lparr>dow_period_counter := of_nat active_period_duration\<rparr>))"

definition on_second :: "config \<Rightarrow> ext \<Rightarrow> node \<Rightarrow> fault + node" where
  "on_second cfg X s =
     (let s = emit (Timer_remove Dow_timer) s;
          s = s\<lparr>dow_period_counter := dow_period_counter s - 1\<rparr>
      in and_then (if DOW_APMDMR cfg then reconsider_prefix cfg X s else Inr s) (\<lambda>s.
        let s = (if DOW_PSR cfg \<noteq> 0 \<and> unat (flagged_cache s) + 1 \<ge> CCNLRIOT_CACHE_SIZE cfg
                 then ccnl_helper_publish_content cfg s else s);
            s = (if DOW_DEPUTY cfg then
                   (let (t, s) = xtimer_now X s
                    in if t \<ge> last_deputy_ts s + sleep_period s * SEC_IN_USEC \<and> dow_period_counter s > 0
                       then s\<lparr>dow_period_counter := 0\<rparr> else s)
                 else s)
        in if dow_period_counter s = 0 then
             (if DOW_DEPUTY cfg then dow_takeover cfg X s
              else if dow_state s = DOW_STATE_INACTIVE then period_over_inactive cfg X s
              else Inr (period_over_active cfg X s))
           else Inr (dow_second_timer s)))"

section \<open>The other messages\<close>

definition on_newdata :: "config \<Rightarrow> ext \<Rightarrow> node \<Rightarrow> fault + node" where
  "on_newdata cfg X s =
     and_then (if dow_is_source s then dow_new_data cfg X s else Inr s) (\<lambda>s.
       Inr (if \<not> DOW_INT_INT cfg \<and> dow_state s = DOW_STATE_INACTIVE
            then radio_sleep cfg X (emit (Slept 5000) s) else s))"

definition on_received :: "config \<Rightarrow> ext \<Rightarrow> payload \<Rightarrow> node \<Rightarrow> fault + node" where
  "on_received cfg X pl s =
     (if DOW_INT_INT cfg then
        (case pl of
           Pfx_payload p \<Rightarrow>
             and_then
               (if dow_state s \<noteq> DOW_STATE_DEPUTY then
                  populate_data cfg X p (s\<lparr>dow_prevent_sleep := dow_prevent_sleep s + 1\<rparr>)
                else Inr s) (\<lambda>s. Inr (emit (Prefix_freed p) s))
         | _ \<Rightarrow> Inl NullPointer)
      else Inr s)"

text \<open>
  One round of the loop for a received message. \<^verbatim>\<open>dow_size - 1\<close> is cut to eight bits by
  the parameter of \<^verbatim>\<open>dow_sleep\<close>.
\<close>

definition loop_step :: "config \<Rightarrow> ext \<Rightarrow> node \<Rightarrow> msg \<Rightarrow> fault + node" where
  "loop_step cfg X s m =
     (if dow_state s = DOW_STATE_STOPPED then Inr s
      else case m_type m of
        DOW_MSG_SECOND \<Rightarrow> on_second cfg X s
      | DOW_MSG_TAKEOVER \<Rightarrow> if DOW_DEPUTY cfg then dow_takeover cfg X s else Inr s
      | DOW_MSG_NEWDATA \<Rightarrow> on_newdata cfg X s
      | DOW_MSG_BACKTOSLEEP \<Rightarrow>
          Inr (if dow_state s \<noteq> DOW_STATE_INACTIVE then s else radio_sleep cfg X s)
      | DOW_MSG_INACTIVE \<Rightarrow> Inr (dow_sleep cfg X (ucast (dow_size s - 1)) s)
      | DOW_MSG_RECEIVED \<Rightarrow> on_received cfg X (m_content m) s
      | _ \<Rightarrow> Inr s)"

section \<open>Start\<close>

text \<open>
  \<^verbatim>\<open>_loop\<close> up to its first message. The calls that set up CCN-lite, the channel and the
  address length have no effect in the model; opening the interface may fail.
\<close>

definition loop_start_state :: "config \<Rightarrow> ext \<Rightarrow> node \<Rightarrow> fault + node" where
  "loop_start_state cfg X s =
     (if DOW_DEPUTY cfg then
        (if dow_position s = 0 then Inr (s\<lparr>dow_state := DOW_STATE_DEPUTY\<rparr>)
         else
           (let (t, s) = xtimer_now X s
            in Inr (dow_sleep cfg X (ucast (dow_position s))
                 (s\<lparr>last_deputy_ts := t, dow_state := DOW_STATE_INACTIVE\<rparr>))))
      else
        let s = emit (Slept 0) s;
            (sleep, s) = dow_go_sleep X s
        in if sleep then
             Inr (dow_sleep cfg X (of_nat (DOW_XD cfg)) (s\<lparr>dow_state := DOW_STATE_INACTIVE\<rparr>))
           else and_then (dow_beacon_id cfg X (s\<lparr>dow_state := DOW_STATE_DEPUTY\<rparr>)) (\<lambda>s.
             Inr (dow_second_timer (s\<lparr>dow_period_counter := of_nat (DOW_XD cfg)\<rparr>))))"

definition loop_init :: "config \<Rightarrow> ext \<Rightarrow> bool \<Rightarrow> node \<Rightarrow> fault + (bool \<times> node)" where
  "loop_init cfg X netif_ok s =
     (let s = (if DOW_DEPUTY cfg then s\<lparr>dow_neighbors := []\<rparr> else s) in
      and_then (if DOW_DEPUTY cfg then beaconing_start X s else Inr s) (\<lambda>s.
        let (t, s) = xtimer_now X s;
            s = s\<lparr>dow_ts_wakeup := t\<rparr>
        in and_then (ccnl_helper_init X s) (\<lambda>s.
          let s = s\<lparr>ccnl_relay := (ccnl_relay s)\<lparr>max_cache_entries := sint (dow_cache_size s)\<rparr>\<rparr> in
          if \<not> netif_ok then Inr (False, s)
          else
            let s = emit (Random_seeded (dow_my_id s)) s in
            if DOW_DEBUG cfg then Inr (True, s)
            else
              let (offset, s) = dow_event_period_jitter X s;
                  s = emit (Timer_set Dow_data_timer offset DOW_MSG_NEWDATA) s
              in and_then (loop_start_state cfg X s) (\<lambda>s. Inr (True, s)))))"

text \<open>\<^verbatim>\<open>dow_init\<close>: the identifier, if none was given, and the thread.\<close>

definition dow_init :: "ext \<Rightarrow> node \<Rightarrow> node" where
  "dow_init X s =
     (let s = (if dow_my_id s = 0 then s\<lparr>dow_my_id := x_cpuid X\<rparr> else s);
          s = emit (Random_seeded (dow_my_id s)) s;
          s = s\<lparr>dow_state := DOW_STATE_INACTIVE\<rparr>
      in emit Thread_created s)"

end
