(* ===== verification/Dow_Shell.thy ===== *)
theory Dow_Shell
  imports Dow_Loop
begin

text \<open>
  The shell commands of \<^verbatim>\<open>ccnl_caching/main.c\<close>. Arguments are the list \<^verbatim>\<open>argv\<close>; the result
  is the command's return value and the node. Printing is left out, except for the numbers
  of \<^verbatim>\<open>stats\<close>.
\<close>

section \<open>Numbers\<close>

text \<open>\<^verbatim>\<open>strtol(s, NULL, 10)\<close> with the 32-bit \<^verbatim>\<open>long\<close>.\<close>

definition decval :: "char \<Rightarrow> nat option" where
  "decval c = (let n = of_char c :: nat in if 48 \<le> n \<and> n \<le> 57 then Some (n - 48) else None)"

fun decnum :: "nat \<Rightarrow> string \<Rightarrow> nat" where
  "decnum a [] = a"
| "decnum a (c # cs) = (case decval c of None \<Rightarrow> a | Some d \<Rightarrow> decnum (10 * a + d) cs)"

definition strtol10 :: "string \<Rightarrow> int" where
  "strtol10 s =
     (let s1 = dropWhile c_isspace s;
          neg = (s1 \<noteq> [] \<and> hd s1 = CHR ''-'');
          s2 = (if s1 \<noteq> [] \<and> (hd s1 = CHR ''-'' \<or> hd s1 = CHR ''+'') then tl s1 else s1);
          v = int (decnum 0 s2)
      in if neg then max LONG_MIN (- v) else min LONG_MAX v)"

section \<open>Commands\<close>

text \<open>
  The numbers printed as active and sleeping time. The source adds the time since
  \<^verbatim>\<open>dow_ts_wakeup\<close> while the node sleeps and the time since \<^verbatim>\<open>dow_ts_sleep\<close> while it is
  active.
\<close>

definition stats :: "ext \<Rightarrow> node \<Rightarrow> u32 \<times> u32 \<times> node" where
  "stats X s =
     (if dow_sleeping s then
        (let (t, s) = xtimer_now X s
         in (dow_time_active s, dow_time_sleeping s + (t - dow_ts_wakeup s), s))
      else
        (let (t, s) = xtimer_now X s
         in (dow_time_active s + (t - dow_ts_sleep s), dow_time_sleeping s, s)))"

definition debug_cache_date :: "config \<Rightarrow> ext \<Rightarrow> string list \<Rightarrow> node \<Rightarrow> fault + (int \<times> node)" where
  "debug_cache_date cfg X argv s =
     (if length argv < 3 \<or> length (argv ! 1) > 8 \<or> length (argv ! 2) > 8 then Inr (1, s)
      else
        let p = CCNLRIOT_SITE_PREFIX @ CCNLRIOT_TYPE_PREFIX @ ''/'' @ argv ! 1 @ ''/'' @ argv ! 2
        in case uri_to_prefix X p None of
             None \<Rightarrow> Inr (0, s)
           | Some pre \<Rightarrow>
               and_then (ccnl_helper_create_cont cfg X pre (argv ! 2 @ [CHR 0x00]) True False s)
                 (\<lambda>(_, s). Inr (0, emit (Prefix_freed pre) s)))"

definition start_dow :: "config \<Rightarrow> ext \<Rightarrow> string list \<Rightarrow> node \<Rightarrow> int \<times> node" where
  "start_dow cfg X argv s =
     (let s = (if length argv > 1 then
                 (let s = s\<lparr>dow_my_id := of_int (strtol10 (argv ! 1))\<rparr>
                  in if DOW_HARDWIRED cfg then s\<lparr>dow_manual_id := True\<rparr> else s)
               else s);
          s = (if length argv > 2 then s\<lparr>dow_num_src := of_int (strtol10 (argv ! 2))\<rparr> else s);
          s = (if length argv > 3 then s\<lparr>dow_is_source := False\<rparr> else s)
      in (0, dow_init X s))"

definition stop_dow :: "node \<Rightarrow> int \<times> node" where
  "stop_dow s = (0, s\<lparr>dow_state := DOW_STATE_STOPPED\<rparr>)"

text \<open>An argument is a C string: its first character is the terminating 0 if it is empty.\<close>

definition first_char :: "string \<Rightarrow> char" where
  "first_char a = (case a of [] \<Rightarrow> CHR 0x00 | c # _ \<Rightarrow> c)"

definition sub_prefix :: "ext \<Rightarrow> string list \<Rightarrow> node \<Rightarrow> fault + (int \<times> node)" where
  "sub_prefix X argv s =
     (if dow_is_registered s then Inr (1, s)
      else if length argv < 2 then Inr (1, s)
      else and_then (ccnl_helper_subsribe X (first_char (argv ! 1)) s) (\<lambda>s. Inr (0, s)))"

definition add_sensor :: "config \<Rightarrow> ext \<Rightarrow> string list \<Rightarrow> node \<Rightarrow> fault + (int \<times> node)" where
  "add_sensor cfg X argv s =
     (if length argv < 2 then Inr (1, s)
      else if unat (dow_sensor_nr s) \<ge> DOW_SENSOR_MAX_NR then Inr (1, s)
      else
        let c = first_char (argv ! 1);
            n = unat (dow_sensor_nr s);
            s = s\<lparr>dow_sensors := (dow_sensors s)[n := [CHR ''/'', c]]\<rparr>
        in and_then (if DOW_CACHE_REPL_STRAT cfg \<and> \<not> dow_is_registered s
                     then ccnl_helper_subsribe X c s else Inr s) (\<lambda>s.
          Inr (0, s\<lparr>dow_sensor_nr := dow_sensor_nr s + 1\<rparr>)))"

text \<open>The number \<^verbatim>\<open>strtof\<close> reads is an argument.\<close>

definition set_p :: "nat \<Rightarrow> rat \<Rightarrow> node \<Rightarrow> int \<times> node" where
  "set_p argc p s = (if argc < 2 then (1, s) else (0, s\<lparr>DOW_P := p\<rparr>))"

definition set_cs :: "string list \<Rightarrow> node \<Rightarrow> int \<times> node" where
  "set_cs argv s =
     (if length argv < 2 then (1, s)
      else (0, s\<lparr>dow_cache_size := of_int (strtol10 (argv ! 1))\<rparr>))"

text \<open>Whether \<^verbatim>\<open>c\<close> asks CCN-lite to print the store.\<close>

definition cs_printed :: "config \<Rightarrow> node \<Rightarrow> bool" where
  "cs_printed cfg s \<longleftrightarrow>
     DOW_DEBUG cfg \<or> (dow_state s \<noteq> DOW_STATE_INACTIVE \<and> dow_state s \<noteq> DOW_STATE_STOPPED)"

end
