(* ===== verification/Example_Ext.thy ===== *)
theory Example_Ext
  imports Dow_Types
begin

text \<open>
  A small executable CCN-lite and RIOT with which the properties are applied at concrete
  inputs: prefixes are compared by their common components, content is inserted at the head
  of the store after the replacement strategy made room, names are split at slashes.
\<close>

fun common_comps :: "string list \<Rightarrow> string list \<Rightarrow> int" where
  "common_comps (a # as) (b # bs) = (if a = b then 1 + common_comps as bs else 0)"
| "common_comps _ _ = 0"

definition ex_prefix_cmp :: "prefix \<Rightarrow> prefix \<Rightarrow> cmp_mode \<Rightarrow> int" where
  "ex_prefix_cmp p q m = (case m of
     CMP_EXACT \<Rightarrow> if comp p = comp q \<and> chunknum p = chunknum q then 0 else -1
   | CMP_MATCH \<Rightarrow> common_comps (comp p) (comp q))"

text \<open>
  \<open>split_slash\<close> is a specification: it stands for CCN-lite's splitting of a name at its slashes in
  \<^verbatim>\<open>ccnl_URItoPrefix\<close>, without that function's escapes, and models no code under \<^verbatim>\<open>src/\<close>.
\<close>

fun split_slash :: "string \<Rightarrow> string \<Rightarrow> string list" where
  "split_slash acc [] = (if acc = [] then [] else [rev acc])"
| "split_slash acc (c # cs) =
     (if c = CHR ''/'' then (if acc = [] then split_slash [] cs else rev acc # split_slash [] cs)
      else split_slash (c # acc) cs)"

definition ex_uri :: "string \<Rightarrow> int option \<Rightarrow> prefix option" where
  "ex_uri u cn = Some \<lparr>comp = split_slash [] u, chunknum = cn\<rparr>"

definition ex_content_remove :: "relay \<Rightarrow> content_s \<Rightarrow> relay" where
  "ex_content_remove r c =
     r\<lparr>contents := filter (\<lambda>e. c_addr e \<noteq> c_addr c) (contents r), contentcnt := contentcnt r - 1\<rparr>"

definition ex_insert :: "node \<Rightarrow> content_s \<Rightarrow> node" where
  "ex_insert s c = s\<lparr>ccnl_relay := (ccnl_relay s)
     \<lparr>contents := c # contents (ccnl_relay s), contentcnt := contentcnt (ccnl_relay s) + 1\<rparr>\<rparr>"

definition ex_add2cache ::
  "(node \<Rightarrow> content_s \<Rightarrow> fault + (int \<times> node)) option \<Rightarrow> node \<Rightarrow> content_s \<Rightarrow> fault + (bool \<times> node)" where
  "ex_add2cache strategy s c =
     (if int (contentcnt (ccnl_relay s)) < max_cache_entries (ccnl_relay s) \<or>
         max_cache_entries (ccnl_relay s) < 0 then Inr (True, ex_insert s c)
      else case strategy of
          None \<Rightarrow> Inr (False, s)
        | Some f \<Rightarrow> and_then (f s c) (\<lambda>(_, s).
            if int (contentcnt (ccnl_relay s)) < max_cache_entries (ccnl_relay s)
            then Inr (True, ex_insert s c) else Inr (False, s)))"

definition ex_interest_remove :: "relay \<Rightarrow> interest_s \<Rightarrow> relay" where
  "ex_interest_remove r i = r\<lparr>pit := filter (\<lambda>j. i_addr j \<noteq> i_addr i) (pit r)\<rparr>"

definition ex_pkt :: "string list \<Rightarrow> string \<Rightarrow> int \<Rightarrow> pkt" where
  "ex_pkt cs v n = \<lparr>pfx = \<lparr>comp = cs, chunknum = None\<rparr>,
     content = \<lparr>cvalue = v, cnum = n\<rparr>, contlen = 13\<rparr>"

definition ex_ext :: ext where
  "ex_ext = \<lparr>
     prefix_cmp = ex_prefix_cmp, uri_to_prefix = ex_uri, prefix_dup = (\<lambda>p. p),
     prepend_content = (\<lambda>p v. concat (map (\<lambda>c. ''/'' @ c) (comp p)) @ ''='' @ cvalue v),
     data_bytes2pkt = (\<lambda>b. Some (ex_pkt (split_slash [] (takeWhile (\<lambda>c. c \<noteq> CHR ''='') b))
        (tl (dropWhile (\<lambda>c. c \<noteq> CHR ''='') b)) (-1))),
     dehead_is_data = (\<lambda>b. b \<noteq> []),
     wire = (\<lambda>p. Some (concat (map (\<lambda>c. ''/'' @ c) (comp (pfx p))) @ ''='' @ cvalue (content p))),
     add2cache = ex_add2cache, content_remove = ex_content_remove,
     interest_remove = ex_interest_remove, serve_pending = (\<lambda>r c. r),
     mk_interest = (\<lambda>p n. concat (map (\<lambda>c. ''/'' @ c) (comp p))),
     dehead_ok = (\<lambda>b. b \<noteq> []),
     interest_bytes2pkt = (\<lambda>b. Some (ex_pkt (split_slash [] b) [] (-1))),
     interest_new = (\<lambda>r f p. (None, r)),
     loopback_face = 0, wait_fuel = 10, max_interest_retransmit = 7, etimedout = 110,
     x_now = (\<lambda>n. of_nat (1000 * n)), x_random = (\<lambda>n. of_nat (n * 1000000007)),
     x_alloc = (\<lambda>n. Some n), x_recv = (\<lambda>n. \<lparr>m_type = CCNL_MSG_TIMEOUT, m_content = No_payload\<rparr>),
     x_get_state = (\<lambda>n. Some NETOPT_STATE_IDLE), x_set_state = (\<lambda>n. True),
     x_cpuid = 0xCAFE0001, bloom_check = (\<lambda>ids i. i \<in> set ids) \<rparr>"

definition ex_relay :: relay where
  "ex_relay = \<lparr>contents = [], pit = [], max_cache_entries = 20, contentcnt = 0,
     cache_write_lock = True\<rparr>"

definition ex_node :: node where
  "ex_node = \<lparr>
     ccnl_relay = ex_relay, dow_state = DOW_STATE_DEPUTY, dow_my_id = 0xCAFE0001,
     dow_prevent_sleep = 0, dow_time_sleeping = 0, dow_time_active = 0, dow_sleeping = False,
     dow_ts_wakeup = 0, dow_ts_sleep = 0, dow_prio_cache_cnt = 0,
     dow_my_prefix_interest_count = 0, dow_cache_size = 20, dow_period_counter = 1,
     sleep_period = 0, last_deputy_ts = 0, dow_phase_counter = 3, old_data = 0,
     send_old_data = False, DOW_P = 1 / 2, dow_registered_prefix = [],
     dow_is_registered = False, dow_sensors = replicate 5 [], dow_sensor_nr = 0,
     dow_manual_id = False, dow_num_src = 0, dow_is_source = True, dow_position = 0,
     dow_size = 1, dow_neighbors = [], all_pfx = \<lparr>comp = [''*''], chunknum = Some 0\<rparr>,
     my_pfx = \<lparr>comp = [], chunknum = None\<rparr>, flagged_cache = 0,
     dow_pfx_pres = replicate 10 (CHR 0x00, 0), first_time_full = True,
     env = \<lparr>e_clock = 0, e_random = 0, e_alloc = 0, e_recv = 0, e_get = 0, e_set = 0,
       e_trace = []\<rparr> \<rparr>"

text \<open>A store entry \<^verbatim>\<open>/t/a/<source>/<time>\<close>.\<close>

definition ex_entry :: "nat \<Rightarrow> string \<Rightarrow> string \<Rightarrow> content_s" where
  "ex_entry a src ts = \<lparr>c_addr = a, c_pkt = ex_pkt [''t'', ''a'', src, ts] ts (-1),
     f_static = False, f_user1 = False, f_user2 = False\<rparr>"

lemmas ex_simps = ex_prefix_cmp_def ex_uri_def ex_content_remove_def ex_insert_def
  ex_add2cache_def ex_interest_remove_def ex_pkt_def ex_ext_def ex_relay_def ex_node_def
  ex_entry_def

end
