(* ===== verification/Ccnl_Store_Props.thy ===== *)
theory Ccnl_Store_Props
  imports Ccnl_Store Example_Ext
begin

text \<open>
  Correctness of the content store's replacement strategy: which entry it removes, where it
  departs from its own comment, that static entries stay, and that the lock is held in the end.
\<close>

section \<open>Well-formed entries and the oldest entry of a list\<close>

definition entry_ts :: "content_s \<Rightarrow> int" where
  "entry_ts e = strtol16 (comp (pfx (c_pkt e)) ! 3)"

text \<open>A name with type, prefix, source and time stamp, as every data chunk has.\<close>

definition wf_entry :: "content_s \<Rightarrow> bool" where
  "wf_entry e \<longleftrightarrow> 4 \<le> compcnt (pfx (c_pkt e)) \<and> comp (pfx (c_pkt e)) ! 1 \<noteq> []"

definition same_source :: "ext \<Rightarrow> content_s \<Rightarrow> content_s \<Rightarrow> bool" where
  "same_source X c e \<longleftrightarrow> prefix_cmp X (pfx (c_pkt c)) (pfx (c_pkt e)) CMP_MATCH \<ge> 3"

fun first_min :: "('a \<Rightarrow> int) \<Rightarrow> 'a list \<Rightarrow> 'a option" where
  "first_min k [] = None"
| "first_min k (x # xs) =
     (case first_min k xs of None \<Rightarrow> Some x | Some y \<Rightarrow> if k y < k x then Some y else Some x)"

lemma first_min_None [simp]: "first_min k xs = None \<longleftrightarrow> xs = []"
  by (cases xs) (auto split: option.splits)

lemma first_min_Some:
  "first_min k xs = Some y \<Longrightarrow> y \<in> set xs \<and> (\<forall>x \<in> set xs. k y \<le> k x)"
  by (induction xs arbitrary: y) (force split: option.splits if_splits)+

lemma first_min_snoc:
  "first_min k (xs @ [x]) =
     (case first_min k xs of None \<Rightarrow> Some x | Some y \<Rightarrow> if k x < k y then Some x else Some y)"
  by (induction xs) (auto split: option.splits)

text \<open>
  The candidate the scan keeps, over the entries it looks at: with no time stamp 0 it is
  the first entry with the smallest one.
\<close>

definition cand_of :: "('a \<Rightarrow> int) \<Rightarrow> 'a list \<Rightarrow> 'a option \<times> int" where
  "cand_of k xs = (first_min k xs, case first_min k xs of None \<Rightarrow> 0 | Some y \<Rightarrow> k y)"

lemma cand_of_Nil [simp]: "cand_of k [] = (None, 0)"
  by (simp add: cand_of_def)

lemma older_cand_of:
  assumes "\<forall>e \<in> set es. 0 < entry_ts e"
  shows "older (entry_ts e) e (cand_of entry_ts es) = cand_of entry_ts (es @ [e])"
  using assms first_min_Some [of entry_ts es]
  by (fastforce simp: older_def cand_of_def first_min_snoc split: option.splits)

section \<open>The candidates of the scan\<close>

text \<open>
  The scan keeps four candidates. What it promises for one of them is the same for all:
  it looks at the entries selected for this candidate and ignores the others.
\<close>

locale candidate_scan =
  fixes step :: "cs_scan_t \<Rightarrow> content_s \<Rightarrow> fault + cs_scan_t"
    and get :: "cs_scan_t \<Rightarrow> candidate"
    and sel :: "content_s \<Rightarrow> bool"
  assumes step_get: "step a e = Inr a' \<Longrightarrow>
    get a' = (if sel e then older (entry_ts e) e (get a) else get a)"
begin

lemma scan_get:
  assumes "run_res step a es = Inr a'" "get a = cand_of entry_ts (filter sel ds)"
    and "\<forall>e \<in> set ds \<union> set es. 0 < entry_ts e"
  shows "get a' = cand_of entry_ts (filter sel (ds @ es))"
  using assms
proof (induction es arbitrary: a ds)
  case Nil
  then show ?case by simp
next
  case (Cons e es)
  from Cons.prems(1) obtain b where b: "step a e = Inr b" "run_res step b es = Inr a'"
    by (auto simp: and_then_eq_Inr)
  have "get b = cand_of entry_ts (filter sel (ds @ [e]))"
    using step_get [OF b(1)] Cons.prems(2,3) older_cand_of [of "filter sel ds" e] by auto
  from Cons.IH [OF b(2) this] Cons.prems(3) show ?case by simp
qed

lemma scan_from_start:
  assumes "run_res step a es = Inr a'" "get a = (None, 0)" "\<forall>e \<in> set es. 0 < entry_ts e"
  shows "get a' = cand_of entry_ts (filter sel es)"
  using scan_get [of a es a' "[]"] assms by simp

end

lemma cs_scan_run:
  "cs_scan X reg rp c es a = run_res (\<lambda>a e. cs_scan_step X reg rp c e a) a es"
proof (induction es arbitrary: a)
  case (Cons e es)
  then have "cs_scan X reg rp c es = (\<lambda>a. run_res (\<lambda>a e. cs_scan_step X reg rp c e a) a es)"
    by blast
  then show ?case by simp
qed simp

abbreviation named :: "content_s \<Rightarrow> bool" where
  "named c \<equiv> 4 \<le> compcnt (pfx (c_pkt c))"

lemmas scan_step_simps =
  cs_scan_step_def Let_def and_then_eq_Inr entry_ts_def nth_res_def

interpretation oldest_c: candidate_scan "\<lambda>a e. cs_scan_step X reg rp c e a" oldest
  "\<lambda>e. named c \<and> \<not> f_static e"
  by unfold_locales (auto simp: scan_step_simps split: if_splits)

interpretation same_c: candidate_scan "\<lambda>a e. cs_scan_step X reg rp c e a" oldest_same
  "\<lambda>e. named c \<and> \<not> f_static e \<and> same_source X c e"
  by unfold_locales (auto simp: scan_step_simps same_source_def split: if_splits)

interpretation unflagged_c: candidate_scan "\<lambda>a e. cs_scan_step X reg rp c e a" oldest_unflagged
  "\<lambda>e. named c \<and> \<not> f_static e \<and> \<not> f_user1 e"
  by unfold_locales (auto simp: scan_step_simps split: if_splits)

interpretation unregistered_c: candidate_scan "\<lambda>a e. cs_scan_step X reg rp c e a"
  oldest_unregistered
  "\<lambda>e. named c \<and> \<not> f_static e \<and> reg \<and> comp (pfx (c_pkt e)) ! 1 ! 0 \<noteq> rp ! 1"
  by unfold_locales (auto simp: scan_step_simps split: if_splits)


lemma count_user2:
  "run_res (\<lambda>a e. cs_scan_step X reg rp c e a) a es = Inr a' \<Longrightarrow> named c \<Longrightarrow>
   count_user_flag2 a' = count_user_flag2 a + of_nat (length (filter f_user2 es))"
proof (induction es arbitrary: a)
  case (Cons e es)
  then obtain b where b: "cs_scan_step X reg rp c e a = Inr b"
    "run_res (\<lambda>a e. cs_scan_step X reg rp c e a) b es = Inr a'"
    by (auto simp: and_then_eq_Inr)
  have "count_user_flag2 b = count_user_flag2 a + (if f_user2 e then 1 else 0)"
    using b(1) Cons.prems(2) by (auto simp: scan_step_simps split: if_splits)
  with Cons.IH [OF b(2) Cons.prems(2)] show ?case by simp
qed simp

lemma cs_scan_step_ok: "wf_entry e \<Longrightarrow> \<exists>a'. cs_scan_step X reg rp c e a = Inr a'"
  by (auto simp: cs_scan_step_def Let_def wf_entry_def nth_res_def)

interpretation scan_safe: safe_invariant "\<lambda>a e. if wf_entry e then cs_scan_step X reg rp c e a else Inr a"
  "\<lambda>a. True"
  by unfold_locales (auto intro: cs_scan_step_ok)

lemma cs_scan_ok:
  assumes "\<forall>e \<in> set es. wf_entry e"
  shows "\<exists>a'. cs_scan X reg rp c es a = Inr a'"
proof -
  have "run_res (\<lambda>a e. if wf_entry e then cs_scan_step X reg rp c e a else Inr a) a es =
      run_res (\<lambda>a e. cs_scan_step X reg rp c e a) a es" for a
    using assms
  proof (induction es arbitrary: a)
    case (Cons e es)
    then show ?case by (cases "cs_scan_step X reg rp c e a") simp_all
  qed simp
  moreover have "\<exists>a'. run_res (\<lambda>a e. if wf_entry e then cs_scan_step X reg rp c e a else Inr a) a es
      = Inr a' \<and> True"
    by (rule scan_safe.run_safe) simp
  ultimately show ?thesis by (simp add: cs_scan_run)
qed

section \<open>The entry the strategy removes\<close>

text \<open>
  The comment above \<^verbatim>\<open>cs_oldest_representative\<close>, over a list of entries: the oldest value of the
  same name that is not newer than the new one; if there is none, the oldest value for any name
  that has a different version in the store; if there is none either, the oldest value for any
  name. A name is type, prefix and source; that a newer version of an entry is in the store
  is what the code reads off the entry's flag for the newest value of its name.
\<close>

definition comment_choice :: "ext \<Rightarrow> content_s \<Rightarrow> content_s list \<Rightarrow> content_s option" where
  "comment_choice X c es =
     (case first_min entry_ts (filter (\<lambda>e. same_source X c e \<and> entry_ts e \<le> entry_ts c) es) of
        Some v \<Rightarrow> Some v
      | None \<Rightarrow>
         (case first_min entry_ts (filter (\<lambda>e. \<not> f_user1 e) es) of
            Some v \<Rightarrow> Some v
          | None \<Rightarrow> first_min entry_ts es))"

text \<open>
  What the code does differently: static entries are left aside; if all values of the same name
  are newer than the new one, nothing is removed; a subscribed node whose entries are all the
  newest of their names prefers the oldest entry outside its prefix; and where the
  oldest value for any name is the choice, it is only taken if it is not newer than the new one.
\<close>

definition victim :: "ext \<Rightarrow> bool \<Rightarrow> string \<Rightarrow> content_s \<Rightarrow> content_s list \<Rightarrow> content_s option" where
  "victim X reg rp c es =
     (let live = filter (\<lambda>e. \<not> f_static e) es;
          same = filter (same_source X c) live;
          superseded = filter (\<lambda>e. \<not> f_user1 e) live;
          outside = filter (\<lambda>e. reg \<and> comp (pfx (c_pkt e)) ! 1 ! 0 \<noteq> rp ! 1) live
      in if same \<noteq> [] \<and> (\<forall>e \<in> set same. entry_ts c < entry_ts e) then None
         else if same = [] \<and> superseded = [] \<and> outside \<noteq> [] then first_min entry_ts outside
         else if same = [] \<and> superseded = [] \<and> (\<forall>e \<in> set live. entry_ts c < entry_ts e) then None
         else comment_choice X c live)"

lemma first_min_le:
  "first_min k xs = Some v \<Longrightarrow> k v \<le> b \<Longrightarrow> first_min k (filter (\<lambda>x. k x \<le> b) xs) = Some v"
proof (induction xs arbitrary: v)
  case (Cons x xs)
  have none: "first_min k (filter (\<lambda>x. k x \<le> b) xs) = None" if "first_min k xs = Some w" "b < k w" for w
    using first_min_Some [OF that(1)] that(2) by (fastforce simp: filter_empty_conv)
  show ?case
  proof (cases "first_min k xs")
    case (Some w)
    with Cons none [OF Some] show ?thesis by (cases "k w \<le> b") (auto split: if_splits)
  qed (use Cons.prems in auto)
qed simp

text \<open>The same entry in the order in which the code tests its four candidates.\<close>

lemma victim_scan:
  "victim X reg rp c es =
     (let live = filter (\<lambda>e. \<not> f_static e) es in
      case first_min entry_ts (filter (same_source X c) live) of
        Some v \<Rightarrow> if entry_ts v > entry_ts c then None else Some v
      | None \<Rightarrow>
         (case first_min entry_ts (filter (\<lambda>e. \<not> f_user1 e) live) of
            Some v \<Rightarrow> Some v
          | None \<Rightarrow>
             (case first_min entry_ts
                     (filter (\<lambda>e. reg \<and> comp (pfx (c_pkt e)) ! 1 ! 0 \<noteq> rp ! 1) live) of
                Some v \<Rightarrow> Some v
              | None \<Rightarrow>
                 (case first_min entry_ts live of
                    Some v \<Rightarrow> if entry_ts v > entry_ts c then None else Some v
                  | None \<Rightarrow> None))))"
proof -
  define live where "live = filter (\<lambda>e. \<not> f_static e) es"
  define same where "same = filter (same_source X c) live"
  define superseded where "superseded = filter (\<lambda>e. \<not> f_user1 e) live"
  define outside where "outside = filter (\<lambda>e. reg \<and> comp (pfx (c_pkt e)) ! 1 ! 0 \<noteq> rp ! 1) live"
  define le where "le = filter (\<lambda>e. same_source X c e \<and> entry_ts e \<le> entry_ts c) live"
  have le: "le = filter (\<lambda>e. entry_ts e \<le> entry_ts c) same" by (simp add: le_def same_def)
  have cc: "comment_choice X c live = (case first_min entry_ts le of Some v \<Rightarrow> Some v
      | None \<Rightarrow> (case first_min entry_ts superseded of Some v \<Rightarrow> Some v | None \<Rightarrow> first_min entry_ts live))"
    unfolding comment_choice_def le_def superseded_def by (rule refl)
  have v: "victim X reg rp c es =
      (if same \<noteq> [] \<and> (\<forall>e \<in> set same. entry_ts c < entry_ts e) then None
       else if same = [] \<and> superseded = [] \<and> outside \<noteq> [] then first_min entry_ts outside
       else if same = [] \<and> superseded = [] \<and> (\<forall>e \<in> set live. entry_ts c < entry_ts e) then None
       else comment_choice X c live)"
    unfolding victim_def Let_def live_def [symmetric] same_def [symmetric] superseded_def [symmetric]
      outside_def [symmetric] by (rule refl)
  have all: "(\<forall>e \<in> set xs. entry_ts c < entry_ts e) \<longleftrightarrow> entry_ts c < entry_ts m"
    if "first_min entry_ts xs = Some m" for xs m
    using first_min_Some [OF that] by fastforce
  have "victim X reg rp c es = (case first_min entry_ts same of
      Some v \<Rightarrow> if entry_ts v > entry_ts c then None else Some v
    | None \<Rightarrow> (case first_min entry_ts superseded of Some v \<Rightarrow> Some v
      | None \<Rightarrow> (case first_min entry_ts outside of Some v \<Rightarrow> Some v
        | None \<Rightarrow> (case first_min entry_ts live of
            Some v \<Rightarrow> if entry_ts v > entry_ts c then None else Some v | None \<Rightarrow> None))))"
  proof (cases "first_min entry_ts same")
    case (Some m)
    then have "same \<noteq> []" by auto
    with Some all [OF Some] first_min_le [OF Some, of "entry_ts c"] show ?thesis
      by (simp add: v cc le)
  next
    case None
    then have "same = []" "le = []" by (simp_all add: le)
    with all [of live] show ?thesis by (auto simp: v cc split: option.splits)
  qed
  then show ?thesis
    unfolding Let_def live_def same_def superseded_def outside_def .
qed

definition after_reset :: "node \<Rightarrow> node" where
  "after_reset s = (if first_time_full s then s else (ccnl_helper_reset s)\<lparr>first_time_full := True\<rparr>)"

definition user2_count :: "content_s list \<Rightarrow> u32" where
  "user2_count es = of_nat (length (filter f_user2 es))"

lemma after_reset_frame [simp]:
  "dow_is_registered (after_reset s) = dow_is_registered s"
  "dow_registered_prefix (after_reset s) = dow_registered_prefix s"
  "cache_write_lock (ccnl_relay (after_reset s)) = cache_write_lock (ccnl_relay s)"
  by (simp_all add: after_reset_def ccnl_helper_reset_def set_contents_def)

lemma after_reset_entries:
  "e \<in> set (contents (ccnl_relay (after_reset s))) \<Longrightarrow>
   \<exists>e' \<in> set (contents (ccnl_relay s)). e = e' \<or> e = e'\<lparr>f_user2 := False\<rparr>"
  by (auto simp: after_reset_def ccnl_helper_reset_def set_contents_def split: if_splits)

lemma entry_update_f_user2 [simp]:
  "entry_ts (e\<lparr>f_user2 := b\<rparr>) = entry_ts e" "wf_entry (e\<lparr>f_user2 := b\<rparr>) = wf_entry e"
  "same_source X c (e\<lparr>f_user2 := b\<rparr>) = same_source X c e"
  by (simp_all add: entry_ts_def wf_entry_def same_source_def)

lemma victim_in_store:
  "victim X reg rp c es = Some v \<Longrightarrow> v \<in> set es \<and> \<not> f_static v"
  by (auto simp: victim_scan Let_def split: option.splits if_splits dest!: first_min_Some)

definition store_ok :: "node \<Rightarrow> bool" where
  "store_ok s \<longleftrightarrow> (\<forall>e \<in> set (contents (ccnl_relay s)). wf_entry e \<and> 0 < entry_ts e)"

lemma store_ok_after_reset: "store_ok s \<Longrightarrow> store_ok (after_reset s)"
  unfolding store_ok_def using after_reset_entries [of _ s] by fastforce

lemma cs_oldest_eq:
  "cs_oldest_representative X s c =
     (let s' = after_reset s in
      and_then (cs_scan X (dow_is_registered s) (dow_registered_prefix s) c
          (contents (ccnl_relay s')) cs_scan_init) (\<lambda>a.
      and_then (nth_res (comp (pfx (c_pkt c))) 3) (\<lambda>t3.
        let c_ts = strtol16 t3; n = count_user_flag2 a in
        if snd (oldest_same a) > c_ts then Inr (1, s')
        else case fst (oldest_same a) of Some v \<Rightarrow> Inr (1, cs_remove X v n s') | None \<Rightarrow>
          (case fst (oldest_unflagged a) of Some v \<Rightarrow> Inr (1, cs_remove X v n s') | None \<Rightarrow>
            (case fst (oldest_unregistered a) of Some v \<Rightarrow> Inr (1, cs_remove X v n s') | None \<Rightarrow>
              if snd (oldest a) > c_ts then Inr (1, s')
              else case fst (oldest a) of Some v \<Rightarrow> Inr (1, cs_remove X v n s') | None \<Rightarrow> Inr (1, s'))))))"
  unfolding cs_oldest_representative_def after_reset_def
  by (simp add: Let_def ccnl_helper_reset_def set_contents_def)

lemma cs_oldest_unfold:
  assumes "store_ok s" "named c" "0 \<le> entry_ts c"
  shows "cs_oldest_representative X s c =
    Inr (1, case victim X (dow_is_registered s) (dow_registered_prefix s) c
                   (contents (ccnl_relay (after_reset s))) of
              None \<Rightarrow> after_reset s
            | Some v \<Rightarrow> cs_remove X v (user2_count (contents (ccnl_relay (after_reset s))))
                          (after_reset s))"
proof -
  let ?s = "after_reset s"
  let ?es = "contents (ccnl_relay ?s)"
  let ?reg = "dow_is_registered s" and ?rp = "dow_registered_prefix s"
  have ok: "\<forall>e \<in> set ?es. wf_entry e \<and> 0 < entry_ts e"
    using store_ok_after_reset [OF assms(1)] by (simp add: store_ok_def)
  then obtain a where a: "cs_scan X ?reg ?rp c ?es cs_scan_init = Inr a"
    using cs_scan_ok by blast
  then have r: "run_res (\<lambda>a e. cs_scan_step X ?reg ?rp c e a) cs_scan_init ?es = Inr a"
    by (simp add: cs_scan_run)
  have pos: "\<forall>e \<in> set ?es. 0 < entry_ts e" using ok by simp
  let ?live = "filter (\<lambda>e. \<not> f_static e) ?es"
  have f: "oldest a = cand_of entry_ts ?live"
    "oldest_same a = cand_of entry_ts (filter (same_source X c) ?live)"
    "oldest_unflagged a = cand_of entry_ts (filter (\<lambda>e. \<not> f_user1 e) ?live)"
    "oldest_unregistered a = cand_of entry_ts
       (filter (\<lambda>e. ?reg \<and> comp (pfx (c_pkt e)) ! 1 ! 0 \<noteq> ?rp ! 1) ?live)"
    using oldest_c.scan_from_start [OF r _ pos] same_c.scan_from_start [OF r _ pos]
      unflagged_c.scan_from_start [OF r _ pos] unregistered_c.scan_from_start [OF r _ pos] assms(2)
    by (simp_all add: cs_scan_init_def)
  have n: "count_user_flag2 a = user2_count ?es"
    using count_user2 [OF r assms(2)] by (simp add: cs_scan_init_def user2_count_def)
  have c3: "nth_res (comp (pfx (c_pkt c))) 3 = Inr (comp (pfx (c_pkt c)) ! 3)"
    using assms(2) by simp
  have cts: "strtol16 (comp (pfx (c_pkt c)) ! 3) = entry_ts c" by (simp add: entry_ts_def)
  show ?thesis
    unfolding cs_oldest_eq Let_def a c3 and_then_Inr cts n f victim_scan
    using assms(3)
    by (cases "?live = []") (auto simp: cand_of_def simp del: filter_filter split: option.splits)
qed

section \<open>Properties of the replacement strategy\<close>

text \<open>Every candidate of the scan is an entry of the store that is not static.\<close>

definition cands :: "cs_scan_t \<Rightarrow> content_s set" where
  "cands a = set_option (fst (oldest a)) \<union> set_option (fst (oldest_same a)) \<union>
     set_option (fst (oldest_unflagged a)) \<union> set_option (fst (oldest_unregistered a))"

lemma older_cases: "set_option (fst (older ts e old)) \<subseteq> insert e (set_option (fst old))"
  by (auto simp: older_def)

lemma cs_scan_step_cands:
  assumes st: "cs_scan_step X reg rp c e a = Inr a'" and v: "v \<in> cands a'"
  shows "v \<in> cands a \<or> (v = e \<and> \<not> f_static e)"
  using v older_cases
  unfolding cands_def oldest_c.step_get [OF st] same_c.step_get [OF st]
    unflagged_c.step_get [OF st] unregistered_c.step_get [OF st]
  by (fastforce split: if_splits)

lemma cs_scan_cands:
  "cs_scan X reg rp c es a = Inr a' \<Longrightarrow> v \<in> cands a' \<Longrightarrow>
   v \<in> cands a \<or> (v \<in> set es \<and> \<not> f_static v)"
  by (induction es arbitrary: a) (fastforce simp: and_then_eq_Inr dest: cs_scan_step_cands)+

lemma cs_oldest_result:
  assumes "cs_oldest_representative X s c = Inr (r, s')"
  shows "r = 1 \<and> (s' = after_reset s \<or>
    (\<exists>v n. v \<in> set (contents (ccnl_relay (after_reset s))) \<and> \<not> f_static v \<and>
       s' = cs_remove X v n (after_reset s)))"
proof -
  let ?s = "after_reset s"
  from assms obtain a t3 where a: "cs_scan X (dow_is_registered s) (dow_registered_prefix s) c
      (contents (ccnl_relay ?s)) cs_scan_init = Inr a"
    and t: "nth_res (comp (pfx (c_pkt c))) 3 = Inr t3"
    unfolding cs_oldest_eq by (auto simp: Let_def and_then_eq_Inr)
  have c: "v \<in> set (contents (ccnl_relay ?s)) \<and> \<not> f_static v" if "v \<in> cands a" for v
    using cs_scan_cands [OF a that] by (simp add: cands_def cs_scan_init_def)
  have d: "\<exists>w n. w \<in> set (contents (ccnl_relay ?s)) \<and> \<not> f_static w \<and>
      cs_remove X v k ?s = cs_remove X w n ?s" if "v \<in> cands a" for v k
    using c [OF that] by blast
  have "v \<in> cands a" if "fst (oldest a) = Some v \<or> fst (oldest_same a) = Some v \<or>
      fst (oldest_unflagged a) = Some v \<or> fst (oldest_unregistered a) = Some v" for v
    using that by (auto simp: cands_def)
  note d' = d [OF this]
  have "(r = 1 \<and> s' = ?s) \<or> (r = 1 \<and> (\<exists>v k. (fst (oldest a) = Some v \<or>
      fst (oldest_same a) = Some v \<or> fst (oldest_unflagged a) = Some v \<or>
      fst (oldest_unregistered a) = Some v) \<and> s' = cs_remove X v k ?s))"
    using assms unfolding cs_oldest_eq Let_def a t and_then_Inr
    by (force split: if_splits option.splits)
  with d' show ?thesis by blast
qed

lemma cs_scan_step_fault:
  "cs_scan_step X reg rp c e a = Inl f \<Longrightarrow> f = OutOfBounds"
  by (auto simp: cs_scan_step_def Let_def and_then_def nth_res_def split: if_splits sum.splits)

lemma cs_scan_short:
  assumes "named c" "e \<in> set es" "\<not> named e"
  shows "cs_scan X reg rp c es a = Inl OutOfBounds"
  using assms(2)
proof (induction es arbitrary: a)
  case (Cons e' es)
  show ?case
  proof (cases "cs_scan_step X reg rp c e' a")
    case (Inl f)
    with cs_scan_step_fault [OF Inl] show ?thesis by simp
  next
    case (Inr b)
    with assms(1,3) have "e' \<noteq> e"
      by (auto simp: cs_scan_step_def Let_def nth_res_def)
    with Cons Inr show ?thesis by simp
  qed
qed simp

text \<open>
  C8. Which entry is removed. Let every stored entry have a name of at least four components,
  a prefix component that is not empty and a time stamp above 0, and let the new chunk have a
  name of at least four components and a time stamp of at least 0. Then the strategy ends
  without a fault, returns 1, and removes exactly the entry that \<open>victim\<close> gives: the choice of the
  comment among the entries that are not static, except that nothing is removed where all
  values of the same name are newer, that the oldest entry outside the subscribed prefix goes
  before the oldest overall, and that the oldest overall stays if it is newer.
\<close>

theorem cs_oldest_refines_victim:
  assumes "store_ok s" "named c" "0 \<le> entry_ts c"
  shows "cs_oldest_representative X s c =
    Inr (1, case victim X (dow_is_registered s) (dow_registered_prefix s) c
                   (contents (ccnl_relay (after_reset s))) of
              None \<Rightarrow> after_reset s
            | Some v \<Rightarrow> cs_remove X v (user2_count (contents (ccnl_relay (after_reset s))))
                          (after_reset s))"
  using assms by (rule cs_oldest_unfold)

definition ex_store :: "content_s list \<Rightarrow> node" where
  "ex_store es = set_contents es ex_node"

definition ex_full :: node where
  "ex_full = ex_store
     [(ex_entry 1 ''00000001'' ''00000030'')\<lparr>f_user1 := True\<rparr>, ex_entry 2 ''00000001'' ''00000010'',
      (ex_entry 3 ''00000002'' ''00000005'')\<lparr>f_user1 := True\<rparr>, ex_entry 4 ''00000001'' ''00000010'']"

lemmas ex_store_simps = ex_full_def ex_store_def set_contents_def after_reset_def
  wf_entry_def entry_ts_def same_source_def strtol_simps ex_simps

lemmas cs_eval_simps = cs_oldest_eq cs_scan_step_def cs_scan_init_def older_def cs_remove_def
  set_lock_def nth_res_def Let_def ex_store_simps

lemma ex_full_ok: "store_ok ex_full" "named (ex_entry 9 ''00000001'' ''00000040'')"
  "0 \<le> entry_ts (ex_entry 9 ''00000001'' ''00000040'')"
  by (simp_all add: store_ok_def ex_store_simps)

theorem cs_oldest_refines_victim_witness:
  "victim ex_ext False [] (ex_entry 9 ''00000001'' ''00000040'') (contents (ccnl_relay ex_full))
     = Some (ex_entry 2 ''00000001'' ''00000010'') \<and>
   (\<exists>s'. cs_oldest_representative ex_ext ex_full (ex_entry 9 ''00000001'' ''00000040'') = Inr (1, s'))"
  using cs_oldest_refines_victim [OF ex_full_ok, of ex_ext] by (auto simp: victim_scan Let_def ex_store_simps)

text \<open>
  Removal for the same source: if the store holds an entry of the new chunk's source
  that is not static and not newer than the chunk, the strategy removes the oldest entry of
  this source, and nothing else.
\<close>

theorem cs_oldest_removes_oldest_of_source:
  assumes "store_ok s" "named c" "0 \<le> entry_ts c"
    and "e \<in> set (contents (ccnl_relay (after_reset s)))" "\<not> f_static e" "same_source X c e"
      "entry_ts e \<le> entry_ts c"
  shows "\<exists>v n. cs_oldest_representative X s c = Inr (1, cs_remove X v n (after_reset s)) \<and>
    v \<in> set (contents (ccnl_relay (after_reset s))) \<and> \<not> f_static v \<and> same_source X c v \<and>
    (\<forall>e' \<in> set (contents (ccnl_relay (after_reset s))).
       \<not> f_static e' \<and> same_source X c e' \<longrightarrow> entry_ts v \<le> entry_ts e')"
proof -
  let ?es = "contents (ccnl_relay (after_reset s))"
  let ?same = "filter (same_source X c) (filter (\<lambda>e. \<not> f_static e) ?es)"
  have "e \<in> set ?same" using assms(4-6) by simp
  then obtain v where v: "first_min entry_ts ?same = Some v" by (cases "first_min entry_ts ?same") (auto simp: filter_empty_conv)
  from first_min_Some [OF v] have "v \<in> set ?same" "\<forall>x \<in> set ?same. entry_ts v \<le> entry_ts x" by auto
  moreover from this \<open>e \<in> set ?same\<close> assms(7) have "\<not> entry_ts v > entry_ts c" by fastforce
  ultimately show ?thesis
    using v by (auto simp: cs_oldest_unfold [OF assms(1-3)] victim_scan Let_def)
qed

theorem cs_oldest_removes_oldest_of_source_witness:
  "\<exists>v n. cs_oldest_representative ex_ext ex_full (ex_entry 9 ''00000001'' ''00000040'') =
       Inr (1, cs_remove ex_ext v n (after_reset ex_full)) \<and> \<not> f_static v"
proof -
  have "ex_entry 2 ''00000001'' ''00000010'' \<in> set (contents (ccnl_relay (after_reset ex_full)))"
    "\<not> f_static (ex_entry 2 ''00000001'' ''00000010'')"
    "same_source ex_ext (ex_entry 9 ''00000001'' ''00000040'') (ex_entry 2 ''00000001'' ''00000010'')"
    "entry_ts (ex_entry 2 ''00000001'' ''00000010'') \<le> entry_ts (ex_entry 9 ''00000001'' ''00000040'')"
    by (simp_all add: ex_store_simps)
  from cs_oldest_removes_oldest_of_source [OF ex_full_ok this] show ?thesis by blast
qed

text \<open>
  The newest value of a source survives: if the chunk's source has no entry to replace
  and some entry is not the newest of its source, what the strategy removes is not flagged
  as newest, and is the oldest of those.
\<close>

theorem cs_oldest_keeps_newest:
  assumes "store_ok s" "named c" "0 \<le> entry_ts c"
    and "\<forall>e \<in> set (contents (ccnl_relay (after_reset s))). f_static e \<or> \<not> same_source X c e"
    and "u \<in> set (contents (ccnl_relay (after_reset s)))" "\<not> f_static u" "\<not> f_user1 u"
  shows "\<exists>v n. cs_oldest_representative X s c = Inr (1, cs_remove X v n (after_reset s)) \<and>
    v \<in> set (contents (ccnl_relay (after_reset s))) \<and> \<not> f_user1 v \<and> \<not> f_static v \<and>
    (\<forall>e' \<in> set (contents (ccnl_relay (after_reset s))).
       \<not> f_static e' \<and> \<not> f_user1 e' \<longrightarrow> entry_ts v \<le> entry_ts e')"
proof -
  let ?es = "contents (ccnl_relay (after_reset s))"
  let ?unfl = "filter (\<lambda>e. \<not> f_user1 e) (filter (\<lambda>e. \<not> f_static e) ?es)"
  have "u \<in> set ?unfl" using assms(5-7) by simp
  then obtain v where v: "first_min entry_ts ?unfl = Some v" by (cases "first_min entry_ts ?unfl") (auto simp: filter_empty_conv)
  from first_min_Some [OF v] have "v \<in> set ?unfl" "\<forall>x \<in> set ?unfl. entry_ts v \<le> entry_ts x" by auto
  moreover have "filter (same_source X c) (filter (\<lambda>e. \<not> f_static e) ?es) = []"
    using assms(4) by (auto simp: filter_empty_conv)
  ultimately show ?thesis
    using v by (auto simp: cs_oldest_unfold [OF assms(1-3)] victim_scan Let_def simp del: filter_filter)
qed

lemma ex_full_ok2: "named (ex_entry 9 ''00000007'' ''00000040'')"
  "0 \<le> entry_ts (ex_entry 9 ''00000007'' ''00000040'')"
  by (simp_all add: ex_store_simps)

theorem cs_oldest_keeps_newest_witness:
  "\<exists>v n. cs_oldest_representative ex_ext ex_full (ex_entry 9 ''00000007'' ''00000040'') =
       Inr (1, cs_remove ex_ext v n (after_reset ex_full)) \<and> \<not> f_user1 v"
proof -
  have "\<forall>e \<in> set (contents (ccnl_relay (after_reset ex_full))).
      f_static e \<or> \<not> same_source ex_ext (ex_entry 9 ''00000007'' ''00000040'') e"
    "ex_entry 2 ''00000001'' ''00000010'' \<in> set (contents (ccnl_relay (after_reset ex_full)))"
    "\<not> f_static (ex_entry 2 ''00000001'' ''00000010'')"
    "\<not> f_user1 (ex_entry 2 ''00000001'' ''00000010'')"
    by (simp_all add: ex_store_simps)
  from cs_oldest_keeps_newest [OF ex_full_ok(1) ex_full_ok2 this] show ?thesis by blast
qed

text \<open>
  C9. Safety on every store: whenever the strategy ends, it returns 1, at most one entry
  is removed, that entry is in the store and not static, and the write lock is held at the
  end if it was held at the start.
\<close>

theorem cs_oldest_static_safe:
  assumes "cs_oldest_representative X s c = Inr (r, s')" "cache_write_lock (ccnl_relay s)"
  shows "r = 1 \<and> cache_write_lock (ccnl_relay s') \<and> (s' = after_reset s \<or>
    (\<exists>v n. v \<in> set (contents (ccnl_relay (after_reset s))) \<and> \<not> f_static v \<and>
       s' = cs_remove X v n (after_reset s)))"
  using cs_oldest_result [OF assms(1)] assms(2)
  by (auto simp: cs_remove_def Let_def set_lock_def)

theorem cs_oldest_static_safe_witness:
  "\<exists>s'. cs_oldest_representative ex_ext ex_full (ex_entry 9 ''00000001'' ''00000040'') = Inr (1, s') \<and>
     cache_write_lock (ccnl_relay s')"
proof -
  obtain s' where s': "cs_oldest_representative ex_ext ex_full
      (ex_entry 9 ''00000001'' ''00000040'') = Inr (1, s')"
    using cs_oldest_unfold [OF ex_full_ok] by blast
  have "cache_write_lock (ccnl_relay ex_full)" by (simp add: ex_store_simps)
  from cs_oldest_static_safe [OF s' this] s' show ?thesis by blast
qed

text \<open>
  The guard against short names tests the wrong name: with one entry of fewer than four
  components in the store (a beacon chunk is none, but any other content is), the strategy
  reads a component that is not there, whatever well-formed chunk arrives.
\<close>

theorem cs_oldest_reads_past_short_name:
  assumes "named c" "e \<in> set (contents (ccnl_relay s))" "\<not> named e"
  shows "cs_oldest_representative X s c = Inl OutOfBounds"
proof -
  have "\<exists>e' \<in> set (contents (ccnl_relay (after_reset s))). \<not> named e'"
    using assms(2,3)
    by (force simp: after_reset_def ccnl_helper_reset_def set_contents_def)
  with cs_scan_short [OF assms(1)] show ?thesis
    unfolding cs_oldest_eq by (auto simp: Let_def)
qed

theorem cs_oldest_reads_past_short_name_witness:
  "cs_oldest_representative ex_ext
     (ex_store [(ex_entry 1 [] [])\<lparr>c_pkt := ex_pkt [''t''] [] (-1)\<rparr>])
     (ex_entry 9 ''00000001'' ''00000040'') = Inl OutOfBounds"
  by (rule cs_oldest_reads_past_short_name [of _ "(ex_entry 1 [] [])\<lparr>c_pkt := ex_pkt [''t''] [] (-1)\<rparr>"])
    (simp_all add: ex_store_simps)

text \<open>
  Time stamp 0 marks ``no candidate yet'' in the scan: an entry with time stamp 0 is
  overwritten by the next one, so a newer entry is removed instead of the oldest.
\<close>

theorem cs_oldest_forgets_time_stamp_0:
  "\<exists>s'. cs_oldest_representative ex_ext
     (ex_store [ex_entry 1 ''00000001'' ''00000000'', ex_entry 2 ''00000001'' ''00000010''])
     (ex_entry 9 ''00000001'' ''00000040'') = Inr (1, s') \<and>
   map c_addr (contents (ccnl_relay s')) = [1] \<and>
   map entry_ts (contents (ccnl_relay s')) = [0]"
proof -
  let ?r = "cs_oldest_representative ex_ext
     (ex_store [ex_entry 1 ''00000001'' ''00000000'', ex_entry 2 ''00000001'' ''00000010''])
     (ex_entry 9 ''00000001'' ''00000040'')"
  have "(case ?r of Inl _ \<Rightarrow> False | Inr (r, s') \<Rightarrow> r = 1 \<and>
     map c_addr (contents (ccnl_relay s')) = [1] \<and> map entry_ts (contents (ccnl_relay s')) = [0])"
    by (simp add: cs_eval_simps)
  then show ?thesis by (auto split: sum.splits)
qed

end
