(* ===== verification/Ccnl_Flags_Props.thy ===== *)
theory Ccnl_Flags_Props
  imports Ccnl_Store_Props
begin

text \<open>
  The rest of the content store's properties: the newest-value flags of
  \<^verbatim>\<open>_ccnl_helper_handle_content\<close>, the removal of one pending interest, the range test of
  the hard-wired mode, the statistics of prefixes, and what building a chunk sends and frees.
\<close>

section \<open>The scan for a newer value\<close>

definition matches :: "ext \<Rightarrow> prefix \<Rightarrow> content_s \<Rightarrow> bool" where
  "matches X p e \<longleftrightarrow> named e \<and> prefix_cmp X (pfx (c_pkt e)) p CMP_MATCH \<ge> 3"

definition newer :: "ext \<Rightarrow> prefix \<Rightarrow> int \<Rightarrow> content_s \<Rightarrow> bool" where
  "newer X p ts e \<longleftrightarrow> matches X p e \<and> entry_ts e > ts"

definition unflagged :: "ext \<Rightarrow> prefix \<Rightarrow> content_s \<Rightarrow> content_s" where
  "unflagged X p e = (if matches X p e then e\<lparr>f_user1 := False, f_static := False\<rparr> else e)"

definition removed_from :: "ext \<Rightarrow> prefix \<Rightarrow> content_s list \<Rightarrow> removed \<Rightarrow> removed" where
  "removed_from X p es u =
     \<lparr>REMOVED_NEWEST_FLAG = (REMOVED_NEWEST_FLAG u \<or> (\<exists>e \<in> set es. matches X p e \<and> f_user1 e)),
      REMOVED_PRIO_FLAG = (REMOVED_PRIO_FLAG u \<or> (\<exists>e \<in> set es. matches X p e \<and> f_static e))\<rparr>"

lemma removed_from_Nil [simp]: "removed_from X p [] u = u"
  by (simp add: removed_from_def)

lemma removed_from_Cons:
  "removed_from X p (e # es) u =
     removed_from X p es (if matches X p e then snd (unflag_entry e u) else u)"
  by (auto simp: removed_from_def unflag_entry_def)

lemma newer_scan_none:
  assumes "\<forall>e \<in> set es. \<not> newer X p ts e"
  shows "newer_scan X p ts es u = (map (unflagged X p) es, None, [], removed_from X p es u)"
  using assms
  by (induction es arbitrary: u)
    (auto simp: removed_from_Cons unflag_entry_def unflagged_def newer_def matches_def entry_ts_def
      Let_def)

lemma newer_scan_some:
  assumes "\<forall>d \<in> set ds. \<not> newer X p ts d" "newer X p ts e"
  shows "newer_scan X p ts (ds @ e # post) u =
    (map (unflagged X p) ds, Some (unflagged X p e), post, removed_from X p (ds @ [e]) u)"
  using assms
  by (induction ds arbitrary: u)
    (auto simp: removed_from_Cons unflag_entry_def unflagged_def newer_def matches_def entry_ts_def
      Let_def)

text \<open>
  C13. An in-order arrival: if no stored entry of the source is newer than the chunk, the
  chunk becomes the newest of its source, every stored entry of the source loses its flags,
  and entries of other sources keep theirs. Without prioritised caching nothing else
  changes.
\<close>

theorem handle_flags_newest:
  assumes "\<forall>e \<in> set (contents (ccnl_relay s)). \<not> newer X (pfx (c_pkt c)) ts e"
    and "DOW_PRIO_CACHE cfg = 0"
  shows "handle_flags cfg X c ts s =
    (c\<lparr>f_user1 := True\<rparr>,
     set_contents (map (unflagged X (pfx (c_pkt c))) (contents (ccnl_relay s))) s)"
  using assms by (simp add: handle_flags_def newer_scan_none Let_def)

definition ex_chunk :: "nat \<Rightarrow> string \<Rightarrow> string \<Rightarrow> pkt" where
  "ex_chunk a src ts = c_pkt (ex_entry a src ts)"

theorem handle_flags_newest_witness:
  "map f_user1 (contents (ccnl_relay (snd (handle_flags caching_cfg ex_ext
      (ex_entry 9 ''00000001'' ''00000040'') 64 ex_full)))) = [False, False, True, False] \<and>
   f_user1 (fst (handle_flags caching_cfg ex_ext (ex_entry 9 ''00000001'' ''00000040'') 64 ex_full))"
proof -
  have "\<forall>e \<in> set (contents (ccnl_relay ex_full)).
      \<not> newer ex_ext (pfx (c_pkt (ex_entry 9 ''00000001'' ''00000040''))) 64 e"
    by (simp add: newer_def matches_def ex_store_simps)
  moreover have "DOW_PRIO_CACHE caching_cfg = 0" by (simp add: caching_cfg_def)
  ultimately show ?thesis
    by (simp add: handle_flags_newest unflagged_def matches_def ex_store_simps)
qed

text \<open>
  An out-of-order arrival: if the first stored entry newer than the chunk follows the
  entries \<open>ds\<close>, then this entry becomes the newest of its source, the chunk stays unflagged,
  and the entries behind it are not looked at.
\<close>

theorem handle_flags_older:
  assumes "contents (ccnl_relay s) = ds @ e # post"
    and "\<forall>d \<in> set ds. \<not> newer X (pfx (c_pkt c)) ts d" "newer X (pfx (c_pkt c)) ts e"
    and "DOW_PRIO_CACHE cfg = 0"
  shows "handle_flags cfg X c ts s =
    (c, set_contents (map (unflagged X (pfx (c_pkt c))) ds @
          e\<lparr>f_static := False, f_user1 := True\<rparr> # post) s)"
  using assms(3,4) newer_scan_some [OF assms(2,3)]
  by (simp add: handle_flags_def assms(1) Let_def unflagged_def newer_def)

theorem handle_flags_older_witness:
  "map f_user1 (contents (ccnl_relay (snd (handle_flags caching_cfg ex_ext
      (ex_entry 9 ''00000001'' ''00000020'') 32 ex_full)))) = [True, False, True, False]"
proof -
  have "contents (ccnl_relay ex_full) = [] @ (ex_entry 1 ''00000001'' ''00000030'')\<lparr>f_user1 := True\<rparr> #
      [ex_entry 2 ''00000001'' ''00000010'',
      (ex_entry 3 ''00000002'' ''00000005'')\<lparr>f_user1 := True\<rparr>, ex_entry 4 ''00000001'' ''00000010'']"
    "newer ex_ext (pfx (c_pkt (ex_entry 9 ''00000001'' ''00000020''))) 32
      ((ex_entry 1 ''00000001'' ''00000030'')\<lparr>f_user1 := True\<rparr>)"
    "DOW_PRIO_CACHE caching_cfg = 0"
    by (simp_all add: newer_def matches_def ex_store_simps caching_cfg_def)
  then show ?thesis
    by (simp add: handle_flags_older [where ds = "[]"]) (simp add: ex_store_simps)
qed

text \<open>
  C19. Two newest values for one source, whatever the source, its chunks and the store: let the
  first stored entry newer than an arriving chunk \<open>c2\<close> be \<open>e1\<close>, and let a third chunk \<open>c3\<close> of the
  source, older than \<open>c2\<close>, arrive after \<open>c2\<close> was put in front of the store. Then the scan for
  \<open>c3\<close> stops at \<open>c2\<close> and flags it as the newest, although \<open>e1\<close>, which is newer, carries the flag too.
\<close>

theorem out_of_order_arrivals_flag_two:
  assumes "DOW_PRIO_CACHE cfg = 0" "contents (ccnl_relay s) = ds @ e1 # post"
    and "\<forall>d \<in> set ds. \<not> newer X (pfx (c_pkt c2)) ts2 d" "newer X (pfx (c_pkt c2)) ts2 e1"
    and "handle_flags cfg X c2 ts2 s = (c2', s1)"
    and "contents (ccnl_relay s2) = c2' # contents (ccnl_relay s1)" "newer X (pfx (c_pkt c3)) ts3 c2'"
    and "handle_flags cfg X c3 ts3 s2 = (c3', s3)"
  shows "contents (ccnl_relay s3) = c2\<lparr>f_static := False, f_user1 := True\<rparr> #
      map (unflagged X (pfx (c_pkt c2))) ds @ e1\<lparr>f_static := False, f_user1 := True\<rparr> # post \<and>
    ts2 < entry_ts e1 \<and> c3' = c3"
proof -
  from handle_flags_older [OF assms(2-4,1)] assms(5)
  have 1: "c2' = c2" "contents (ccnl_relay s1) = map (unflagged X (pfx (c_pkt c2))) ds @
      e1\<lparr>f_static := False, f_user1 := True\<rparr> # post"
    by (auto simp: set_contents_def)
  from handle_flags_older [of s2 "[]" c2' "contents (ccnl_relay s1)" X c3 ts3 cfg] assms(1,6-8)
  have "c3' = c3" "contents (ccnl_relay s3) =
      c2'\<lparr>f_static := False, f_user1 := True\<rparr> # contents (ccnl_relay s1)"
    by (auto simp: set_contents_def)
  with 1 assms(4) show ?thesis by (simp add: newer_def)
qed

text \<open>Time stamps 0x20, 0x10 and 0x05 of one source, in this order.\<close>

theorem out_of_order_arrivals_flag_two_witness:
  "\<exists>s1 s3. handle_flags caching_cfg ex_ext (ex_entry 2 ''00000001'' ''00000010'') 16
      (ex_store [(ex_entry 1 ''00000001'' ''00000020'')\<lparr>f_user1 := True\<rparr>]) =
        (ex_entry 2 ''00000001'' ''00000010'', s1) \<and>
    handle_flags caching_cfg ex_ext (ex_entry 3 ''00000001'' ''00000005'') 5
      (set_contents (ex_entry 2 ''00000001'' ''00000010'' # contents (ccnl_relay s1)) s1) =
        (ex_entry 3 ''00000001'' ''00000005'', s3) \<and>
    map (\<lambda>e. (entry_ts e, f_user1 e)) (contents (ccnl_relay s3)) = [(16, True), (32, True)]"
proof -
  define c2 c3 e1 where "c2 = ex_entry 2 ''00000001'' ''00000010''"
    and "c3 = ex_entry 3 ''00000001'' ''00000005''"
    and "e1 = (ex_entry 1 ''00000001'' ''00000020'')\<lparr>f_user1 := True\<rparr>"
  define s where "s = ex_store [e1]"
  obtain c2' s1 where 1: "handle_flags caching_cfg ex_ext c2 16 s = (c2', s1)" by force
  define s2 where "s2 = set_contents (c2' # contents (ccnl_relay s1)) s1"
  obtain c3' s3 where 3: "handle_flags caching_cfg ex_ext c3 5 s2 = (c3', s3)" by force
  have p: "DOW_PRIO_CACHE caching_cfg = 0" by (simp add: caching_cfg_def)
  have e: "contents (ccnl_relay s) = [] @ e1 # []" "\<forall>d \<in> set []. \<not> newer ex_ext (pfx (c_pkt c2)) 16 d"
    "newer ex_ext (pfx (c_pkt c2)) 16 e1" "newer ex_ext (pfx (c_pkt c3)) 5 c2"
    by (simp_all add: s_def c2_def c3_def e1_def newer_def matches_def ex_store_simps)
  have c2: "c2' = c2" using handle_flags_older [OF e(1-3) p] 1 by simp
  have "contents (ccnl_relay s2) = c2' # contents (ccnl_relay s1)" by (simp add: s2_def set_contents_def)
  from out_of_order_arrivals_flag_two [OF p e(1-3) 1 this e(4) [folded c2] 3]
  have c: "contents (ccnl_relay s3) = [c2\<lparr>f_static := False, f_user1 := True\<rparr>, e1\<lparr>f_static := False, f_user1 := True\<rparr>]"
    and c3: "c3' = c3" by simp_all
  from c have "map (\<lambda>e. (entry_ts e, f_user1 e)) (contents (ccnl_relay s3)) =
      [(16, True), (32, True)]"
    by (simp add: c2_def e1_def ex_store_simps)
  with 1 3 show ?thesis unfolding s2_def c2 c3 c2_def [symmetric] c3_def [symmetric]
      e1_def [symmetric] s_def [symmetric] by (intro exI conjI)
qed

section \<open>One pending interest\<close>

text \<open>
  Removing the pending interest for a chunk number: if every interest for all content
  carries a chunk number, the first one with this number is removed, and only it.
\<close>

theorem remove_pit_first:
  assumes "\<forall>i \<in> set (pit (ccnl_relay s)).
    prefix_cmp X (all_pfx s) (i_pfx i) CMP_MATCH \<ge> 1 \<longrightarrow> chunknum (i_pfx i) \<noteq> None"
  shows "remove_pit X num s = Inr (s\<lparr>ccnl_relay :=
    (case find (\<lambda>i. prefix_cmp X (all_pfx s) (i_pfx i) CMP_MATCH \<ge> 1 \<and> chunknum (i_pfx i) = Some num)
            (pit (ccnl_relay s)) of
       None \<Rightarrow> ccnl_relay s
     | Some i \<Rightarrow> interest_remove X (ccnl_relay s) i)\<rparr>)"
proof -
  have "remove_pit_loop X ap num r is = Inr (case find (\<lambda>i. prefix_cmp X ap (i_pfx i) CMP_MATCH \<ge> 1 \<and>
      chunknum (i_pfx i) = Some num) is of None \<Rightarrow> r | Some i \<Rightarrow> interest_remove X r i)"
    if "\<forall>i \<in> set is. prefix_cmp X ap (i_pfx i) CMP_MATCH \<ge> 1 \<longrightarrow> chunknum (i_pfx i) \<noteq> None" for ap r "is"
    using that by (induction "is") auto
  with assms show ?thesis by (simp add: remove_pit_def)
qed

definition ex_interest :: "nat \<Rightarrow> int option \<Rightarrow> interest_s" where
  "ex_interest a n = \<lparr>i_addr = a, i_pfx = \<lparr>comp = [''*''], chunknum = n\<rparr>, i_from = 0, i_pending = 0\<rparr>"

definition ex_pit :: "interest_s list \<Rightarrow> node" where
  "ex_pit is = ex_node\<lparr>ccnl_relay := ex_relay\<lparr>pit := is\<rparr>\<rparr>"

theorem remove_pit_first_witness:
  "\<exists>s'. remove_pit ex_ext 4 (ex_pit [ex_interest 1 (Some 3), ex_interest 2 (Some 4)]) = Inr s' \<and>
     map i_addr (pit (ccnl_relay s')) = [1]"
proof -
  have "\<forall>i \<in> set (pit (ccnl_relay (ex_pit [ex_interest 1 (Some 3), ex_interest 2 (Some 4)]))).
    prefix_cmp ex_ext (all_pfx (ex_pit [ex_interest 1 (Some 3), ex_interest 2 (Some 4)])) (i_pfx i)
      CMP_MATCH \<ge> 1 \<longrightarrow> chunknum (i_pfx i) \<noteq> None"
    by (simp add: ex_pit_def ex_interest_def)
  from remove_pit_first [OF this, of 4] show ?thesis
    by (simp add: ex_pit_def ex_interest_def ex_simps)
qed

section \<open>The range test\<close>

text \<open>
  For identifiers below the number of sources, \<^verbatim>\<open>_check_in_range\<close> decides whether the
  distance from the node's own identifier, counted upwards modulo the number of sources, is
  below the interval; the machine arithmetic does not overflow.
\<close>

theorem check_in_range_modular:
  assumes "start < mx" "val < mx"
  shows "check_in_range start val interval mx \<longleftrightarrow>
    (unat val + unat mx - unat start) mod unat mx < unat interval"
proof -
  have lt: "unat start < unat mx" "unat val < unat mx"
    using assms by (simp_all add: word_less_nat_alt)
  show ?thesis
  proof (cases "start > val")
    case True
    then have v: "unat val < unat start" by (simp add: word_less_nat_alt)
    have "unat (mx - start) = unat mx - unat start"
      using lt by (simp add: unat_sub word_le_nat_alt)
    moreover have "unat (mx - start) + unat val < 2 ^ LENGTH(32)"
      using calculation v lt unsigned_less [of mx, where 'a = nat] by simp
    then have "unat ((mx - start) + val) = unat (mx - start) + unat val"
      by (simp add: unat_add_lem [symmetric])
    ultimately show ?thesis
      using True v lt by (simp add: check_in_range_def word_less_nat_alt add.commute)
  next
    case False
    then have "start \<le> val" by simp
    then have v: "unat start \<le> unat val" by (simp add: word_le_nat_alt)
    then have "unat (val - start) = unat val - unat start"
      by (simp add: unat_sub word_le_nat_alt)
    moreover have "(unat val + unat mx - unat start) mod unat mx = unat val - unat start"
      using v lt by (simp add: mod_if)
    ultimately show ?thesis using False by (simp add: check_in_range_def word_less_nat_alt)
  qed
qed

theorem check_in_range_modular_witness:
  "check_in_range 48 2 19 50 \<longleftrightarrow> (unat (2 :: u32) + unat (50 :: u32) - unat (48 :: u32)) mod unat (50 :: u32) < unat (19 :: u32)"
  by (rule check_in_range_modular) simp_all

section \<open>Statistics of prefixes\<close>

text \<open>
  The table after the interests \<open>ps\<close>: one row per prefix, in the order of first
  appearance, with the number of interests; the remaining rows are empty.
\<close>

definition pfx_rows :: "char list \<Rightarrow> char list \<Rightarrow> nat \<Rightarrow> (char \<times> u32) list" where
  "pfx_rows ds ps k = map (\<lambda>c. (c, of_nat (count_list ps c))) ds @ replicate k (CHR 0x00, 0)"

lemma pfx_seen_known:
  assumes "p \<in> set ds" "distinct ds" "CHR 0x00 \<notin> set ds"
  shows "pfx_seen p (map (\<lambda>c. (c, of_nat (count_list ps c))) ds @ r) =
    map (\<lambda>c. (c, of_nat (count_list (ps @ [p]) c))) ds @ r"
  using assms by (induction ds) (auto simp: map_eq_conv)

lemma pfx_seen_new:
  assumes "p \<notin> set ds" "CHR 0x00 \<notin> set ds"
  shows "pfx_seen p (map (\<lambda>c. (c, of_nat (count_list ps c))) ds @ r) =
    map (\<lambda>c. (c, of_nat (count_list (ps @ [p]) c))) ds @ pfx_seen p r"
  using assms by (induction ds) auto

lemma pfx_table:
  assumes "CHR 0x00 \<notin> set ps" "card (set ps) \<le> n"
  shows "\<exists>ds. distinct ds \<and> set ds = set ps \<and>
    foldl (\<lambda>t p. pfx_seen p t) (replicate n (CHR 0x00, 0)) ps = pfx_rows ds ps (n - length ds)"
  using assms
proof (induction ps rule: rev_induct)
  case Nil
  then show ?case by (simp add: pfx_rows_def)
next
  case (snoc p ps)
  have "card (set ps) \<le> card (set (ps @ [p]))" by (rule card_mono) auto
  with snoc obtain ds where ds: "distinct ds" "set ds = set ps"
    "foldl (\<lambda>t p. pfx_seen p t) (replicate n (CHR 0x00, 0)) ps = pfx_rows ds ps (n - length ds)"
    by auto
  show ?case
  proof (cases "p \<in> set ps")
    case True
    with ds snoc.prems(1) have "pfx_seen p (pfx_rows ds ps (n - length ds)) =
        pfx_rows ds (ps @ [p]) (n - length ds)"
      unfolding pfx_rows_def by (intro pfx_seen_known) auto
    with True ds show ?thesis by (intro exI [of _ ds]) auto
  next
    case False
    have l: "length ds = card (set ps)" using ds(1,2) distinct_card by metis
    with False snoc.prems(2) have "length ds < n" by simp
    then obtain k where k: "n - length ds = Suc k" by (metis Suc_diff_Suc)
    have "count_list ps p = 0" using False by simp
    with False ds snoc.prems(1) k have "pfx_seen p (pfx_rows ds ps (n - length ds)) =
        pfx_rows (ds @ [p]) (ps @ [p]) (n - length (ds @ [p]))"
      by (simp add: pfx_rows_def pfx_seen_new)
    with False ds show ?thesis by (intro exI [of _ "ds @ [p]"]) auto
  qed
qed

lemma under_represented_rows:
  assumes "CHR 0x00 \<notin> set ds" "distinct ds"
  shows "pfx_under_represented p (pfx_rows ds ps k) \<longleftrightarrow>
    p \<in> set ds \<and> unat (of_nat (count_list ps p) :: u32) < DOW_APMDMR_MIN_INT"
proof -
  have "pfx_under_represented p (replicate k (CHR 0x00, 0)) = False" by (cases k) auto
  then show ?thesis
    unfolding pfx_rows_def using assms by (induction ds) auto
qed

text \<open>
  Under-represented prefixes: after interests for at most ten different prefixes were
  seen since start, a prefix counts as under-represented exactly if it was seen, but fewer
  than three times.
\<close>

theorem under_represented_iff_seen_rarely:
  assumes "dow_pfx_pres s = replicate DOW_MAX_PREFIXES (CHR 0x00, 0)"
    and "CHR 0x00 \<notin> set ps" "card (set ps) \<le> DOW_MAX_PREFIXES" "length ps < 2 ^ 32"
  shows "ccnl_helper_prefix_under_represented p
      (foldl (\<lambda>s p. prefix_seen_interest p s) s ps) \<longleftrightarrow>
    0 < count_list ps p \<and> count_list ps p < 3"
proof -
  have t: "dow_pfx_pres (foldl (\<lambda>s p. prefix_seen_interest p s) s ps) =
      foldl (\<lambda>t p. pfx_seen p t) (dow_pfx_pres s) ps" for s
    by (induction ps arbitrary: s) (simp_all add: prefix_seen_interest_def)
  obtain ds where ds: "distinct ds" "set ds = set ps"
    "foldl (\<lambda>t p. pfx_seen p t) (dow_pfx_pres s) ps = pfx_rows ds ps (DOW_MAX_PREFIXES - length ds)"
    using pfx_table [OF assms(2,3)] assms(1) by auto
  have "count_list ps p < 2 ^ 32" using count_le_length [of ps p] assms(4) by linarith
  then have "unat (of_nat (count_list ps p) :: u32) = count_list ps p"
    by (simp add: unat_of_nat)
  moreover have "p \<in> set ps \<longleftrightarrow> 0 < count_list ps p"
    using count_list_0_iff [of ps p] by (metis neq0_conv)
  ultimately show ?thesis
    using ds assms(2)
    by (simp add: ccnl_helper_prefix_under_represented_def t under_represented_rows
        DOW_APMDMR_MIN_INT_def)
qed

theorem under_represented_iff_seen_rarely_witness:
  "ccnl_helper_prefix_under_represented CHR ''b''
     (foldl (\<lambda>s p. prefix_seen_interest p s) ex_node ''abacaa'')"
proof -
  have "dow_pfx_pres ex_node = replicate DOW_MAX_PREFIXES (CHR 0x00, 0)"
    by (simp add: ex_node_def DOW_MAX_PREFIXES_def)
  moreover have "CHR 0x00 \<notin> set ''abacaa''" "length ''abacaa'' < 2 ^ 32" by simp_all
  moreover have "card (set ''abacaa'') \<le> DOW_MAX_PREFIXES"
    by (simp add: DOW_MAX_PREFIXES_def card_insert_if)
  ultimately show ?thesis by (subst under_represented_iff_seen_rarely) simp_all
qed

section \<open>Building content\<close>

definition broadcasts :: "config \<Rightarrow> pkt \<Rightarrow> effect list" where
  "broadcasts cfg p = concat (replicate (DOW_BC_COUNT cfg)
     (Chunk_broadcast p # (if DOW_BC_COUNT cfg > 1 then [Slept 20000] else [])))"

lemma emit_trace [simp]: "trace (emit e s) = trace s @ [e]"
  by (simp add: emit_def trace_def)

lemma broadcast_loop_trace:
  "trace (broadcast_loop cfg n p s) = trace s @ concat (replicate n
     (Chunk_broadcast p # (if DOW_BC_COUNT cfg > 1 then [Slept 20000] else [])))"
  by (induction n arbitrary: s) (simp_all add: Let_def)

lemma create_cont_trace:
  assumes "ccnl_helper_create_cont cfg X p v cache send s = Inr (c, s')"
  shows "(length v > 9 \<longrightarrow> c = None \<and> s' = s) \<and>
    trace s' = trace s @ (case c of None \<Rightarrow> [] | Some c \<Rightarrow>
       (if send then broadcasts cfg (c_pkt c) else []) @
       (if cache then [Chunk_looped_back (c_pkt c), Packet_freed (c_pkt c), Content_freed (c_addr c)]
        else []))"
proof -
  have n: "trace (snd (content_new X pk s)) = trace s" for pk
    by (simp add: content_new_def trace_def)
  show ?thesis
  proof (cases "length v > DOW_CONT_LEN + 1 \<or> \<not> dehead_is_data X (prepend_content X p (dow_content v))
      \<or> data_bytes2pkt X (prepend_content X p (dow_content v)) = None")
    case True
    then show ?thesis
      using assms by (auto simp: ccnl_helper_create_cont_def Let_def split: if_splits)
  next
    case False
    then obtain pk where pk: "data_bytes2pkt X (prepend_content X p (dow_content v)) = Some pk" by auto
    obtain co s1 where cn: "content_new X pk s = (co, s1)" by (cases "content_new X pk s")
    with n [of pk] have "trace s1 = trace s" by simp
    then show ?thesis
      using assms False pk cn
      by (cases co; cases send; cases cache)
        (auto simp: ccnl_helper_create_cont_def broadcast_loop_trace broadcasts_def
          DOW_CONT_LEN_def)
  qed
qed

text \<open>
  What \<^verbatim>\<open>ccnl_helper_create_cont\<close> does outside: without a chunk it sends nothing. With
  one, and only if asked to, it broadcasts it \<^verbatim>\<open>DOW_BC_COUNT\<close> times, and sends it back to
  the node itself and then frees packet and chunk once each (the pointer it returns is
  dangling then). A value of more than nine bytes never makes a chunk.
\<close>

theorem create_cont_effects:
  assumes "ccnl_helper_create_cont cfg X p v cache send s = Inr (c, s')"
  shows "(length v > 9 \<longrightarrow> c = None \<and> s' = s) \<and>
    trace s' = trace s @ (case c of None \<Rightarrow> [] | Some c \<Rightarrow>
       (if send then broadcasts cfg (c_pkt c) else []) @
       (if cache then [Chunk_looped_back (c_pkt c), Packet_freed (c_pkt c), Content_freed (c_addr c)]
        else []))"
  using assms by (rule create_cont_trace)

theorem create_cont_effects_witness:
  "\<exists>c s'. ccnl_helper_create_cont caching_cfg ex_ext \<lparr>comp = [''t''], chunknum = None\<rparr>
     ''00000010'' True True ex_node = Inr (Some c, s') \<and>
   trace s' = broadcasts caching_cfg (c_pkt c) @
     [Chunk_looped_back (c_pkt c), Packet_freed (c_pkt c), Content_freed (c_addr c)]"
proof -
  obtain c s' where r: "ccnl_helper_create_cont caching_cfg ex_ext \<lparr>comp = [''t''], chunknum = None\<rparr>
     ''00000010'' True True ex_node = Inr (Some c, s')"
    by (simp add: ccnl_helper_create_cont_def content_new_def ex_simps Let_def DOW_CONT_LEN_def)
  have "trace ex_node = []" by (simp add: trace_def ex_node_def)
  with create_cont_effects [OF r] r show ?thesis by simp
qed

end
