(* ===== verification/Dow_System.thy ===== *)
theory Dow_System
  imports Dow_Shell Ccnl_Flags_Props
begin

text \<open>
  The node as a whole: the caching manager, the two callbacks and the shell's stop command
  share one state, and every event runs to its end. (This is an assumption of the model; \<^verbatim>\<open>dow.c\<close>
  takes no lock around them.) What holds for the node is proved here: the accounting of time, which
  states it can be in, and that it stops for good.
\<close>

section \<open>Events\<close>

datatype event = Message msg | Content int pkt | Interest int pkt | Stop

definition node_step :: "config \<Rightarrow> ext \<Rightarrow> node \<Rightarrow> event \<Rightarrow> fault + node" where
  "node_step cfg X s e = (case e of
     Message m \<Rightarrow> loop_step cfg X s m
   | Content from p \<Rightarrow> and_then (ccnlriot_consumer cfg X from p s) (\<lambda>(_, s). Inr s)
   | Interest from p \<Rightarrow> and_then (ccnlriot_producer cfg X from p s) (\<lambda>(_, _, s). Inr s)
   | Stop \<Rightarrow> Inr (snd (stop_dow s)))"

text \<open>
  What the code relies on in CCN-lite: adding to the store changes the relay only, apart
  from what the strategy it calls changes.
\<close>

definition adds_to_relay_only :: "ext \<Rightarrow> bool" where
  "adds_to_relay_only X \<longleftrightarrow> (\<forall>P st s c ok s'.
     (\<forall>s r. P (s\<lparr>ccnl_relay := r\<rparr>) = P s) \<longrightarrow>
     (\<forall>f. st = Some f \<longrightarrow> (\<forall>s c r s'. P s \<longrightarrow> f s c = Inr (r, s') \<longrightarrow> P s')) \<longrightarrow>
     P s \<longrightarrow> add2cache X st s c = Inr (ok, s') \<longrightarrow> P s')"

section \<open>What the operations leave alone\<close>

text \<open>
  A view of the node that no operation outside \<^verbatim>\<open>dow.c\<close> changes: everything but the store,
  the environment and the counters of the helper. A predicate on the state and the
  accounting fields is a predicate on the view.
\<close>

definition view :: "node \<Rightarrow> dow_state_t \<times> u32 \<times> u32 \<times> bool \<times> u32 \<times> u32" where
  "view s = (dow_state s, dow_time_active s, dow_time_sleeping s, dow_sleeping s,
     dow_ts_wakeup s, dow_ts_sleep s)"

lemma view_updates [simp, frame_simps]:
  "view (s\<lparr>ccnl_relay := r\<rparr>) = view s" "view (s\<lparr>env := e\<rparr>) = view s"
  "view (s\<lparr>dow_my_prefix_interest_count := i\<rparr>) = view s" "view (s\<lparr>dow_prevent_sleep := v\<rparr>) = view s"
  "view (s\<lparr>dow_period_counter := c\<rparr>) = view s" "view (s\<lparr>all_pfx := p\<rparr>) = view s"
  "view (s\<lparr>my_pfx := p\<rparr>) = view s" "view (s\<lparr>flagged_cache := f\<rparr>) = view s"
  "view (s\<lparr>first_time_full := b\<rparr>) = view s" "view (s\<lparr>dow_pfx_pres := t\<rparr>) = view s"
  "view (s\<lparr>dow_prio_cache_cnt := pc\<rparr>) = view s" "view (s\<lparr>last_deputy_ts := ts\<rparr>) = view s"
  "view (s\<lparr>sleep_period := sp\<rparr>) = view s" "view (s\<lparr>dow_phase_counter := ph\<rparr>) = view s"
  "view (s\<lparr>old_data := od\<rparr>) = view s" "view (s\<lparr>send_old_data := so\<rparr>) = view s"
  "view (s\<lparr>dow_registered_prefix := rp\<rparr>) = view s" "view (s\<lparr>dow_is_registered := ir\<rparr>) = view s"
  by (simp_all add: view_def)

lemma view_emit [simp, frame_simps]: "view (emit e s) = view s"
  by (simp add: emit_def)

lemma view_set_contents [simp, frame_simps]: "view (set_contents cs s) = view s"
  by (simp add: set_contents_def)

lemma view_reads [simp, frame_simps]:
  "view (snd (xtimer_now X s)) = view s" "view (snd (random_uint32 X s)) = view s"
  "view (snd (msg_receive X s)) = view s" "view (snd (radio_get X s)) = view s"
  "view (radio_set X st s) = view s" "view (snd (content_new X p s)) = view s"
  "view (snd (dow_go_sleep X s)) = view s" "view (snd (dow_do_cache X s)) = view s"
  "view (snd (dow_event_period_jitter X s)) = view s"
  by (simp_all add: xtimer_now_def random_uint32_def msg_receive_def radio_get_def radio_set_def
      content_new_def dow_go_sleep_def dow_do_cache_def dow_event_period_jitter_def Let_def)

lemma view_read_eqs:
  "xtimer_now X s = (t, s') \<Longrightarrow> view s' = view s" "random_uint32 X s = (t, s') \<Longrightarrow> view s' = view s"
  "msg_receive X s = (m, s') \<Longrightarrow> view s' = view s" "radio_get X s = (st, s') \<Longrightarrow> view s' = view s"
  "content_new X p s = (co, s') \<Longrightarrow> view s' = view s" "dow_go_sleep X s = (b, s') \<Longrightarrow> view s' = view s"
  "dow_do_cache X s = (b, s') \<Longrightarrow> view s' = view s"
  "dow_event_period_jitter X s = (t, s') \<Longrightarrow> view s' = view s"
  using view_reads(1,2,3,4,6-9) by (metis snd_conv)+

lemma view_random_chunk [frame_simps]: "dow_random_chunk X s = Inr (i, s') \<Longrightarrow> view s' = view s"
  by (auto simp: dow_random_chunk_def random_uint32_def Let_def split: if_splits)

lemma view_store [simp, frame_simps]:
  "view (ccnl_helper_reset s) = view s" "view (prefix_seen_interest p s) = view s"
  "view (snd (unflag_cs src s)) = view s" "view (ccnl_helper_clear_pit_for_own s) = view s"
  by (simp_all add: ccnl_helper_reset_def prefix_seen_interest_def unflag_cs_def Let_def
      ccnl_helper_clear_pit_for_own_def split: prod.splits)

lemma view_subsribe: "ccnl_helper_subsribe X c s = Inr s' \<Longrightarrow> view s' = view s"
  by (auto simp: ccnl_helper_subsribe_def and_then_eq_Inr)

lemma view_broadcast [simp]: "view (broadcast_loop cfg n p s) = view s"
  by (induction n arbitrary: s) (simp_all add: Let_def)

lemma view_publish [simp]: "view (ccnl_helper_publish_content cfg s) = view s"
proof -
  have "view (publish_loop cs s) = view s" for cs
    by (induction cs arbitrary: s) simp_all
  then show ?thesis by (simp add: ccnl_helper_publish_content_def Let_def)
qed

lemma view_create_cont:
  assumes "ccnl_helper_create_cont cfg X p v cache send s = Inr (c, s')"
  shows "view s' = view s"
proof -
  have n: "view s1 = view s" if "content_new X pk s = (co, s1)" for pk co s1
    using view_reads(6) [of X pk s] that by simp
  show ?thesis
    using assms by (auto simp: ccnl_helper_create_cont_def Let_def and_then_eq_Inr n
        split: if_splits option.splits prod.splits)
qed

lemma view_send_ack: "send_ack cfg X from p n s = Inr s' \<Longrightarrow> view s' = view s"
  by (auto simp: send_ack_def and_then_eq_Inr split: option.splits)
    (drule view_create_cont, simp)+

lemma view_remove_pit: "remove_pit X n s = Inr s' \<Longrightarrow> view s' = view s"
  by (auto simp: remove_pit_def and_then_eq_Inr)

lemma view_cs_remove [simp]: "view (cs_remove X v n s) = view s"
  by (simp add: cs_remove_def Let_def set_lock_def)

lemma view_cs_oldest: "cs_oldest_representative X s c = Inr (r, s') \<Longrightarrow> view s' = view s"
  by (drule cs_oldest_result) (auto simp: after_reset_def)

lemma adds_to_relay_onlyD:
  assumes "adds_to_relay_only X" "\<And>s r. P (s\<lparr>ccnl_relay := r\<rparr>) = P s"
    and "\<And>f s c r s'. st = Some f \<Longrightarrow> P s \<Longrightarrow> f s c = Inr (r, s') \<Longrightarrow> P s'"
    and "P s" "add2cache X st s c = Inr (ok, s')"
  shows "P s'"
  by (rule assms(1) [unfolded adds_to_relay_only_def, rule_format, of P st s c ok s'])
    (use assms(2-5) in auto)

lemma view_add2cache:
  assumes "adds_to_relay_only X" "add2cache X (cache_strategy cfg X) s c = Inr (ok, s')"
  shows "view s' = view s"
proof (rule adds_to_relay_onlyD [where P = "\<lambda>t. view t = view s", OF assms(1) _ _ _ assms(2)])
  show "view s' = view s"
    if "cache_strategy cfg X = Some f" "view t = view s" "f t c = Inr (r, s')" for f t c r s'
    using that by (auto simp: cache_strategy_def dest: view_cs_oldest split: if_splits)
qed simp_all

lemma view_handle_flags [simp]: "view (snd (handle_flags cfg X c ts s)) = view s"
proof -
  obtain pre n post u where
    "newer_scan X (pfx (c_pkt c)) ts (contents (ccnl_relay s)) removed_nothing = (pre, n, post, u)"
    using prod_cases4 by blast
  then show ?thesis by (cases n) (simp_all add: handle_flags_def Let_def)
qed

lemma view_handle_content:
  assumes "adds_to_relay_only X" "handle_content cfg X p s = Inr (b, s')"
  shows "view s' = view s"
proof -
  obtain co s1 where cn: "content_new X p s = (co, s1)" by (cases "content_new X p s")
  then have v1: "view s1 = view s" using view_reads(6) [of X p s] by simp
  show ?thesis
  proof (cases co)
    case None
    with assms(2) cn v1 show ?thesis by (simp add: handle_content_def)
  next
    case (Some c)
    let ?s2 = "s1\<lparr>ccnl_relay := serve_pending X (ccnl_relay s1) c\<rparr>"
    from assms(2) cn Some obtain t3 where t3: "nth_res (comp (pfx (c_pkt c))) 3 = Inr t3"
      by (auto simp: handle_content_def and_then_eq_Inr)
    obtain c' s3 where h: "handle_flags cfg X c (strtol16 t3) ?s2 = (c', s3)"
      by (cases "handle_flags cfg X c (strtol16 t3) ?s2")
    with view_handle_flags [of cfg X c "strtol16 t3" ?s2] v1 have v3: "view s3 = view s" by simp
    show ?thesis
      using assms(2) cn Some t3 h v3 view_add2cache [OF assms(1)]
      by (auto simp: handle_content_def and_then_eq_Inr Let_def split: if_splits)
  qed
qed

lemma view_wait_loop:
  "wait_loop X fuel n w now rem buf s = Inr (res, buf', s') \<Longrightarrow> view s' = view s"
proof (induction fuel arbitrary: rem buf s w)
  case (Suc fuel)
  obtain t s1 where t: "xtimer_now X s = (t, s1)" by (cases "xtimer_now X s")
  define s2 where "s2 = emit (Timer_set Wait_timer (rem - (t - now)) CCNL_MSG_TIMEOUT)
    (emit (Timer_remove Wait_timer) s1)"
  obtain m s3 where m: "msg_receive X s2 = (m, s3)" by (cases "msg_receive X s2")
  have v: "view s1 = view s" "view s3 = view s"
    using view_read_eqs(1) [OF t] view_read_eqs(3) [OF m] by (simp_all add: s2_def)
  show ?case
    using Suc.prems t m v
    by (auto simp: Let_def s2_def [symmetric] split: if_splits mtype.splits payload.splits dest!: Suc.IH)
qed simp

lemma view_wait_for_chunk: "wait_for_chunk X buf n w s = Inr (res, buf', s') \<Longrightarrow> view s' = view s"
  using view_reads(1) [of X s]
  by (cases "xtimer_now X s") (auto simp: wait_for_chunk_def Let_def dest!: view_wait_loop)

lemma view_write_chunknum: "write_chunknum r cn s = Inr (r', s') \<Longrightarrow> view s' = view s"
  by (cases r) (auto simp: write_chunknum_def and_then_eq_Inr split: option.splits)

lemma view_int_loop: "int_loop X n r cn w buf s = Inr (res, buf', s') \<Longrightarrow> view s' = view s"
proof (induction n arbitrary: r buf s)
  case (Suc n)
  then show ?case
    by (auto simp: Let_def and_then_eq_Inr split: if_splits
        dest!: view_write_chunknum view_wait_for_chunk Suc.IH)
qed simp

lemma view_helper_int: "ccnl_helper_int X r cn w s = Inr (res, s') \<Longrightarrow> view s' = view s"
  by (auto simp: ccnl_helper_int_def and_then_eq_Inr split: if_splits dest!: view_int_loop)

lemma view_interests_loop: "interests_loop X r n cn s = Inr s' \<Longrightarrow> view s' = view s"
  by (induction n arbitrary: cn s) (auto simp: and_then_eq_Inr split: if_splits dest!: view_helper_int)

lemma view_send_interests: "send_interests cfg X s = Inr s' \<Longrightarrow> view s' = view s"
  by (simp add: send_interests_def view_interests_loop)

lemma view_takeover_loop: "takeover_loop X n cn s = Inr s' \<Longrightarrow> view s' = view s"
  by (induction n arbitrary: cn s) (auto simp: and_then_eq_Inr split: if_splits dest!: view_helper_int)

lemma state_of_view: "view s' = view s \<Longrightarrow> dow_state s' = dow_state s"
  by (simp add: view_def)

lemma state_emit [simp]: "dow_state (emit e s) = dow_state s"
  by (simp add: emit_def)

lemma state_dow_wakeup:
  assumes "dow_wakeup cfg X s = Inr s'"
  shows "dow_state s' = dow_state s"
proof -
  define s1 where "s1 = (if dow_sleeping s then
      (let (t, s) = xtimer_now X s
       in s\<lparr>dow_ts_wakeup := t, dow_time_sleeping := dow_time_sleeping s + (t - dow_ts_sleep s),
            dow_sleeping := False\<rparr>) else s)"
  have "dow_state s1 = dow_state s" by (auto simp: s1_def xtimer_now_def)
  then show ?thesis
    using assms
    by (cases "radio_get X s1")
      (auto simp: dow_wakeup_def Let_def s1_def [symmetric]
        dest!: view_read_eqs(4) view_send_interests state_of_view split: option.splits if_splits
        simp: radio_set_def)
qed

section \<open>The abstract machine of time and states\<close>

text \<open>
  What a node does to its view, abstractly: it falls asleep at some time and books the time
  since it woke up, it wakes up and books the time since it fell asleep, or it changes its
  state, to a hand-over only with deputies.
\<close>

inductive tstep ::
  "bool \<Rightarrow> dow_state_t \<times> u32 \<times> u32 \<times> bool \<times> u32 \<times> u32 \<Rightarrow> dow_state_t \<times> u32 \<times> u32 \<times> bool \<times> u32 \<times> u32 \<Rightarrow> bool"
  for deputy where
  fall_asleep: "tstep deputy (st, a, z, False, w, l) (st, a + (t - w), z, True, w, t)"
| wake_up: "tstep deputy (st, a, z, True, w, l) (st, a, z + (t - l), False, t, l)"
| new_state: "(st' = DOW_STATE_HANDOVER \<Longrightarrow> deputy) \<Longrightarrow> tstep deputy (st, a, z, b, w, l) (st', a, z, b, w, l)"

inductive_simps tstep_from: "tstep deputy (st, a, z, b, w, l) v'"

definition moves :: "config \<Rightarrow> node \<Rightarrow> node \<Rightarrow> bool" where
  "moves cfg s s' \<longleftrightarrow> (tstep (DOW_DEPUTY cfg))\<^sup>*\<^sup>* (view s) (view s')"

lemma moves_view: "view s' = view s \<Longrightarrow> moves cfg s s'"
  by (simp add: moves_def)

lemma moves_trans [trans]: "moves cfg s t \<Longrightarrow> moves cfg t u \<Longrightarrow> moves cfg s u"
  by (auto simp: moves_def)

lemma moves_cong: "view s' = view t' \<Longrightarrow> view s = view t \<Longrightarrow> moves cfg s s' = moves cfg t t'"
  by (simp add: moves_def)

lemma moves_state: "(st = DOW_STATE_HANDOVER \<Longrightarrow> DOW_DEPUTY cfg) \<Longrightarrow> moves cfg s (s\<lparr>dow_state := st\<rparr>)"
  by (auto simp: moves_def view_def intro!: r_into_rtranclp new_state)

lemma moves_radio_sleep_now: "moves cfg s (radio_sleep_now X s)"
proof -
  define s1 where "s1 = (if \<not> dow_sleeping s then
      (let (t, s) = xtimer_now X s
       in s\<lparr>dow_ts_sleep := t, dow_time_active := dow_time_active s + (t - dow_ts_wakeup s),
            dow_sleeping := True\<rparr>) else s)"
  have "moves cfg s s1"
    by (auto simp: s1_def moves_def view_def xtimer_now_def intro!: r_into_rtranclp fall_asleep)
  moreover have "view (radio_sleep_now X s) = view s1"
    using view_reads(4) [of X s1]
    by (cases "radio_get X s1")
      (auto simp: radio_sleep_now_def Let_def s1_def [symmetric] retry_sleep_def
        split: option.splits netopt_state.splits)
  ultimately show ?thesis by (simp add: moves_def)
qed

lemma moves_radio_sleep: "moves cfg s (radio_sleep cfg X s)"
proof -
  have "moves cfg s (radio_sleep_now X (s\<lparr>dow_prevent_sleep := 0\<rparr>))"
    using moves_radio_sleep_now [of cfg "s\<lparr>dow_prevent_sleep := 0\<rparr>" X] by (simp add: moves_def)
  then show ?thesis
    by (simp add: radio_sleep_def moves_radio_sleep_now) (simp add: moves_def retry_sleep_def)
qed

lemma moves_dow_sleep: "moves cfg s (dow_sleep cfg X n s)"
proof -
  let ?s1 = "(emit Clear_pit_but_own s)\<lparr>dow_state := DOW_STATE_INACTIVE\<rparr>"
  have "moves cfg s ?s1"
    using moves_state [of DOW_STATE_INACTIVE cfg "emit Clear_pit_but_own s"] by (simp add: moves_def)
  also have "moves cfg ?s1 (radio_sleep cfg X ?s1)" by (rule moves_radio_sleep)
  also have "moves cfg (radio_sleep cfg X ?s1) (dow_sleep cfg X n s)"
    by (intro moves_view) (simp add: dow_sleep_def Let_def dow_second_timer_def)
  finally show ?thesis .
qed

lemma moves_dow_wakeup:
  assumes "dow_wakeup cfg X s = Inr s'"
  shows "moves cfg s s'"
proof -
  define s1 where "s1 = (if dow_sleeping s then
      (let (t, s) = xtimer_now X s
       in s\<lparr>dow_ts_wakeup := t, dow_time_sleeping := dow_time_sleeping s + (t - dow_ts_sleep s),
            dow_sleeping := False\<rparr>) else s)"
  have "moves cfg s s1"
    by (auto simp: s1_def moves_def view_def xtimer_now_def intro!: r_into_rtranclp wake_up)
  also have "moves cfg s1 s'"
  proof (rule moves_view)
    obtain st s2 where r: "radio_get X s1 = (st, s2)" by (cases "radio_get X s1")
    with view_reads(4) [of X s1] have "view s2 = view s1" by simp
    with assms r show "view s' = view s1"
      by (auto simp: dow_wakeup_def Let_def s1_def [symmetric] split: option.splits if_splits
          dest!: view_send_interests)
  qed
  finally show ?thesis .
qed

lemma moves_dow_takeover:
  assumes "dow_takeover cfg X s = Inr s'"
  shows "moves cfg s s'"
proof -
  obtain t s1 where t: "xtimer_now X s = (t, s1)" by (cases "xtimer_now X s")
  let ?s2 = "(if DOW_INT_INT cfg then ccnl_helper_clear_pit_for_own (s1\<lparr>last_deputy_ts := t\<rparr>)
    else s1\<lparr>last_deputy_ts := t\<rparr>)"
  from assms t obtain s3 where s3: "dow_wakeup cfg X (?s2\<lparr>dow_state := DOW_STATE_DEPUTY\<rparr>) = Inr s3"
    "takeover_loop X (CCNLRIOT_CACHE_SIZE cfg + 2) 0 s3 = Inr s'"
    by (auto simp: dow_takeover_def Let_def and_then_eq_Inr)
  have "moves cfg s ?s2"
    using view_reads(1) [of X s] t by (intro moves_view) simp
  also have "moves cfg ?s2 (?s2\<lparr>dow_state := DOW_STATE_DEPUTY\<rparr>)" by (rule moves_state) simp
  also note moves_dow_wakeup [OF s3(1)]
  also have "moves cfg s3 s'" by (rule moves_view) (rule view_takeover_loop [OF s3(2)])
  finally show ?thesis .
qed

lemma view_beacon_id: "dow_beacon_id cfg X s = Inr s' \<Longrightarrow> view s' = view s"
  by (auto simp: dow_beacon_id_def Let_def and_then_eq_Inr split: option.splits dest!: view_create_cont)

lemma view_next_value: "next_value cfg X s = (d, o', s') \<Longrightarrow> view s' = view s"
  by (cases "xtimer_now X s") (auto simp: next_value_def dest!: view_read_eqs(1) split: if_splits)

lemma view_data_name: "data_name X v s = Inr (p, s') \<Longrightarrow> view s' = view s"
  by (cases "random_uint32 X s")
    (auto simp: data_name_def Let_def and_then_eq_Inr dest!: view_read_eqs(2) split: if_splits)

lemma view_new_data:
  assumes "dow_new_data cfg X s = Inr s'"
  shows "view s' = view s"
proof (cases "dow_state s = DOW_STATE_HANDOVER")
  case True
  with assms show ?thesis by (auto simp: dow_new_data_def)
next
  case False
  obtain d so s1 where n: "next_value cfg X s = (d, so, s1)" by (cases "next_value cfg X s")
  from assms False n obtain p s2 where d: "data_name X (hex8 d) s1 = Inr (p, s2)"
    by (auto simp: dow_new_data_def Let_def and_then_eq_Inr)
  define s3 where "s3 = (if \<not> so then emit (New_data_printed p) s2 else s2)"
  obtain off s4 where j: "dow_event_period_jitter X s3 = (off, s4)"
    by (cases "dow_event_period_jitter X s3")
  have "view s4 = view s"
    using view_read_eqs(8) [OF j] view_data_name [OF d] view_next_value [OF n] by (simp add: s3_def)
  then show ?thesis
    using assms False n d j
    by (auto simp: dow_new_data_def Let_def and_then_eq_Inr s3_def [symmetric]
        dest!: view_create_cont split: option.splits if_splits)
qed

lemma moves_populate_data:
  assumes "populate_data cfg X p s = Inr s'"
  shows "moves cfg s s'"
proof -
  from assms obtain s1 r where "dow_wakeup cfg X s = Inr s1"
    "ccnl_helper_int X (Own_pfx p) None True s1 = Inr (r, s')"
    by (auto simp: populate_data_def and_then_eq_Inr)
  from moves_dow_wakeup [OF this(1)] moves_view [OF view_helper_int [OF this(2)]]
  show ?thesis by (rule moves_trans)
qed

lemma view_reconsider_prefix:
  assumes "reconsider_prefix cfg X s = Inr s'"
  shows "view s' = view s"
  using assms
  by (auto simp: reconsider_prefix_def Let_def and_then_eq_Inr split: if_splits option.splits
      dest!: view_send_interests view_subsribe)

lemma moves_period_over_inactive:
  assumes "period_over_inactive cfg X s = Inr s'"
  shows "moves cfg s s'"
proof -
  obtain sl s1 where g: "dow_go_sleep X s = (sl, s1)" by (cases "dow_go_sleep X s")
  have v1: "moves cfg s s1" by (rule moves_view) (rule view_read_eqs(6) [OF g])
  from assms g obtain s2 where s2: "(if sl then Inr s1 else
      and_then (dow_beacon_id cfg X (s1\<lparr>dow_state := DOW_STATE_DEPUTY\<rparr>))
        (\<lambda>s. dow_wakeup cfg X (ccnl_helper_reset s))) = Inr s2"
    and v: "view s' = view s2"
    unfolding period_over_inactive_def Let_def
    by (auto simp: and_then_eq_Inr dow_second_timer_def if_distrib [of view])
  have "moves cfg s1 s2"
  proof (cases sl)
    case True
    with s2 show ?thesis by (simp add: moves_view)
  next
    case False
    with s2 obtain s3 where s3: "dow_beacon_id cfg X (s1\<lparr>dow_state := DOW_STATE_DEPUTY\<rparr>) = Inr s3"
      "dow_wakeup cfg X (ccnl_helper_reset s3) = Inr s2"
      by (auto simp: and_then_eq_Inr)
    have "moves cfg s1 (s1\<lparr>dow_state := DOW_STATE_DEPUTY\<rparr>)" by (rule moves_state) simp
    also have "moves cfg \<dots> (ccnl_helper_reset s3)"
      using view_beacon_id [OF s3(1)] by (intro moves_view) simp
    also note moves_dow_wakeup [OF s3(2)]
    finally show ?thesis .
  qed
  with v1 v show ?thesis by (metis moves_trans moves_view)
qed

lemma moves_period_over_active: "moves cfg s (period_over_active cfg X s)"
proof -
  define f where "f = (DOW_KEEP_ALIVE_PFX cfg \<and>
      unat (dow_my_prefix_interest_count s) < DOW_KEEP_ALIVE_MIN_THR cfg)"
  define s1 where "s1 = (if DOW_KEEP_ALIVE_PFX cfg then s\<lparr>dow_my_prefix_interest_count := 0\<rparr> else s)"
  obtain sl s2 where g: "(if f then (False, s1) else dow_go_sleep X s1) = (sl, s2)" by force
  have v: "view s2 = view s"
    using g view_read_eqs(6) [of X s1] by (auto simp: s1_def split: if_splits)
  have e: "period_over_active cfg X s =
      (if sl then dow_sleep cfg X (of_nat (DOW_XD cfg)) (s2\<lparr>dow_state := DOW_STATE_INACTIVE\<rparr>)
       else dow_second_timer (s2\<lparr>dow_period_counter := of_nat (if f then DOW_D cfg else DOW_XD cfg)\<rparr>))"
    using g by (simp add: period_over_active_def Let_def f_def [symmetric] s1_def [symmetric] cong: if_cong)
  have "moves cfg s s2" using v by (rule moves_view)
  also have "moves cfg s2 (s2\<lparr>dow_state := DOW_STATE_INACTIVE\<rparr>)" by (rule moves_state) simp
  finally have a: "moves cfg s (s2\<lparr>dow_state := DOW_STATE_INACTIVE\<rparr>)" .
  show ?thesis
  proof (cases sl)
    case True
    with moves_trans [OF a moves_dow_sleep] show ?thesis by (simp add: e)
  next
    case False
    with v show ?thesis by (simp add: e moves_view dow_second_timer_def)
  qed
qed

lemma moves_on_second:
  assumes "on_second cfg X s = Inr s'"
  shows "moves cfg s s'"
proof -
  define s0 where "s0 = (emit (Timer_remove Dow_timer) s)\<lparr>dow_period_counter := dow_period_counter s - 1\<rparr>"
  have s0': "(emit (Timer_remove Dow_timer) s)\<lparr>dow_period_counter :=
      dow_period_counter (emit (Timer_remove Dow_timer) s) - 1\<rparr> = s0"
    by (simp add: s0_def emit_def)
  from assms obtain s1 where r: "(if DOW_APMDMR cfg then reconsider_prefix cfg X s0 else Inr s0) = Inr s1"
    unfolding on_second_def Let_def s0' by (auto simp: and_then_eq_Inr)
  then have v1: "view s1 = view s"
    by (auto simp: s0_def split: if_splits dest!: view_reconsider_prefix)
  define s2 where "s2 = (if DOW_PSR cfg \<noteq> 0 \<and> unat (flagged_cache s1) + 1 \<ge> CCNLRIOT_CACHE_SIZE cfg
                 then ccnl_helper_publish_content cfg s1 else s1)"
  define s3 where "s3 = (if DOW_DEPUTY cfg then
                   (let (t, s) = xtimer_now X s2
                    in if t \<ge> last_deputy_ts s + sleep_period s * SEC_IN_USEC \<and> dow_period_counter s > 0
                       then s\<lparr>dow_period_counter := 0\<rparr> else s)
                 else s2)"
  have v3: "view s3 = view s"
    using v1 by (cases "xtimer_now X s2") (auto simp: s3_def s2_def dest: view_read_eqs(1))
  have "(if dow_period_counter s3 = 0 then
             (if DOW_DEPUTY cfg then dow_takeover cfg X s3
              else if dow_state s3 = DOW_STATE_INACTIVE then period_over_inactive cfg X s3
              else Inr (period_over_active cfg X s3))
           else Inr (dow_second_timer s3)) = Inr s'"
    using assms r unfolding on_second_def Let_def s0'
    by (simp only: and_then_Inr s2_def [symmetric] s3_def [unfolded Let_def, symmetric])
  then have "moves cfg s3 s'"
    by (auto simp: dow_second_timer_def moves_view moves_period_over_active split: if_splits
        intro: moves_dow_takeover moves_period_over_inactive)
  with moves_view [OF v3] show ?thesis by (rule moves_trans)
qed

lemma moves_loop_step:
  assumes "loop_step cfg X s m = Inr s'"
  shows "moves cfg s s'"
proof -
  have nd: "moves cfg s t" if nd: "on_newdata cfg X s = Inr t" for t
  proof -
    from nd obtain s1 where s1: "(if dow_is_source s then dow_new_data cfg X s else Inr s) = Inr s1"
      and t: "t = (if \<not> DOW_INT_INT cfg \<and> dow_state s1 = DOW_STATE_INACTIVE
            then radio_sleep cfg X (emit (Slept 5000) s1) else s1)"
      by (auto simp: on_newdata_def and_then_eq_Inr)
    have "view s1 = view s" using s1 by (auto split: if_splits dest: view_new_data)
    then have "moves cfg s (emit (Slept 5000) s1)" "moves cfg s s1" by (simp_all add: moves_view)
    with t show ?thesis by (auto intro: moves_trans moves_radio_sleep)
  qed
  have rc: "moves cfg s t" if rc: "on_received cfg X pl s = Inr t" for t pl
  proof -
    have "moves cfg s u" if "populate_data cfg X p (s\<lparr>dow_prevent_sleep := k\<rparr>) = Inr u" for p k u
      using moves_populate_data [OF that] by (simp add: moves_def)
    with rc show ?thesis
      by (auto simp: on_received_def and_then_eq_Inr split: if_splits payload.splits intro: moves_view)
        (simp_all add: moves_def)
  qed
  show ?thesis
    using assms nd rc
    by (auto simp: loop_step_def split: if_splits mtype.splits
        intro: moves_view moves_on_second moves_dow_takeover moves_radio_sleep moves_dow_sleep)
qed

lemma moves_consumer_own:
  assumes "adds_to_relay_only X" "consumer_own cfg X p s = Inr (r, s')"
  shows "view s' = view s"
proof -
  obtain co s1 where cn: "content_new X p s = (co, s1)" by (cases "content_new X p s")
  obtain u s2 where uf: "unflag_cs (hex8 (dow_my_id s)) s1 = (u, s2)" by (cases "unflag_cs (hex8 (dow_my_id s)) s1")
  have "view s2 = view s"
    using view_store(3) [of "hex8 (dow_my_id s)" s1] uf view_read_eqs(5) [OF cn] by simp
  then show ?thesis
    using assms(2) view_read_eqs(5) [OF cn] cn uf view_add2cache [OF assms(1)]
    by (fastforce simp: consumer_own_def Let_def and_then_eq_Inr split: if_splits option.splits)
qed

lemma view_wants_content: "wants_content X p s = Inr (w, s') \<Longrightarrow> view s' = view s"
  by (cases "dow_do_cache X s")
    (auto simp: wants_content_def and_then_eq_Inr split: if_splits dest: view_read_eqs(7))

lemma view_same_number [simp]: "view (same_number a s) = view s"
  by (simp add: same_number_def)

lemma view_consumer_deputy:
  assumes "adds_to_relay_only X" "consumer_deputy cfg X p s = Inr (r, s')"
  shows "view s' = view s"
  using assms(2) unfolding consumer_deputy_def
  by (auto simp: and_then_eq_Inr to_res_def split: if_splits
      dest!: view_wants_content view_handle_content [OF assms(1)])

lemma view_chunk_done: "view (snd (chunk_done num a r)) = view (snd r)"
  by (simp add: chunk_done_def Let_def)

lemma view_consumer_deputy_per:
  assumes "adds_to_relay_only X" "consumer_deputy_per cfg X d p s = Inr (r, s')"
  shows "view s' = view s"
proof -
  have c: "view s' = view t" if "(r, s') = chunk_done num a (b, t)" for num a b t
    using view_chunk_done [of num a "(b, t)"] that by (metis snd_conv)
  define num where "num = cnum (content p)"
  show ?thesis
  proof (cases "contlen p = sizeof_dow_content")
    case True
    with assms(2) obtain s1 where s1: "(if num \<ge> 0 then remove_pit X num s else Inr s) = Inr s1"
      unfolding consumer_deputy_per_def Let_def num_def by (auto simp: and_then_eq_Inr)
    then have v1: "view s1 = view s" by (auto split: if_splits dest: view_remove_pit)
    have "\<exists>t. view t = view s1 \<and> (s' = t \<or> (\<exists>a b. (r, s') = chunk_done num a (b, t)))"
      using assms(2) True s1 unfolding consumer_deputy_per_def Let_def num_def [symmetric]
      by (simp add: and_then_eq_Inr split: if_splits)
        (metis (no_types, lifting) view_wants_content view_handle_content [OF assms(1)] surj_pair prod.inject)+
    with c v1 show ?thesis by metis
  next
    case False
    with assms(2) show ?thesis by (simp add: consumer_deputy_per_def)
  qed
qed

text \<open>A content leaves the view as it is, except that debugging makes the node deputy.\<close>

lemma view_consumer:
  assumes "adds_to_relay_only X" "ccnlriot_consumer cfg X from p s = Inr (r, s')"
  shows "view s' = view s \<or> DOW_DEBUG cfg \<and> view s' = view (s\<lparr>dow_state := DOW_STATE_DEPUTY\<rparr>)"
proof -
  define dup where "dup = (DOW_INT_INT cfg \<and> cont_is_dup X p s)"
  obtain found pit' where f: "(if DOW_INT_INT cfg \<and> \<not> dup
      then find_pending X from p (pit (ccnl_relay s)) else (False, pit (ccnl_relay s))) = (found, pit')"
    by force
  define s1 where "s1 = s\<lparr>ccnl_relay := (ccnl_relay s)\<lparr>pit := pit'\<rparr>\<rparr>"
  define s2 where "s2 = (if DOW_DEBUG cfg then s1\<lparr>dow_state := DOW_STATE_DEPUTY\<rparr> else s1)"
  have v1: "view s1 = view s" by (simp add: s1_def)
  have v2: "view s2 = view s \<or> DOW_DEBUG cfg \<and> view s2 = view (s\<lparr>dow_state := DOW_STATE_DEPUTY\<rparr>)"
    by (simp add: s2_def s1_def view_def)
  have e: "ccnlriot_consumer cfg X from p s =
     (if dow_state s = DOW_STATE_STOPPED then Inr (1, emit (Packet_freed p) s)
      else if DOW_DEPUTY cfg \<and> dow_state s = DOW_STATE_HANDOVER then Inr (1, emit (Packet_freed p) s)
      else if prefix_cmp X (all_pfx s) (pfx p) CMP_MATCH \<ge> 1 \<and>
              take (length CCNLRIOT_CONT_ACK) (cvalue (content p)) = CCNLRIOT_CONT_ACK then
        and_then (if cnum (content p) \<ge> 0 then remove_pit X (cnum (content p)) s else Inr s) (\<lambda>s.
          Inr (1, emit (Packet_freed p) (emit (Msg_sent DOW_MSG_RECEIVED_ACK No_payload) s)))
      else if found then Inr (0, s1)
      else if dow_state s2 \<noteq> DOW_STATE_DEPUTY then consumer_own cfg X p s2
      else if DOW_DEPUTY cfg \<or> DOW_PER cfg > 0 then consumer_deputy_per cfg X dup p s2
      else consumer_deputy cfg X p s2)"
    by (simp only: ccnlriot_consumer_def Let_def dup_def [symmetric] f prod.case s1_def [symmetric]
        s2_def [symmetric])
  have "view s' = view s \<or> s' = s1 \<or> view s' = view s2"
    using assms(2) unfolding e
    by (auto simp: and_then_eq_Inr split: if_splits dest: view_remove_pit
        moves_consumer_own [OF assms(1)] view_consumer_deputy [OF assms(1)]
        view_consumer_deputy_per [OF assms(1)])
  with v1 v2 show ?thesis by auto
qed

lemma moves_consumer:
  assumes "adds_to_relay_only X" "ccnlriot_consumer cfg X from p s = Inr (r, s')"
  shows "moves cfg s s'"
  using view_consumer [OF assms] moves_state [of DOW_STATE_DEPUTY cfg s]
  by (auto intro: moves_view dest: moves_trans [OF _ moves_view])

lemma view_number_entry [simp]: "view (number_entry e n s) = view s"
  by (simp add: number_entry_def)

text \<open>An interest leaves the view as it is, except for the hand-over to a deputy.\<close>

lemma view_producer_serve:
  assumes "producer_serve cfg X from p s = Inr (r, p', s')"
  shows "view s' = view s \<or> DOW_DEPUTY cfg \<and> view s' = view (s\<lparr>dow_state := DOW_STATE_HANDOVER\<rparr>)"
proof -
  define s1 where "s1 = s\<lparr>dow_my_prefix_interest_count := dow_my_prefix_interest_count s + 1\<rparr>"
  define s2 where "s2 = (if DOW_DEPUTY cfg then s1\<lparr>dow_state := DOW_STATE_HANDOVER\<rparr> else s1)"
  have v2: "view s2 = view s \<or> DOW_DEPUTY cfg \<and> view s2 = view (s\<lparr>dow_state := DOW_STATE_HANDOVER\<rparr>)"
    by (simp add: s2_def s1_def view_def)
  show ?thesis
  proof (cases "chunknum (pfx p) = None \<or> chunknum (pfx p) = Some (-1)")
    case True
    with assms show ?thesis by (auto simp: producer_serve_def Let_def)
  next
    case False
    obtain pos s3 where pos: "(if DOW_RAND_SEEDING cfg then dow_random_chunk X s2
        else Inr (the (chunknum (pfx p)), s2)) = Inr (pos, s3)"
      using assms False unfolding producer_serve_def Let_def s1_def [symmetric] s2_def [symmetric]
      by (auto simp: and_then_eq_Inr)
    have v3: "view s3 = view s2" using pos by (auto split: if_splits dest: view_random_chunk)
    have "view s' = view s3"
      using assms False pos unfolding producer_serve_def Let_def s1_def [symmetric] s2_def [symmetric]
      by (auto simp: and_then_eq_Inr split: if_splits option.splits prod.splits dest!: view_send_ack)
    with v3 v2 show ?thesis by simp
  qed
qed

lemma view_producer_bounced: "producer_bounced X p s = Some s' \<Longrightarrow> view s' = view s"
  by (auto simp: producer_bounced_def Let_def split: option.splits)

lemma view_producer:
  assumes "ccnlriot_producer cfg X from p s = Inr (r, p', s')"
  shows "view s' = view s \<or> DOW_DEPUTY cfg \<and> view s' = view (s\<lparr>dow_state := DOW_STATE_HANDOVER\<rparr>)"
proof (cases "if DOW_INT_INT cfg then producer_bounced X p s else None")
  case (Some t)
  then have "view t = view s" by (auto split: if_splits dest: view_producer_bounced)
  with assms Some show ?thesis
    unfolding ccnlriot_producer_def Let_def by (auto split: if_splits)
next
  case None
  show ?thesis
  proof (cases "dow_state s = DOW_STATE_STOPPED \<or> dow_state s = DOW_STATE_INACTIVE")
    case True
    with assms None show ?thesis unfolding ccnlriot_producer_def Let_def by auto
  next
    case False
    with assms None obtain s1 where s1: "(if DOW_APMDMR cfg \<and> prefix_cmp X (all_pfx s) (pfx p) CMP_MATCH < 1
        \<and> compcnt (pfx p) > 1
         then and_then (nth_res (comp (pfx p) ! 1) 0) (\<lambda>ch. Inr (prefix_seen_interest ch s))
         else Inr s) = Inr s1"
      unfolding ccnlriot_producer_def Let_def by (auto simp: and_then_eq_Inr)
    then have v1: "view s1 = view s" by (auto simp: and_then_eq_Inr split: if_splits)
    then have h: "view (s1\<lparr>dow_state := st\<rparr>) = view (s\<lparr>dow_state := st\<rparr>)" for st by (simp add: view_def)
    have "view s' = view s1 \<or> DOW_DEPUTY cfg \<and> view s' = view (s1\<lparr>dow_state := DOW_STATE_HANDOVER\<rparr>)"
      using assms None False s1 unfolding ccnlriot_producer_def Let_def
      by (auto simp: and_then_eq_Inr split: if_splits dest: view_producer_serve)
    with v1 h show ?thesis by simp
  qed
qed

lemma moves_producer:
  assumes "ccnlriot_producer cfg X from p s = Inr (r, p', s')"
  shows "moves cfg s s'"
  using view_producer [OF assms] moves_state [of DOW_STATE_HANDOVER cfg s]
  by (auto intro: moves_view dest: moves_trans [OF _ moves_view])

lemma moves_node_step:
  assumes "adds_to_relay_only X" "node_step cfg X s e = Inr s'"
  shows "moves cfg s s'"
  using assms(2)
  by (auto simp: node_step_def and_then_eq_Inr stop_dow_def split: event.splits
      intro: moves_loop_step moves_consumer [OF assms(1)] moves_producer moves_state)

section \<open>Invariants of the abstract machine\<close>

text \<open>
  The booked times add up to the time from the start \<open>t0\<close> to the last change between
  sleeping and active (modulo 2^32, the clock's width).
\<close>

fun booked :: "u32 \<Rightarrow> dow_state_t \<times> u32 \<times> u32 \<times> bool \<times> u32 \<times> u32 \<Rightarrow> bool" where
  "booked t0 (st, a, z, sleeping, w, l) \<longleftrightarrow> a + z = (if sleeping then l else w) - t0"

lemma tstep_booked: "tstep d v v' \<Longrightarrow> booked t0 v \<Longrightarrow> booked t0 v'"
  by (cases v) (auto simp: tstep_from algebra_simps split: if_splits)

fun no_handover :: "dow_state_t \<times> u32 \<times> u32 \<times> bool \<times> u32 \<times> u32 \<Rightarrow> bool" where
  "no_handover (st, _) \<longleftrightarrow> st \<noteq> DOW_STATE_HANDOVER"

lemma tstep_no_handover: "tstep d v v' \<Longrightarrow> \<not> d \<Longrightarrow> no_handover v \<Longrightarrow> no_handover v'"
  by (cases v) (auto simp: tstep_from)

lemma moves_invariant:
  assumes "moves cfg s s'" "I (view s)" "\<And>v v'. tstep (DOW_DEPUTY cfg) v v' \<Longrightarrow> I v \<Longrightarrow> I v'"
  shows "I (view s')"
proof -
  have "(tstep (DOW_DEPUTY cfg))\<^sup>*\<^sup>* v v' \<Longrightarrow> I v \<Longrightarrow> I v'" for v v'
    by (induction rule: rtranclp_induct) (auto intro: assms(3))
  with assms(1,2) show ?thesis unfolding moves_def by blast
qed

interpretation booked_run: res_invariant
  "\<lambda>s e. if adds_to_relay_only X then node_step cfg X s e else Inl OutOfFuel"
  "\<lambda>s. booked t0 (view s)"
  by unfold_locales (auto intro: moves_invariant [OF moves_node_step] tstep_booked split: if_splits)

interpretation handover_run: res_invariant
  "\<lambda>s e. if adds_to_relay_only X then node_step cfg X s e else Inl OutOfFuel"
  "\<lambda>s. DOW_DEPUTY cfg \<or> no_handover (view s)"
  by unfold_locales
    (auto intro: moves_invariant [OF moves_node_step, where I = no_handover] tstep_no_handover split: if_splits)

section \<open>Properties of the node\<close>

text \<open>
  C11. The detailed node simulates the abstract machine of time and states: every event
  that ends without a fault takes the view along steps of that machine.
\<close>

theorem node_simulates_time_machine:
  assumes "adds_to_relay_only X" "node_step cfg X s e = Inr s'"
  shows "(tstep (DOW_DEPUTY cfg))\<^sup>*\<^sup>* (view s) (view s')"
  using moves_node_step [OF assms] by (simp add: moves_def)

lemma ex_adds_to_relay_only: "adds_to_relay_only ex_ext"
proof (unfold adds_to_relay_only_def, intro allI impI)
  fix P :: "node \<Rightarrow> bool" and st s c ok s'
  assume r: "\<forall>s r. P (s\<lparr>ccnl_relay := r\<rparr>) = P s"
    and f: "\<forall>f. st = Some f \<longrightarrow> (\<forall>s c r s'. P s \<longrightarrow> f s c = Inr (r, s') \<longrightarrow> P s')"
    and p: "P s" and a: "add2cache ex_ext st s c = Inr (ok, s')"
  have i: "P (ex_insert t d) = P t" for t d using r by (simp add: ex_insert_def)
  show "P s'"
    using a f p i by (auto simp: ex_ext_def ex_add2cache_def and_then_eq_Inr split: if_splits option.splits)
qed

definition ex_events :: "event list" where
  "ex_events = [Message \<lparr>m_type = DOW_MSG_SECOND, m_content = No_payload\<rparr>,
     Content 1 (ex_chunk 0 ''00000001'' ''00000020''),
     Message \<lparr>m_type = DOW_MSG_SECOND, m_content = No_payload\<rparr>]"

lemmas node_eval_simps = node_step_def loop_step_def on_second_def period_over_active_def
  period_over_inactive_def dow_go_sleep_def random_uint32_def dow_sleep_def radio_sleep_def
  radio_sleep_now_def xtimer_now_def radio_get_def radio_set_def dow_second_timer_def emit_def
  ccnlriot_consumer_def consumer_own_def consumer_deputy_def wants_content_def dow_do_cache_def
  handle_content_def content_new_def handle_flags_def removed_nothing_def ex_chunk_def caching_cfg_def
  nth_res_def CCNLRIOT_CONT_ACK_def SEC_IN_USEC_def DOW_KEEP_ALIVE_PERIOD_def Let_def

lemma float_ex: "u32_to_float 0 = 0" "u32_to_float 1000000007 = 1000000000"
  by (simp_all add: u32_to_float_def float_of_nat_def bit_len_simps Let_def)

lemma ex_run_ok: "\<exists>s'. run_res (node_step caching_cfg ex_ext) ex_node ex_events = Inr s'"
  by (simp add: ex_events_def node_eval_simps ex_store_simps float_ex hex8_def hexdigit_def)

theorem node_simulates_time_machine_witness:
  "\<exists>s'. node_step caching_cfg ex_ext ex_node Stop = Inr s' \<and>
     (tstep False)\<^sup>*\<^sup>* (view ex_node) (view s')"
proof -
  have "node_step caching_cfg ex_ext ex_node Stop = Inr (ex_node\<lparr>dow_state := DOW_STATE_STOPPED\<rparr>)"
    by (simp add: node_step_def stop_dow_def)
  from node_simulates_time_machine [OF ex_adds_to_relay_only this] this show ?thesis
    by (auto simp: caching_cfg_def)
qed

text \<open>
  C10. No time is lost and none is booked twice: over every run of events from a node that has just
  started, the booked active and sleeping times add up to the time from the start to the last
  change between active and sleeping, in the clock's 32 bits, so modulo 2^32 microseconds. What has
  passed since that change is not booked yet (a node that never slept has booked nothing); with
  it they add up, at every time \<open>now\<close>, to the time since the start, again modulo 2^32.
\<close>

theorem time_accounting:
  assumes "adds_to_relay_only X" "run_res (node_step cfg X) s es = Inr s'"
    and "dow_time_active s = 0" "dow_time_sleeping s = 0" "\<not> dow_sleeping s"
  shows "dow_time_active s' + dow_time_sleeping s' =
      (if dow_sleeping s' then dow_ts_sleep s' else dow_ts_wakeup s') - dow_ts_wakeup s \<and>
    dow_time_active s' + dow_time_sleeping s' +
      (now - (if dow_sleeping s' then dow_ts_sleep s' else dow_ts_wakeup s')) = now - dow_ts_wakeup s"
proof -
  have "booked (dow_ts_wakeup s) (view s)" using assms(3-5) by (simp add: view_def)
  then have "booked (dow_ts_wakeup s) (view s')"
    by (rule booked_run.run_inv [where X = X and cfg = cfg]) (simp add: assms(1), rule assms(2))
  then show ?thesis by (simp add: view_def)
qed

theorem time_accounting_witness:
  "\<exists>s'. run_res (node_step caching_cfg ex_ext) ex_node ex_events = Inr s' \<and>
    dow_time_active s' + dow_time_sleeping s' =
    (if dow_sleeping s' then dow_ts_sleep s' else dow_ts_wakeup s') - dow_ts_wakeup ex_node"
proof -
  obtain s' where s': "run_res (node_step caching_cfg ex_ext) ex_node ex_events = Inr s'"
    using ex_run_ok by blast
  have "dow_time_active ex_node = 0" "dow_time_sleeping ex_node = 0" "\<not> dow_sleeping ex_node"
    by (simp_all add: ex_node_def)
  from time_accounting [OF ex_adds_to_relay_only s' this] s' show ?thesis by blast
qed

text \<open>
  Without deputies no node is ever handing over its store, whatever messages, content
  and interests arrive.
\<close>

theorem no_handover_without_deputies:
  assumes "adds_to_relay_only X" "run_res (node_step cfg X) s es = Inr s'"
    and "\<not> DOW_DEPUTY cfg" "dow_state s \<noteq> DOW_STATE_HANDOVER"
  shows "dow_state s' \<noteq> DOW_STATE_HANDOVER"
proof -
  have "DOW_DEPUTY cfg \<or> no_handover (view s)" using assms(4) by (simp add: view_def)
  then have "DOW_DEPUTY cfg \<or> no_handover (view s')"
    by (rule handover_run.run_inv [where X = X]) (simp add: assms(1), rule assms(2))
  with assms(3) show ?thesis by (simp add: view_def)
qed

theorem no_handover_without_deputies_witness:
  "\<exists>s'. run_res (node_step caching_cfg ex_ext) ex_node ex_events = Inr s' \<and>
    dow_state s' \<noteq> DOW_STATE_HANDOVER"
proof -
  obtain s' where s': "run_res (node_step caching_cfg ex_ext) ex_node ex_events = Inr s'"
    using ex_run_ok by blast
  have "\<not> DOW_DEPUTY caching_cfg" "dow_state ex_node \<noteq> DOW_STATE_HANDOVER"
    by (simp_all add: caching_cfg_def ex_node_def)
  from no_handover_without_deputies [OF ex_adds_to_relay_only s' this] s' show ?thesis by blast
qed

definition drop_event :: "node \<Rightarrow> event \<Rightarrow> node" where
  "drop_event s e = (case e of
     Content _ p \<Rightarrow> emit (Packet_freed p) s | Interest _ p \<Rightarrow> emit (Packet_freed p) s | _ \<Rightarrow> s)"

lemma node_step_stopped:
  assumes "dow_state s = DOW_STATE_STOPPED"
  shows "node_step cfg X s e = Inr (drop_event s e)"
proof -
  have "s\<lparr>dow_state := DOW_STATE_STOPPED\<rparr> = s" using assms by simp
  then show ?thesis
    using assms
    by (auto simp: node_step_def loop_step_def ccnlriot_consumer_def ccnlriot_producer_def
        stop_dow_def drop_event_def split: event.splits)
qed

text \<open>
  Stopping is final: a stopped node ends every run of events without a fault, frees
  each packet that arrives, in order, and changes nothing else.
\<close>

theorem stopped_is_final:
  assumes "dow_state s = DOW_STATE_STOPPED"
  shows "run_res (node_step cfg X) s es = Inr (foldl drop_event s es) \<and>
    dow_state (foldl drop_event s es) = DOW_STATE_STOPPED"
  using assms
proof (induction es arbitrary: s)
  case (Cons e es)
  have "dow_state (drop_event s e) = DOW_STATE_STOPPED"
    using Cons.prems by (auto simp: drop_event_def emit_def split: event.splits)
  from Cons.IH [OF this] Cons.prems show ?case by (simp add: node_step_stopped)
qed simp

theorem stopped_is_final_witness:
  "run_res (node_step caching_cfg ex_ext) (ex_node\<lparr>dow_state := DOW_STATE_STOPPED\<rparr>) ex_events =
     Inr (foldl drop_event (ex_node\<lparr>dow_state := DOW_STATE_STOPPED\<rparr>) ex_events)"
  using stopped_is_final [of "ex_node\<lparr>dow_state := DOW_STATE_STOPPED\<rparr>" caching_cfg ex_ext ex_events]
  by simp

end
