(* ===== verification/Dow_Comm_Props.thy ===== *)
theory Dow_Comm_Props
  imports Dow_System
begin

text \<open>
  Properties of the communication: waiting for a chunk and sending interests, taking over a
  deputy's store, counting neighbours by beacons, and answering interests.
\<close>

section \<open>Counting calls in the trace\<close>

definition calls :: "(effect \<Rightarrow> bool) \<Rightarrow> node \<Rightarrow> nat" where
  "calls P s = length (filter P (trace s))"

lemma calls_emit [simp]: "calls P (emit e s) = calls P s + (if P e then 1 else 0)"
  by (simp add: calls_def)

lemma calls_updates [simp]:
  "calls P (s\<lparr>dow_period_counter := c\<rparr>) = calls P s" "calls P (s\<lparr>all_pfx := p\<rparr>) = calls P s"
  "calls P (s\<lparr>my_pfx := p\<rparr>) = calls P s" "calls P (s\<lparr>dow_state := st\<rparr>) = calls P s"
  "calls P (s\<lparr>last_deputy_ts := t\<rparr>) = calls P s" "calls P (s\<lparr>dow_ts_wakeup := t\<rparr>) = calls P s"
  "calls P (s\<lparr>dow_time_sleeping := t\<rparr>) = calls P s" "calls P (s\<lparr>dow_sleeping := b\<rparr>) = calls P s"
  by (simp_all add: calls_def trace_def)

lemma calls_reads:
  "xtimer_now X s = (t, s') \<Longrightarrow> calls P s' = calls P s" "msg_receive X s = (m, s') \<Longrightarrow> calls P s' = calls P s"
  "radio_get X s = (st, s') \<Longrightarrow> calls P s' = calls P s"
  by (auto simp: xtimer_now_def msg_receive_def radio_get_def calls_def trace_def)

section \<open>Waiting for a chunk\<close>

definition no_timer :: "(effect \<Rightarrow> bool) \<Rightarrow> bool" where
  "no_timer P \<longleftrightarrow> (\<forall>t u m. \<not> P (Timer_set t u m)) \<and> (\<forall>t. \<not> P (Timer_remove t))"

lemma calls_wait_loop:
  assumes "no_timer P"
  shows "wait_loop X fuel n w now rem buf s = Inr (res, buf', s') \<Longrightarrow> calls P s' = calls P s"
proof (induction fuel arbitrary: rem buf s w)
  case (Suc fuel)
  obtain t s1 where t: "xtimer_now X s = (t, s1)" by (cases "xtimer_now X s")
  define s2 where "s2 = emit (Timer_set Wait_timer (rem - (t - now)) CCNL_MSG_TIMEOUT)
    (emit (Timer_remove Wait_timer) s1)"
  obtain m s3 where m: "msg_receive X s2 = (m, s3)" by (cases "msg_receive X s2")
  have v: "calls P s1 = calls P s" "calls P s3 = calls P s"
    using calls_reads(1) [OF t, of P] calls_reads(2) [OF m, of P] assms by (simp_all add: s2_def no_timer_def)
  have p: "\<not> P (Timer_set a b c)" "\<not> P (Timer_remove a)" for a b c using assms by (auto simp: no_timer_def)
  show ?case
    using Suc.prems t m v p
    by (auto simp: Let_def s2_def [symmetric] split: if_splits mtype.splits payload.splits dest!: Suc.IH)
qed simp

lemma wait_loop_result:
  "wait_loop X fuel n w now rem buf s = Inr (res, buf', s') \<Longrightarrow>
   res = - etimedout X \<or> res = 1 \<or> res = 4 \<or> (0 \<le> res \<and> res \<le> int n)"
proof (induction fuel arbitrary: rem buf s w)
  case (Suc fuel)
  obtain t s1 where t: "xtimer_now X s = (t, s1)" by (cases "xtimer_now X s")
  obtain m s3 where m: "msg_receive X (emit (Timer_set Wait_timer (rem - (t - now)) CCNL_MSG_TIMEOUT)
    (emit (Timer_remove Wait_timer) s1)) = (m, s3)" by force
  show ?case
    using Suc.prems t m
    by (auto simp: Let_def CCNLRIOT_RECEIVED_CHUNK_def ack_bytes_def CCNLRIOT_CONT_ACK_def
        split: if_splits mtype.splits payload.splits dest: Suc.IH)
qed simp

text \<open>Messages of the network interface carry a packet.\<close>

definition snips :: "ext \<Rightarrow> bool" where
  "snips X \<longleftrightarrow> (\<forall>k. m_type (x_recv X k) = GNRC_NETAPI_MSG_TYPE_RCV \<longrightarrow>
     (\<exists>b d. m_content (x_recv X k) = Snip b d))"

lemma recv_frame [simp]:
  "e_recv (env (emit e s)) = e_recv (env s)"
  by (simp add: emit_def)

lemma wait_loop_returns:
  assumes "snips X"
  shows "k < fuel \<Longrightarrow> m_type (x_recv X (e_recv (env s) + k)) = CCNL_MSG_TIMEOUT \<Longrightarrow>
    \<exists>r. wait_loop X fuel n w now rem buf s = Inr r"
proof (induction fuel arbitrary: rem buf s k w)
  case (Suc fuel)
  obtain t s1 where t: "xtimer_now X s = (t, s1)" by (cases "xtimer_now X s")
  define s2 where "s2 = emit (Timer_set Wait_timer (rem - (t - now)) CCNL_MSG_TIMEOUT)
    (emit (Timer_remove Wait_timer) s1)"
  obtain m s3 where m: "msg_receive X s2 = (m, s3)" by (cases "msg_receive X s2")
  have e: "m = x_recv X (e_recv (env s))" "e_recv (env s3) = e_recv (env s) + 1"
    using t m by (auto simp: xtimer_now_def msg_receive_def s2_def emit_def)
  show ?case
  proof (cases k)
    case 0
    with Suc.prems e t m show ?thesis by (simp add: Let_def s2_def [symmetric])
  next
    case (Suc j)
    have j: "j < fuel" "m_type (x_recv X (e_recv (env s3) + j)) = CCNL_MSG_TIMEOUT"
      using Suc Suc.prems e by simp_all
    have again: "\<exists>r. wait_loop X fuel n w now rem' buf' s' = Inr r"
      if "e_recv (env s') = e_recv (env s3)" for w rem' buf' s'
      using Suc.IH [of j s'] j that by simp
    have "\<exists>b d. m_content m = Snip b d" if "m_type m = GNRC_NETAPI_MSG_TYPE_RCV"
      using assms that e(1) by (auto simp: snips_def)
    then show ?thesis
      using t m again
      by (auto simp: Let_def s2_def [symmetric] split: mtype.splits payload.splits)
  qed
qed simp

text \<open>
  C15. Waiting ends: if one of the next \<^verbatim>\<open>wait_fuel\<close> messages is the timeout the wait timer
  sends, \<^verbatim>\<open>_wait_for_chunk\<close> returns, with a timeout, a received chunk (1), an acknowledgement
  (4), or the length of the content, which fits the buffer.
\<close>

theorem wait_for_chunk_ends:
  assumes "snips X" "k < wait_fuel X" "m_type (x_recv X (e_recv (env s) + k)) = CCNL_MSG_TIMEOUT"
  shows "\<exists>res buf' s'. wait_for_chunk X buf n w s = Inr (res, buf', s') \<and>
    (res = - etimedout X \<or> res = 1 \<or> res = 4 \<or> (0 \<le> res \<and> res \<le> int n))"
proof -
  obtain now s1 where t: "xtimer_now X s = (now, s1)" by (cases "xtimer_now X s")
  have "e_recv (env s1) = e_recv (env s)" using t by (auto simp: xtimer_now_def)
  with wait_loop_returns [OF assms(1,2), of s1] assms(3)
  obtain res buf' s' where r: "wait_for_chunk X buf n w s = Inr (res, buf', s')"
    using t by (fastforce simp: wait_for_chunk_def Let_def)
  then show ?thesis
    using t wait_loop_result by (fastforce simp: wait_for_chunk_def Let_def)
qed

lemma ex_snips: "snips ex_ext"
  by (simp add: snips_def ex_ext_def)

theorem wait_for_chunk_ends_witness:
  "\<exists>res buf' s'. wait_for_chunk ex_ext [] 128 False ex_node = Inr (res, buf', s')"
proof -
  have "0 < wait_fuel ex_ext" "m_type (x_recv ex_ext (e_recv (env ex_node) + 0)) = CCNL_MSG_TIMEOUT"
    by (simp_all add: ex_ext_def)
  from wait_for_chunk_ends [OF ex_snips this] show ?thesis by blast
qed

section \<open>Interests\<close>

fun is_interest :: "effect \<Rightarrow> bool" where
  "is_interest (Interest_sent _) = True"
| "is_interest _ = False"

definition sent :: "node \<Rightarrow> nat" where "sent = calls is_interest"

definition registered :: "node \<Rightarrow> int" where
  "registered s = int (calls (\<lambda>e. e = Netreg_registered) s) - int (calls (\<lambda>e. e = Netreg_unregistered) s)"

lemma no_timers [simp]: "no_timer is_interest" "no_timer (\<lambda>e. e = Netreg_registered)"
  "no_timer (\<lambda>e. e = Netreg_unregistered)"
  by (simp_all add: no_timer_def)

lemma calls_wait_for_chunk:
  "wait_for_chunk X buf n w s = Inr (res, buf', s') \<Longrightarrow> no_timer P \<Longrightarrow> calls P s' = calls P s"
  by (cases "xtimer_now X s")
    (auto simp: wait_for_chunk_def Let_def dest!: calls_wait_loop [rotated] calls_reads(1) [where P = P])

lemma calls_write_chunknum: "write_chunknum r cn s = Inr (r', s') \<Longrightarrow> calls P s' = calls P s"
  by (cases r) (auto simp: write_chunknum_def and_then_eq_Inr split: option.splits)

lemma int_loop_counts:
  "int_loop X n r cn w buf s = Inr (res, buf', s') \<Longrightarrow>
   sent s \<le> sent s' \<and> sent s' \<le> sent s + n \<and> (n > 0 \<longrightarrow> sent s < sent s') \<and> registered s' = registered s \<and>
   (res = 0 \<and> sent s' = sent s + n \<or> res = 1)"
proof (induction n arbitrary: r buf s)
  case 0
  then show ?case by (simp add: CCNLRIOT_TIMEOUT_def)
next
  case (Suc n)
  then obtain r1 s1 res1 buf1 s2 where w: "write_chunknum r cn (emit Netreg_registered s) = Inr (r1, s1)"
    "wait_for_chunk X buf CCNLRIOT_BUF_SIZE w (emit (Interest_sent (get_pfx r1 s1)) s1) = Inr (res1, buf1, s2)"
    "(if res1 > 0 then Inr (CCNLRIOT_RECEIVED_CHUNK, buf1, emit Netreg_unregistered s2)
      else int_loop X n r1 cn w buf1 (emit Netreg_unregistered s2)) = Inr (res, buf', s')"
    by (auto simp: Let_def and_then_eq_Inr)
  have c: "sent (emit Netreg_unregistered s2) = sent s + 1"
    "registered (emit Netreg_unregistered s2) = registered s"
    using calls_wait_for_chunk [OF w(2)] calls_write_chunknum [OF w(1)]
    by (simp_all add: sent_def registered_def)
  show ?case
  proof (cases "res1 > 0")
    case True
    with w(3) c show ?thesis by (auto simp: CCNLRIOT_RECEIVED_CHUNK_def)
  next
    case False
    with w(3) have "int_loop X n r1 cn w buf1 (emit Netreg_unregistered s2) = Inr (res, buf', s')" by simp
    from Suc.IH [OF this] c show ?thesis by auto
  qed
qed

lemma helper_int_counts:
  assumes "ccnl_helper_int X r cn w s = Inr (res, s')"
  shows "res \<in> {CCNLRIOT_TIMEOUT, CCNLRIOT_RECEIVED_CHUNK, CCNLRIOT_LAST_CN} \<and>
    sent s < sent s' \<and> sent s' \<le> sent s + 3 \<and> registered s' = registered s \<and>
    (res = CCNLRIOT_TIMEOUT \<longrightarrow> sent s' = sent s + 3)"
proof -
  from assms obtain r1 buf where l: "int_loop X 3 r cn w (replicate CCNLRIOT_BUF_SIZE (CHR 0x00)) s
      = Inr (r1, buf, s')"
    and res: "res = (if r1 = CCNLRIOT_RECEIVED_CHUNK \<and>
        take (length CCNLRIOT_CONT_ACK) buf = CCNLRIOT_CONT_ACK then CCNLRIOT_LAST_CN else r1)"
    by (auto simp: ccnl_helper_int_def CCNLRIOT_INT_RETRIES_def and_then_eq_Inr split: if_splits)
  from int_loop_counts [OF l] res show ?thesis
    by (auto simp: CCNLRIOT_TIMEOUT_def CCNLRIOT_RECEIVED_CHUNK_def CCNLRIOT_LAST_CN_def)
qed

text \<open>
  C16. Asking for a chunk: \<^verbatim>\<open>ccnl_helper_int\<close> answers with one of its three documented
  results, sends at least one and at most three interests (three exactly before a timeout),
  and leaves the node registered for content as often as before.
\<close>

theorem helper_int_bounded:
  assumes "ccnl_helper_int X r cn w s = Inr (res, s')"
  shows "res \<in> {CCNLRIOT_TIMEOUT, CCNLRIOT_RECEIVED_CHUNK, CCNLRIOT_LAST_CN} \<and>
    sent s < sent s' \<and> sent s' \<le> sent s + 3 \<and> registered s' = registered s \<and>
    (res = CCNLRIOT_TIMEOUT \<longrightarrow> sent s' = sent s + 3)"
  using assms by (rule helper_int_counts)

lemma ex_wait: "\<exists>s'. wait_for_chunk ex_ext buf n w s = Inr (-110, buf, s') \<and> all_pfx s' = all_pfx s"
proof -
  have f: "etimedout ex_ext = 110" "m_type (x_recv ex_ext k) = CCNL_MSG_TIMEOUT" for k
    by (simp_all add: ex_ext_def)
  have "wait_fuel ex_ext = Suc 9" by (simp add: ex_ext_def)
  then obtain m where m: "wait_fuel ex_ext = Suc m" by blast
  have "\<exists>s'. wait_loop ex_ext (Suc m) n w now rem buf s = Inr (-110, buf, s') \<and> all_pfx s' = all_pfx s"
    for now rem s
    by (simp add: Let_def xtimer_now_def msg_receive_def emit_def f)
  moreover have "all_pfx (snd (xtimer_now ex_ext s)) = all_pfx s" by (simp add: xtimer_now_def)
  ultimately have "\<exists>s'. wait_loop ex_ext (Suc m) n w now rem buf (snd (xtimer_now ex_ext s)) =
      Inr (-110, buf, s') \<and> all_pfx s' = all_pfx s" for now rem
    by metis
  then show ?thesis
    by (cases "xtimer_now ex_ext s") (simp add: wait_for_chunk_def m del: wait_loop.simps)
qed

lemma ex_int_ok:
  assumes "chunknum (all_pfx s) \<noteq> None"
  shows "\<exists>s'. ccnl_helper_int ex_ext All_pfx cn w s = Inr (0, s') \<and> chunknum (all_pfx s') \<noteq> None"
proof -
  have e: "all_pfx (emit e t) = all_pfx t" for e t by (simp add: emit_def)
  have "\<exists>b q. int_loop ex_ext n All_pfx cn w buf s = Inr (0, b, q) \<and> chunknum (all_pfx q) \<noteq> None"
    if "chunknum (all_pfx s) \<noteq> None" for n buf s
    using that
  proof (induction n arbitrary: buf s)
    case 0
    then show ?case by (simp add: CCNLRIOT_TIMEOUT_def)
  next
    case (Suc n)
    obtain s1 where s1: "write_chunknum All_pfx cn (emit Netreg_registered s) = Inr (All_pfx, s1)"
      "chunknum (all_pfx s1) \<noteq> None"
      using Suc.prems e by (cases cn) (auto simp: write_chunknum_def)
    let ?s = "emit (Interest_sent (all_pfx s1)) s1"
    obtain s' where s': "wait_for_chunk ex_ext buf CCNLRIOT_BUF_SIZE w ?s = Inr (-110, buf, s')"
      "all_pfx s' = all_pfx ?s"
      using ex_wait by blast
    with s1 e have "chunknum (all_pfx (emit Netreg_unregistered s')) \<noteq> None" by simp
    from Suc.IH [OF this] s1(1) s' show ?case by simp
  qed
  from this [OF assms, of CCNLRIOT_INT_RETRIES "replicate CCNLRIOT_BUF_SIZE (CHR 0x00)"] show ?thesis
    by (auto simp: ccnl_helper_int_def CCNLRIOT_RECEIVED_CHUNK_def)
qed

lemma ex_all_pfx: "chunknum (all_pfx ex_node) \<noteq> None"
  by (simp add: ex_node_def)

theorem helper_int_bounded_witness:
  "\<exists>s'. ccnl_helper_int ex_ext All_pfx (Some 3) False ex_node = Inr (0, s') \<and> sent s' = sent ex_node + 3"
proof -
  obtain s' where s': "ccnl_helper_int ex_ext All_pfx (Some 3) False ex_node = Inr (0, s')"
    using ex_int_ok [OF ex_all_pfx] by blast
  from helper_int_bounded [OF this] s' show ?thesis by (simp add: CCNLRIOT_TIMEOUT_def)
qed

lemma takeover_loop_counts:
  "takeover_loop X n cn s = Inr s' \<Longrightarrow> sent s' \<le> sent s + 3 * n \<and> registered s' = registered s"
proof (induction n arbitrary: cn s)
  case (Suc n)
  then obtain res s1 where h: "ccnl_helper_int X All_pfx (Some cn) False s = Inr (res, s1)"
    "(if res \<noteq> CCNLRIOT_LAST_CN then takeover_loop X n (cn + 1) s1 else Inr s1) = Inr s'"
    by (auto simp: and_then_eq_Inr)
  have "sent s' \<le> sent s1 + 3 * n \<and> registered s' = registered s1"
    using h(2) Suc.IH [of "cn + 1" s1] by (auto split: if_splits)
  with helper_int_counts [OF h(1)] show ?case by auto
qed simp

lemma calls_dow_wakeup:
  assumes "dow_wakeup cfg X s = Inr s'" "DOW_DEPUTY cfg" "\<And>st b. \<not> P (Radio_set st b)"
  shows "calls P s' = calls P s"
proof -
  define s1 where "s1 = (if dow_sleeping s then
      (let (t, s) = xtimer_now X s
       in s\<lparr>dow_ts_wakeup := t, dow_time_sleeping := dow_time_sleeping s + (t - dow_ts_sleep s),
            dow_sleeping := False\<rparr>) else s)"
  obtain st s2 where r: "radio_get X s1 = (st, s2)" by (cases "radio_get X s1")
  have "calls P s1 = calls P s"
    by (cases "xtimer_now X s") (auto simp: s1_def dest: calls_reads(1) [where P = P])
  moreover have "calls P (radio_set X q t) = calls P t" for q t
    using assms(3) by (simp add: radio_set_def Let_def) (simp add: calls_def trace_def)
  ultimately show ?thesis
    using assms(1,2) r calls_reads(3) [OF r, of P]
    by (auto simp: dow_wakeup_def Let_def s1_def [symmetric] split: option.splits if_splits)
qed

text \<open>
  Taking over ends: without a fault, \<^verbatim>\<open>dow_takeover\<close> makes the node deputy after at most
  three times \<^verbatim>\<open>CCNLRIOT_CACHE_SIZE\<close> + 2 interests, and does not forget a registration.
\<close>

theorem takeover_bounded:
  assumes "dow_takeover cfg X s = Inr s'" "DOW_DEPUTY cfg"
  shows "dow_state s' = DOW_STATE_DEPUTY \<and> sent s' \<le> sent s + 3 * (CCNLRIOT_CACHE_SIZE cfg + 2) \<and>
    registered s' = registered s"
proof -
  obtain t s1 where t: "xtimer_now X s = (t, s1)" by (cases "xtimer_now X s")
  let ?s2 = "(if DOW_INT_INT cfg then ccnl_helper_clear_pit_for_own (s1\<lparr>last_deputy_ts := t\<rparr>)
    else s1\<lparr>last_deputy_ts := t\<rparr>)\<lparr>dow_state := DOW_STATE_DEPUTY\<rparr>"
  from assms t obtain s3 where s3: "dow_wakeup cfg X ?s2 = Inr s3"
    "takeover_loop X (CCNLRIOT_CACHE_SIZE cfg + 2) 0 s3 = Inr s'"
    by (auto simp: dow_takeover_def Let_def and_then_eq_Inr)
  have c: "sent s3 = sent s" "registered s3 = registered s"
    using calls_dow_wakeup [OF s3(1) assms(2)] calls_reads(1) [OF t]
    by (auto simp: sent_def registered_def ccnl_helper_clear_pit_for_own_def)
  have "dow_state s3 = DOW_STATE_DEPUTY"
    using state_dow_wakeup [OF s3(1)] by simp
  moreover have "dow_state s' = dow_state s3" using view_takeover_loop [OF s3(2)] by (simp add: view_def)
  ultimately show ?thesis using takeover_loop_counts [OF s3(2)] c by simp
qed

definition deputy_cfg :: config where
  "deputy_cfg = caching_cfg\<lparr>DOW_DEPUTY := True, CCNLRIOT_CACHE_SIZE := 0\<rparr>"

lemma ex_takeover_ok: "\<exists>s'. dow_takeover deputy_cfg ex_ext ex_node = Inr s'"
proof -
  have l: "\<exists>s'. takeover_loop ex_ext n cn s = Inr s'" if "chunknum (all_pfx s) \<noteq> None" for n cn s
    using that
  proof (induction n arbitrary: cn s)
    case (Suc n)
    obtain s' where "ccnl_helper_int ex_ext All_pfx (Some cn) False s = Inr (0, s')"
      "chunknum (all_pfx s') \<noteq> None"
      using ex_int_ok [OF Suc.prems] by blast
    with Suc.IH [of s' "cn + 1"] show ?case by (simp add: CCNLRIOT_LAST_CN_def)
  qed simp
  have "x_get_state ex_ext k = Some NETOPT_STATE_IDLE" for k by (simp add: ex_ext_def)
  then show ?thesis
    by (simp add: dow_takeover_def deputy_cfg_def caching_cfg_def xtimer_now_def dow_wakeup_def
        radio_get_def ex_node_def Let_def l del: takeover_loop.simps)
qed

theorem takeover_bounded_witness:
  "\<exists>s'. dow_takeover deputy_cfg ex_ext ex_node = Inr s' \<and> sent s' \<le> sent ex_node + 6"
proof -
  obtain s' where s': "dow_takeover deputy_cfg ex_ext ex_node = Inr s'" using ex_takeover_ok by blast
  have "DOW_DEPUTY deputy_cfg" "CCNLRIOT_CACHE_SIZE deputy_cfg = 0" by (simp_all add: deputy_cfg_def)
  with takeover_bounded [OF s' this(1)] s' show ?thesis by auto
qed

definition ex_slow :: ext where
  "ex_slow = ex_ext\<lparr>x_now := (\<lambda>n. if n \<le> 1 then 0 else if n = 2 then 300000 else 400001),
     x_recv := (\<lambda>n. \<lparr>m_type = OTHER_MSG 0, m_content = No_payload\<rparr>)\<rparr>"

text \<open>
  The time waited is counted again in every round: with a limit of 700000 microseconds
  and two unrelated messages after 300000 and 400001, the function gives up at 400001.
\<close>

theorem wait_gives_up_early:
  "(case wait_for_chunk ex_slow [] 128 False ex_node of
      Inl _ \<Rightarrow> False
    | Inr (res, _, s) \<Rightarrow> res = -110 \<and> x_now ex_slow (e_clock (env s) - 1) = 400001) \<and>
   max_interest_retransmit ex_slow * CCNLRIOT_INT_TIMEOUT = 700000"
proof -
  have "wait_fuel ex_slow = Suc (Suc (Suc 7))" by (simp add: ex_slow_def ex_ext_def)
  then obtain m where m: "wait_fuel ex_slow = Suc (Suc (Suc m))" by blast
  have f: "etimedout ex_slow = 110" "m_type (x_recv ex_slow k) = OTHER_MSG 0"
    "max_interest_retransmit ex_slow = 7" for k
    by (simp_all add: ex_slow_def ex_ext_def)
  have t: "x_now ex_slow 0 = 0" "x_now ex_slow (Suc 0) = 0" "x_now ex_slow (Suc (Suc 0)) = 300000"
    "x_now ex_slow (Suc (Suc (Suc 0))) = 400001"
    by (simp_all add: ex_slow_def)
  have e: "e_clock (env ex_node) = 0" by (simp add: ex_node_def)
  show ?thesis
    by (simp add: wait_for_chunk_def m f t e xtimer_now_def msg_receive_def emit_def
        CCNLRIOT_INT_TIMEOUT_def Let_def)
qed

end
