(* ===== verification/Dow_Props.thy ===== *)
theory Dow_Props
  imports Dow_System
begin

text \<open>
  Properties of the caching manager in configurations without deputies (as in the
  repository): the heartbeat of the second timer, the state after a period, the values and
  names a source publishes, and the shell's sensors.
\<close>

section \<open>The heartbeat\<close>

fun is_beat :: "effect \<Rightarrow> bool" where
  "is_beat (Timer_set Dow_timer _ _) = True"
| "is_beat _ = False"

definition beats :: "node \<Rightarrow> nat" where
  "beats s = length (filter is_beat (trace s))"

lemma trace_updates [simp]:
  "trace (s\<lparr>ccnl_relay := r\<rparr>) = trace s" "trace (s\<lparr>dow_state := st\<rparr>) = trace s"
  "trace (s\<lparr>dow_my_prefix_interest_count := i\<rparr>) = trace s" "trace (s\<lparr>dow_prevent_sleep := v\<rparr>) = trace s"
  "trace (s\<lparr>dow_period_counter := c\<rparr>) = trace s" "trace (s\<lparr>sleep_period := sp\<rparr>) = trace s"
  "trace (s\<lparr>dow_ts_sleep := t\<rparr>) = trace s" "trace (s\<lparr>dow_ts_wakeup := t\<rparr>) = trace s"
  "trace (s\<lparr>dow_time_active := t\<rparr>) = trace s" "trace (s\<lparr>dow_time_sleeping := t\<rparr>) = trace s"
  "trace (s\<lparr>dow_sleeping := b\<rparr>) = trace s"
  by (simp_all add: trace_def)

lemma trace_reads [simp]:
  "trace (snd (xtimer_now X s)) = trace s" "trace (snd (random_uint32 X s)) = trace s"
  "trace (snd (radio_get X s)) = trace s" "trace (snd (dow_go_sleep X s)) = trace s"
  by (simp_all add: xtimer_now_def random_uint32_def radio_get_def dow_go_sleep_def trace_def Let_def)

lemma trace_read_eqs:
  "xtimer_now X s = (t, s') \<Longrightarrow> trace s' = trace s" "radio_get X s = (st, s') \<Longrightarrow> trace s' = trace s"
  "dow_go_sleep X s = (b, s') \<Longrightarrow> trace s' = trace s"
  using trace_reads by (metis snd_conv)+

lemma trace_reset [simp]: "trace (ccnl_helper_reset s) = trace s"
  by (simp add: ccnl_helper_reset_def set_contents_def)

lemma trace_radio_set [simp]: "trace (radio_set X st s) = trace s @ [Radio_set st (x_set_state X (e_set (env s)))]"
  by (simp add: radio_set_def Let_def) (simp add: trace_def)

lemma beats_emit [simp]: "beats (emit e s) = beats s + (if is_beat e then 1 else 0)"
  by (simp add: beats_def)

lemma beats_trace: "trace s' = trace s \<Longrightarrow> beats s' = beats s"
  by (simp add: beats_def)

lemma beats_updates [simp]:
  "beats (s\<lparr>dow_state := st\<rparr>) = beats s" "beats (s\<lparr>dow_period_counter := c\<rparr>) = beats s"
  "beats (s\<lparr>sleep_period := sp\<rparr>) = beats s"
  by (simp_all add: beats_def)

lemma beats_radio_sleep [simp]: "beats (radio_sleep cfg X s) = beats s"
proof -
  have "beats (radio_sleep_now X s) = beats s" for s
  proof -
    define s1 where "s1 = (if \<not> dow_sleeping s then
      (let (t, s) = xtimer_now X s
       in s\<lparr>dow_ts_sleep := t, dow_time_active := dow_time_active s + (t - dow_ts_wakeup s),
            dow_sleeping := True\<rparr>) else s)"
    have "trace s1 = trace s"
      by (cases "xtimer_now X s") (auto simp: s1_def dest: trace_read_eqs)
    then show ?thesis
      by (cases "radio_get X s1")
        (auto simp: radio_sleep_now_def Let_def s1_def [symmetric] retry_sleep_def beats_def
          dest!: trace_read_eqs split: option.splits netopt_state.splits)
  qed
  then show ?thesis by (auto simp: radio_sleep_def retry_sleep_def beats_def)
qed

lemma beats_dow_sleep [simp]: "beats (dow_sleep cfg X n s) = beats s + 1"
  by (simp add: dow_sleep_def Let_def dow_second_timer_def)

lemma beats_create_cont:
  assumes "ccnl_helper_create_cont cfg X p v cache send s = Inr (c, s')"
  shows "beats s' = beats s"
proof -
  have "filter is_beat (broadcasts cfg q) = []" for q
    by (auto simp: broadcasts_def filter_empty_conv)
  then show ?thesis
    using create_cont_trace [OF assms] by (auto simp: beats_def split: option.splits)
qed

lemma beats_beacon_id: "dow_beacon_id cfg X s = Inr s' \<Longrightarrow> beats s' = beats s"
  by (auto simp: dow_beacon_id_def Let_def and_then_eq_Inr split: option.splits dest!: beats_create_cont)

lemma beats_publish [simp]: "beats (ccnl_helper_publish_content cfg s) = beats s"
proof -
  have "beats (publish_loop cs s) = beats s" for cs
    by (induction cs arbitrary: s) simp_all
  then show ?thesis by (simp add: ccnl_helper_publish_content_def Let_def)
qed

lemma beats_dow_wakeup:
  assumes "dow_wakeup cfg X s = Inr s'" "DOW_PER cfg = 0"
  shows "beats s' = beats s"
proof -
  define s1 where "s1 = (if dow_sleeping s then
      (let (t, s) = xtimer_now X s
       in s\<lparr>dow_ts_wakeup := t, dow_time_sleeping := dow_time_sleeping s + (t - dow_ts_sleep s),
            dow_sleeping := False\<rparr>) else s)"
  have "trace s1 = trace s"
    by (cases "xtimer_now X s") (auto simp: s1_def dest: trace_read_eqs)
  then show ?thesis
    using assms
    by (cases "radio_get X s1")
      (auto simp: dow_wakeup_def Let_def s1_def [symmetric] beats_def
        dest!: trace_read_eqs split: option.splits if_splits)
qed

text \<open>The configurations the following is about.\<close>

definition plain_cfg :: "config \<Rightarrow> bool" where
  "plain_cfg cfg \<longleftrightarrow> \<not> DOW_DEPUTY cfg \<and> DOW_PER cfg = 0 \<and> \<not> DOW_APMDMR cfg \<and> \<not> DOW_KEEP_ALIVE_PFX cfg"

lemma plain_caching_cfg: "plain_cfg caching_cfg"
  by (simp add: plain_cfg_def caching_cfg_def)

text \<open>The node when the second message has been counted.\<close>

definition counted :: "config \<Rightarrow> node \<Rightarrow> node" where
  "counted cfg s =
     (let s = (emit (Timer_remove Dow_timer) s)\<lparr>dow_period_counter := dow_period_counter s - 1\<rparr>
      in if DOW_PSR cfg \<noteq> 0 \<and> unat (flagged_cache s) + 1 \<ge> CCNLRIOT_CACHE_SIZE cfg
         then ccnl_helper_publish_content cfg s else s)"

lemma publish_frame [simp]:
  "dow_period_counter (ccnl_helper_publish_content cfg s) = dow_period_counter s"
  "e_random (env (ccnl_helper_publish_content cfg s)) = e_random (env s)"
  "DOW_P (ccnl_helper_publish_content cfg s) = DOW_P s"
proof -
  have "dow_period_counter (publish_loop cs s) = dow_period_counter s \<and>
     e_random (env (publish_loop cs s)) = e_random (env s) \<and> DOW_P (publish_loop cs s) = DOW_P s" for cs
    by (induction cs arbitrary: s) (simp_all add: emit_def)
  then show "dow_period_counter (ccnl_helper_publish_content cfg s) = dow_period_counter s"
    "e_random (env (ccnl_helper_publish_content cfg s)) = e_random (env s)"
    "DOW_P (ccnl_helper_publish_content cfg s) = DOW_P s"
    by (simp_all add: ccnl_helper_publish_content_def Let_def)
qed

lemma counted_frame [simp]:
  "dow_period_counter (counted cfg s) = dow_period_counter s - 1"
  "e_random (env (counted cfg s)) = e_random (env s)" "DOW_P (counted cfg s) = DOW_P s"
  "view (counted cfg s) = view s" "beats (counted cfg s) = beats s"
proof -
  have "beats (s\<lparr>dow_period_counter := c\<rparr>) = beats s" for s c by (rule beats_trace) simp
  then show "beats (counted cfg s) = beats s" by (simp add: counted_def Let_def)
qed (simp_all add: counted_def Let_def emit_def)

lemma on_second_plain:
  assumes "plain_cfg cfg"
  shows "on_second cfg X s =
    (if dow_period_counter s = 1 then
       (if dow_state s = DOW_STATE_INACTIVE then period_over_inactive cfg X (counted cfg s)
        else Inr (period_over_active cfg X (counted cfg s)))
     else Inr (dow_second_timer (counted cfg s)))"
proof -
  have s: "dow_state (counted cfg s) = dow_state s"
    using counted_frame(4) [of cfg s] by (simp add: view_def)
  have e: "(emit (Timer_remove Dow_timer) s)\<lparr>dow_period_counter :=
      dow_period_counter (emit (Timer_remove Dow_timer) s) - 1\<rparr> =
      (emit (Timer_remove Dow_timer) s)\<lparr>dow_period_counter := dow_period_counter s - 1\<rparr>"
    by (simp add: emit_def)
  have "on_second cfg X s =
    (if dow_period_counter (counted cfg s) = 0 then
       (if dow_state (counted cfg s) = DOW_STATE_INACTIVE then period_over_inactive cfg X (counted cfg s)
        else Inr (period_over_active cfg X (counted cfg s)))
     else Inr (dow_second_timer (counted cfg s)))"
    using assms unfolding on_second_def Let_def e counted_def plain_cfg_def by simp
  then show ?thesis by (simp add: s)
qed

lemma beats_period_over_active:
  assumes "plain_cfg cfg"
  shows "beats (period_over_active cfg X s) = beats s + 1"
proof -
  obtain sl s2 where g: "dow_go_sleep X s = (sl, s2)" by (cases "dow_go_sleep X s")
  have "beats (s2\<lparr>dow_state := st\<rparr>) = beats s" "beats (s2\<lparr>dow_period_counter := c\<rparr>) = beats s" for st c
    using trace_read_eqs(3) [OF g] by (simp_all add: beats_def)
  with assms g show ?thesis
    by (simp add: period_over_active_def plain_cfg_def dow_second_timer_def)
qed

lemma beats_period_over_inactive:
  assumes "plain_cfg cfg" "period_over_inactive cfg X s = Inr s'"
  shows "beats s' = beats s + 1"
proof -
  obtain sl s1 where g: "dow_go_sleep X s = (sl, s1)" by (cases "dow_go_sleep X s")
  have b: "beats (s1\<lparr>dow_state := st\<rparr>) = beats s" "beats s1 = beats s" for st
    using trace_read_eqs(3) [OF g] by (simp_all add: beats_def)
  from assms g obtain s2 where s2: "(if sl then Inr s1 else
      and_then (dow_beacon_id cfg X (s1\<lparr>dow_state := DOW_STATE_DEPUTY\<rparr>))
        (\<lambda>s. dow_wakeup cfg X (ccnl_helper_reset s))) = Inr s2"
    and s': "s' = dow_second_timer (s2\<lparr>dow_period_counter := of_nat (DOW_XD cfg)\<rparr>)"
    unfolding period_over_inactive_def Let_def plain_cfg_def
    by (auto simp: and_then_eq_Inr)
  have r: "beats (ccnl_helper_reset t) = beats t" for t by (rule beats_trace) simp
  have "beats s2 = beats s"
    using s2 b r assms(1)
    by (auto simp: and_then_eq_Inr plain_cfg_def split: if_splits
        dest!: beats_beacon_id beats_dow_wakeup)
  moreover have "beats (s2\<lparr>dow_period_counter := c\<rparr>) = beats s2" for c by (rule beats_trace) simp
  ultimately show ?thesis by (simp add: s' dow_second_timer_def)
qed

text \<open>
  The heartbeat does not stop: in every configuration without deputies and periodic
  interests, a node that is not stopped answers each second message by setting the second
  timer again, exactly once.
\<close>

theorem second_timer_rearmed_once:
  assumes "plain_cfg cfg" "dow_state s \<noteq> DOW_STATE_STOPPED"
    and "loop_step cfg X s \<lparr>m_type = DOW_MSG_SECOND, m_content = pl\<rparr> = Inr s'"
  shows "beats s' = beats s + 1"
  using assms beats_period_over_inactive [OF assms(1), of X "counted cfg s"]
    beats_period_over_active [OF assms(1), of X "counted cfg s"]
  by (auto simp: loop_step_def on_second_plain dow_second_timer_def split: if_splits)

definition sec_msg :: msg where "sec_msg = \<lparr>m_type = DOW_MSG_SECOND, m_content = No_payload\<rparr>"

lemma ex_second_ok: "\<exists>s'. loop_step caching_cfg ex_ext ex_node sec_msg = Inr s'"
  by (simp add: sec_msg_def loop_step_def on_second_plain [OF plain_caching_cfg] ex_node_def)

theorem second_timer_rearmed_once_witness:
  "\<exists>s'. loop_step caching_cfg ex_ext ex_node sec_msg = Inr s' \<and> beats s' = beats ex_node + 1"
proof -
  obtain s' where s': "loop_step caching_cfg ex_ext ex_node
      \<lparr>m_type = DOW_MSG_SECOND, m_content = No_payload\<rparr> = Inr s'"
    using ex_second_ok unfolding sec_msg_def by blast
  have "dow_state ex_node \<noteq> DOW_STATE_STOPPED" by (simp add: ex_node_def)
  from second_timer_rearmed_once [OF plain_caching_cfg this s'] s' show ?thesis
    by (auto simp: sec_msg_def)
qed

section \<open>The state after a period\<close>

lemma state_radio_sleep [simp]: "dow_state (radio_sleep cfg X s) = dow_state s"
proof -
  have "dow_state (radio_sleep_now X s) = dow_state s" for s
  proof -
    define s1 where "s1 = (if \<not> dow_sleeping s then
      (let (t, s) = xtimer_now X s
       in s\<lparr>dow_ts_sleep := t, dow_time_active := dow_time_active s + (t - dow_ts_wakeup s),
            dow_sleeping := True\<rparr>) else s)"
    have "dow_state s1 = dow_state s" by (auto simp: s1_def xtimer_now_def)
    then show ?thesis
      by (auto simp: radio_sleep_now_def Let_def s1_def [symmetric] retry_sleep_def radio_get_def radio_set_def
          split: option.splits netopt_state.splits)
  qed
  then show ?thesis by (simp add: radio_sleep_def retry_sleep_def)
qed

lemma ctl_dow_sleep [simp]:
  "dow_state (dow_sleep cfg X n s) = DOW_STATE_INACTIVE"
  "\<not> DOW_DEPUTY cfg \<Longrightarrow> dow_period_counter (dow_sleep cfg X n s) = ucast n"
  by (simp_all add: dow_sleep_def Let_def dow_second_timer_def) (simp add: emit_def)

lemma go_sleep_counted: "fst (dow_go_sleep X (counted cfg s)) = fst (dow_go_sleep X s)"
  by (simp add: dow_go_sleep_def random_uint32_def)

lemma ctl_period_over_active:
  assumes "plain_cfg cfg" "DOW_XD cfg < 256"
  shows "dow_state (period_over_active cfg X s) =
      (if fst (dow_go_sleep X s) then DOW_STATE_INACTIVE else dow_state s) \<and>
    dow_period_counter (period_over_active cfg X s) = of_nat (DOW_XD cfg)"
proof -
  obtain sl s2 where g: "dow_go_sleep X s = (sl, s2)" by (cases "dow_go_sleep X s")
  have "ucast (of_nat (DOW_XD cfg) :: u8) = (of_nat (DOW_XD cfg) :: u32)"
    using assms(2) by (intro word_unat_eq_iff [THEN iffD2]) (simp add: unat_of_nat unsigned_ucast_eq take_bit_nat_eq_self)
  with assms(1) g state_of_view [OF view_read_eqs(6) [OF g]] show ?thesis
    by (auto simp: period_over_active_def plain_cfg_def dow_second_timer_def emit_def)
qed

lemma ctl_period_over_inactive:
  assumes "plain_cfg cfg" "period_over_inactive cfg X s = Inr s'" "dow_state s = DOW_STATE_INACTIVE"
  shows "dow_state s' = (if fst (dow_go_sleep X s) then DOW_STATE_INACTIVE else DOW_STATE_DEPUTY) \<and>
    dow_period_counter s' = of_nat (DOW_XD cfg)"
proof -
  obtain sl s1 where g: "dow_go_sleep X s = (sl, s1)" by (cases "dow_go_sleep X s")
  from assms g obtain s2 where s2: "(if sl then Inr s1 else
      and_then (dow_beacon_id cfg X (s1\<lparr>dow_state := DOW_STATE_DEPUTY\<rparr>))
        (\<lambda>s. dow_wakeup cfg X (ccnl_helper_reset s))) = Inr s2"
    and s': "s' = dow_second_timer (s2\<lparr>dow_period_counter := of_nat (DOW_XD cfg)\<rparr>)"
    unfolding period_over_inactive_def Let_def plain_cfg_def
    by (auto simp: and_then_eq_Inr)
  have r: "dow_state (ccnl_helper_reset t) = dow_state t" for t by (rule state_of_view) simp
  have "dow_state s2 = (if sl then DOW_STATE_INACTIVE else DOW_STATE_DEPUTY)"
    using s2 r assms(3) state_of_view [OF view_read_eqs(6) [OF g]]
    by (auto simp: and_then_eq_Inr split: if_splits
        dest!: view_beacon_id state_of_view state_dow_wakeup)
  then show ?thesis by (simp add: s' g dow_second_timer_def) (simp add: emit_def)
qed

text \<open>
  What the second message decides: before the period ends only the counter moves; when
  it ends the counter starts again at \<^verbatim>\<open>DOW_X * DOW_D\<close>, and the coin sends the node to sleep,
  or makes an inactive node active and leaves an active one as it is.
\<close>

theorem second_decides_state:
  assumes "plain_cfg cfg" "DOW_XD cfg < 256" "dow_state s \<noteq> DOW_STATE_STOPPED"
    and "loop_step cfg X s \<lparr>m_type = DOW_MSG_SECOND, m_content = pl\<rparr> = Inr s'"
  shows "dow_period_counter s' =
      (if dow_period_counter s = 1 then of_nat (DOW_XD cfg) else dow_period_counter s - 1) \<and>
    dow_state s' =
      (if dow_period_counter s \<noteq> 1 then dow_state s
       else if fst (dow_go_sleep X s) then DOW_STATE_INACTIVE
       else if dow_state s = DOW_STATE_INACTIVE then DOW_STATE_DEPUTY else dow_state s)"
proof -
  have st: "dow_state (counted cfg s) = dow_state s" by (rule state_of_view) simp
  have "on_second cfg X s = Inr s'" using assms(3,4) by (simp add: loop_step_def)
  then show ?thesis
    using ctl_period_over_active [OF assms(1,2), of X "counted cfg s"] st
      ctl_period_over_inactive [OF assms(1), of X "counted cfg s" s']
    by (auto simp: on_second_plain [OF assms(1)] go_sleep_counted dow_second_timer_def emit_def
        split: if_splits)
qed

theorem second_decides_state_witness:
  "\<exists>s'. loop_step caching_cfg ex_ext ex_node sec_msg = Inr s' \<and> dow_state s' = DOW_STATE_INACTIVE"
proof -
  obtain s' where s': "loop_step caching_cfg ex_ext ex_node
      \<lparr>m_type = DOW_MSG_SECOND, m_content = No_payload\<rparr> = Inr s'"
    using ex_second_ok unfolding sec_msg_def by blast
  have h: "DOW_XD caching_cfg < 256" "dow_state ex_node \<noteq> DOW_STATE_STOPPED"
    by (simp_all add: ex_node_def caching_cfg_def)
  have "dow_period_counter ex_node = 1" "fst (dow_go_sleep ex_ext ex_node)"
    by (simp_all add: dow_go_sleep_def random_uint32_def ex_ext_def ex_node_def float_ex)
  with second_decides_state [OF plain_caching_cfg h s'] s' show ?thesis
    by (auto simp: sec_msg_def)
qed

section \<open>Values and names\<close>

text \<open>The values and repetition marks of \<open>n\<close> rounds of data generation.\<close>

fun published :: "config \<Rightarrow> ext \<Rightarrow> nat \<Rightarrow> node \<Rightarrow> (u32 \<times> bool) list" where
  "published cfg X 0 s = []"
| "published cfg X (Suc n) s =
     (let (d, o', s) = next_value cfg X s in (d, o') # published cfg X n s)"

lemma published_two:
  assumes "DOW_REBC_LAST cfg" "\<not> send_old_data s" "x_now X (e_clock (env s)) \<noteq> 0"
  shows "\<exists>t. published cfg X (Suc (Suc n)) s =
      (x_now X (e_clock (env s)), False) # (x_now X (e_clock (env s)), True) # published cfg X n t \<and>
    \<not> send_old_data t \<and> e_clock (env t) = e_clock (env s) + 2"
  using assms by (simp add: next_value_def xtimer_now_def Let_def) (rule exI, rule conjI, rule refl, simp)

text \<open>
  With \<^verbatim>\<open>DOW_REBC_LAST\<close> every value is published twice in a row: over \<open>2 n\<close> rounds
  the k-th and the next one carry the clock of the k-th, once as new and once as old data
  (as long as the clock is not 0).
\<close>

theorem values_published_twice:
  assumes "DOW_REBC_LAST cfg" "\<not> send_old_data s" "\<forall>k. x_now X k \<noteq> 0"
  shows "published cfg X (2 * n) s =
    concat (map (\<lambda>k. [(x_now X (e_clock (env s) + 2 * k), False),
                       (x_now X (e_clock (env s) + 2 * k), True)]) [0..<n])"
  using assms(2)
proof (induction n arbitrary: s)
  case (Suc n)
  obtain t where t: "published cfg X (Suc (Suc (2 * n))) s =
      (x_now X (e_clock (env s)), False) # (x_now X (e_clock (env s)), True) # published cfg X (2 * n) t"
    "\<not> send_old_data t" "e_clock (env t) = e_clock (env s) + 2"
    using published_two [OF assms(1) Suc.prems] assms(3) by blast
  have "[0..<Suc n] = 0 # map Suc [0..<n]" by (simp add: map_Suc_upt upt_conv_Cons del: upt_Suc)
  with t Suc.IH [OF t(2)] show ?case
    by (simp del: upt_Suc published.simps add: o_def)
qed simp

definition ex_clock :: ext where "ex_clock = ex_ext\<lparr>x_now := \<lambda>n. of_nat (n mod 1000) + 1\<rparr>"

theorem values_published_twice_witness:
  "published caching_cfg ex_clock (2 * 2) ex_node = [(1, False), (1, True), (3, False), (3, True)]"
proof -
  have "DOW_REBC_LAST caching_cfg" "\<not> send_old_data ex_node"
    by (simp_all add: caching_cfg_def ex_node_def)
  moreover have "\<forall>k. x_now ex_clock k \<noteq> 0"
  proof
    fix k
    have "unat (of_nat (k mod 1000) + 1 :: u32) = k mod 1000 + 1"
    proof -
      have "k mod 1000 < 1000" by simp
      then have "k mod 1000 + 1 < 2 ^ 32" by simp
      then have "unat (of_nat (k mod 1000 + 1) :: u32) = k mod 1000 + 1"
        by (simp only: unat_of_nat) simp
      then show ?thesis by (simp add: add.commute)
    qed
    then have "of_nat (k mod 1000) + 1 \<noteq> (0 :: u32)" by (metis Suc_eq_plus1 Zero_not_Suc unat_0)
    then show "x_now ex_clock k \<noteq> 0" by (simp add: ex_clock_def)
  qed
  ultimately show ?thesis
    by (subst values_published_twice) (simp_all add: ex_clock_def ex_node_def upt_rec)
qed










text \<open>
  After 2^31 microseconds (36 minutes) on the clock, time stamps are not compared any
  more: \<^verbatim>\<open>strtol\<close> saturates, so a chunk with such a time stamp is taken for the newest of its
  source whatever the store holds, even a later one.
\<close>

theorem late_chunk_always_newest:
  assumes "2 ^ 31 \<le> unat v" "DOW_PRIO_CACHE cfg = 0"
  shows "f_user1 (fst (handle_flags cfg X c (strtol16 (hex8 v)) s))"
proof -
  have "strtol16 t \<le> LONG_MAX" for t
    by (simp add: strtol16_def Let_def LONG_MAX_def LONG_MIN_def)
  moreover have "strtol16 (hex8 v) = LONG_MAX" using assms(1) by (simp add: strtol16_hex8)
  ultimately have "\<forall>e \<in> set (contents (ccnl_relay s)). \<not> newer X (pfx (c_pkt c)) (strtol16 (hex8 v)) e"
    by (simp add: newer_def entry_ts_def not_less)
  with assms(2) show ?thesis by (simp add: handle_flags_def newer_scan_none Let_def)
qed

theorem late_chunk_always_newest_witness:
  "f_user1 (fst (handle_flags caching_cfg ex_ext (ex_entry 9 ''00000001'' ''80000000'')
     (strtol16 (hex8 0x80000000))
     (ex_store [(ex_entry 1 ''00000001'' ''90000000'')\<lparr>f_user1 := True\<rparr>])))"
  by (rule late_chunk_always_newest) (simp_all add: caching_cfg_def)

section \<open>Sensors\<close>

definition sensors_ok :: "node \<Rightarrow> bool" where
  "sensors_ok s \<longleftrightarrow> unat (dow_sensor_nr s) \<le> DOW_SENSOR_MAX_NR \<and> length (dow_sensors s) = DOW_SENSOR_MAX_NR"

definition sensor_cmd :: "config \<Rightarrow> ext \<Rightarrow> node \<Rightarrow> string list \<Rightarrow> fault + node" where
  "sensor_cmd cfg X s argv = and_then (add_sensor cfg X argv s) (\<lambda>(_, s). Inr s)"

lemma sensor_cmd_nr:
  assumes "sensor_cmd cfg X s argv = Inr s'" "sensors_ok s"
  shows "sensors_ok s' \<and> unat (dow_sensor_nr s') =
    (if length argv \<ge> 2 \<and> unat (dow_sensor_nr s) < 5 then unat (dow_sensor_nr s) + 1 else unat (dow_sensor_nr s))"
proof (cases "length argv < 2 \<or> unat (dow_sensor_nr s) \<ge> DOW_SENSOR_MAX_NR")
  case True
  then have "sensor_cmd cfg X s argv = Inr s"
    by (auto simp: sensor_cmd_def add_sensor_def)
  with True assms show ?thesis by (auto simp: DOW_SENSOR_MAX_NR_def)
next
  case False
  then have "unat (dow_sensor_nr s + 1) = unat (dow_sensor_nr s) + 1"
    by (simp add: DOW_SENSOR_MAX_NR_def unat_word_ariths)
  with False assms show ?thesis
    unfolding sensor_cmd_def add_sensor_def Let_def
    by (auto simp: sensors_ok_def DOW_SENSOR_MAX_NR_def ccnl_helper_subsribe_def and_then_eq_Inr
        split: if_splits)
qed

interpretation sensors_run: res_invariant "sensor_cmd cfg X" sensors_ok
  by unfold_locales (blast dest: sensor_cmd_nr)

text \<open>
  The sensor table does not overflow: after any sequence of \<^verbatim>\<open>sensor\<close> commands the node
  has as many sensors as commands with an argument, but at most five, and choosing one of
  them for the next value stays inside the table.
\<close>

theorem sensors_bounded:
  assumes "run_res (sensor_cmd cfg X) s cmds = Inr s'"
    and "dow_sensor_nr s = 0" "length (dow_sensors s) = DOW_SENSOR_MAX_NR"
  shows "unat (dow_sensor_nr s') = min 5 (length (filter (\<lambda>a. length a \<ge> 2) cmds)) \<and>
    (\<exists>p t. data_name X v s' = Inr (p, t))"
proof -
  have ok: "sensors_ok s" using assms(2,3) by (simp add: sensors_ok_def)
  have n: "unat (dow_sensor_nr s') =
      min 5 (unat (dow_sensor_nr s) + length (filter (\<lambda>a. length a \<ge> 2) cmds))"
    if "run_res (sensor_cmd cfg X) s cmds = Inr s'" "sensors_ok s" for s
    using that
  proof (induction cmds arbitrary: s)
    case Nil
    then show ?case by (simp add: sensors_ok_def DOW_SENSOR_MAX_NR_def)
  next
    case (Cons a cmds)
    then obtain t where t: "sensor_cmd cfg X s a = Inr t" "run_res (sensor_cmd cfg X) t cmds = Inr s'"
      by (auto simp: and_then_eq_Inr)
    from sensor_cmd_nr [OF t(1) Cons.prems(2)] Cons.IH [OF t(2)] Cons.prems(2) show ?case
      by (auto simp: sensors_ok_def DOW_SENSOR_MAX_NR_def split: if_splits)
  qed
  have "sensors_ok s'" using sensors_run.run_inv [OF ok assms(1)] .
  have "\<exists>p t. data_name X v s' = Inr (p, t)"
  proof (cases "dow_sensor_nr s' > 0")
    case True
    obtain r t where r: "random_uint32 X s' = (r, t)" by (cases "random_uint32 X s'")
    have "unat r mod unat (dow_sensor_nr s') < unat (dow_sensor_nr s')"
      using True by (simp add: word_less_nat_alt)
    moreover have "dow_sensors t = dow_sensors s'" "dow_sensor_nr t = dow_sensor_nr s'"
      using r by (auto simp: random_uint32_def)
    ultimately show ?thesis
      using True r \<open>sensors_ok s'\<close> by (simp add: data_name_def sensors_ok_def)
  next
    case False
    then show ?thesis by (simp add: data_name_def Let_def)
  qed
  with n [OF assms(1) ok] assms(2) show ?thesis by simp
qed

lemma ex_sensor_cmd: "\<exists>s'. run_res (sensor_cmd caching_cfg ex_ext) s cmds = Inr s'"
proof -
  have "\<exists>s'. sensor_cmd caching_cfg ex_ext s a = Inr s'" for s a
    by (simp add: sensor_cmd_def add_sensor_def ccnl_helper_subsribe_def ex_ext_def ex_uri_def Let_def)
  then show ?thesis by (induction cmds arbitrary: s) (simp_all add: and_then_eq_Inr, metis)
qed

theorem sensors_bounded_witness:
  "\<exists>s'. run_res (sensor_cmd caching_cfg ex_ext) ex_node (replicate 7 [''sensor'', ''a'']) = Inr s' \<and>
    unat (dow_sensor_nr s') = 5"
proof -
  obtain s' where s': "run_res (sensor_cmd caching_cfg ex_ext) ex_node
      (replicate 7 [''sensor'', ''a'']) = Inr s'"
    using ex_sensor_cmd by blast
  have "dow_sensor_nr ex_node = 0" "length (dow_sensors ex_node) = DOW_SENSOR_MAX_NR"
    by (simp_all add: ex_node_def DOW_SENSOR_MAX_NR_def)
  from sensors_bounded [OF s' this] s' show ?thesis by auto
qed

end
