(* ===== verification/Dow_Net_Props.thy ===== *)
theory Dow_Net_Props
  imports Dow_Comm_Props Dow_Props
begin

text \<open>
  Properties of the start-up beaconing and of the two callbacks: the position among the
  neighbours, the chunk an interest gets, who frees a packet, and a chunk number that puts a
  node to sleep for good.
\<close>

section \<open>Beacons\<close>

lemma byte_char_of [simp]: "byte (char_of n) = n mod 256"
  by (simp add: byte_def)

lemma bytes2:
  assumes "n < 65536"
  shows "n mod 256 + 256 * (n div 256 mod 256) = (n :: nat)"
proof -
  have "n div 256 mod 256 = n div 256" using assms by (simp add: less_mult_imp_div_less)
  then show ?thesis by simp
qed

lemma bytes4:
  assumes "n < 4294967296"
  shows "n mod 256 + 256 * (n div 256 mod 256 + 256 * (n div 65536 mod 256 +
    256 * (n div 16777216 mod 256))) = (n :: nat)"
proof -
  have "n div 16777216 mod 256 = n div 16777216" using assms by (simp add: less_mult_imp_div_less)
  moreover have "n div 65536 mod 256 + 256 * (n div 16777216) = n div 65536"
    using div_mult2_eq [of n 65536 256] by simp
  moreover have "n div 256 mod 256 + 256 * (n div 65536) = n div 256"
    using div_mult2_eq [of n 256 256] by simp
  ultimately show ?thesis by simp
qed

lemma parse_beacon_bytes: "parse_beacon (beacon_bytes b) = Some b"
proof -
  have "of_nat (unat (magic_key b) mod 256 + 256 * (unat (magic_key b) div 256 mod 256)) = magic_key b"
    by (subst bytes2) (use unsigned_less [of "magic_key b", where 'a = nat] in simp_all)
  moreover have "of_nat (unat (b_id b) mod 256 + 256 * (unat (b_id b) div 256 mod 256 +
      256 * (unat (b_id b) div 65536 mod 256 + 256 * (unat (b_id b) div 16777216 mod 256)))) = b_id b"
    by (subst bytes4) (use unsigned_less [of "b_id b", where 'a = nat] in simp_all)
  ultimately show ?thesis
    unfolding beacon_bytes_def list.map parse_beacon.simps byte_char_of by simp
qed

definition beacon_of :: "u32 \<Rightarrow> string" where
  "beacon_of i = beacon_bytes \<lparr>magic_key = BEACONING_MK, b_id = i\<rparr>"

definition heard :: "ext \<Rightarrow> node \<Rightarrow> u32 list \<Rightarrow> node" where
  "heard X s ids = foldl (\<lambda>s i. handle_beacon X (beacon_of i) s) s ids"

lemma handle_beacon_of:
  "handle_beacon X (beacon_of i) s =
    (if bloom_check X (dow_neighbors s) i then s
     else (let s = s\<lparr>dow_neighbors := dow_neighbors s @ [i], dow_size := dow_size s + 1\<rparr>
           in if i < dow_my_id s then s\<lparr>dow_position := dow_position s + 1\<rparr> else s))"
  by (simp add: handle_beacon_def beacon_of_def parse_beacon_bytes)

text \<open>
  What RIOT's Bloom filter promises: whatever was added is found. Something that was not added
  may be found too.
\<close>

definition bloom_sound :: "ext \<Rightarrow> bool" where
  "bloom_sound X \<longleftrightarrow> (\<forall>ids. \<forall>i \<in> set ids. bloom_check X ids i)"

lemma heard_snoc: "heard X s (ids @ [i]) = handle_beacon X (beacon_of i) (heard X s ids)"
  by (simp add: heard_def)

lemma heard_counts:
  assumes "bloom_sound X" "dow_neighbors s = []" "dow_size s = 1" "dow_position s = 0"
  shows "distinct (dow_neighbors (heard X s ids)) \<and> set (dow_neighbors (heard X s ids)) \<subseteq> set ids \<and>
    dow_my_id (heard X s ids) = dow_my_id s \<and>
    dow_size (heard X s ids) = of_nat (1 + length (dow_neighbors (heard X s ids))) \<and>
    dow_position (heard X s ids) =
      of_nat (length (filter (\<lambda>i. i < dow_my_id s) (dow_neighbors (heard X s ids))))"
proof (induction ids rule: rev_induct)
  case Nil
  then show ?case using assms(2-4) by (simp add: heard_def)
next
  case (snoc i ids)
  have "\<not> bloom_check X (dow_neighbors (heard X s ids)) i \<Longrightarrow> i \<notin> set (dow_neighbors (heard X s ids))"
    using assms(1) by (auto simp: bloom_sound_def)
  with snoc show ?case by (auto simp: heard_snoc handle_beacon_of Let_def)
qed

text \<open>An identifier is only left out where the filter takes it for one of those before it.\<close>

lemma heard_complete:
  assumes "\<And>ns i. set ns \<subseteq> set ids \<Longrightarrow> i \<in> set ids \<Longrightarrow> bloom_check X ns i \<Longrightarrow> i \<in> set ns"
    and "bloom_sound X" "dow_neighbors s = []" "dow_size s = 1" "dow_position s = 0"
  shows "set (dow_neighbors (heard X s ids)) = set ids"
proof -
  have "set (dow_neighbors (heard X s js)) = set js" if "set js \<subseteq> set ids" for js
    using that
  proof (induction js rule: rev_induct)
    case Nil
    then show ?case using assms(3) by (simp add: heard_def)
  next
    case (snoc i js)
    then have "bloom_check X (dow_neighbors (heard X s js)) i \<Longrightarrow> i \<in> set js"
      using assms(1) [of "dow_neighbors (heard X s js)" i] by auto
    with snoc show ?case by (auto simp: heard_snoc handle_beacon_of Let_def)
  qed
  then show ?thesis by simp
qed

lemma length_filter_card: "distinct xs \<Longrightarrow> length (filter P xs) = card {x \<in> set xs. P x}"
  by (metis distinct_card distinct_filter set_filter)

lemma heard_numbers:
  assumes "bloom_sound X" "dow_neighbors s = []" "dow_size s = 1" "dow_position s = 0"
    and "card (set ids) < 65535"
  shows "set (dow_neighbors (heard X s ids)) \<subseteq> set ids \<and>
    unat (dow_size (heard X s ids)) = 1 + card (set (dow_neighbors (heard X s ids))) \<and>
    unat (dow_position (heard X s ids)) = card {i \<in> set (dow_neighbors (heard X s ids)). i < dow_my_id s}"
proof -
  define ns where "ns = dow_neighbors (heard X s ids)"
  from heard_counts [OF assms(1-4), of ids, folded ns_def]
  have h: "distinct ns" "set ns \<subseteq> set ids" "dow_size (heard X s ids) = of_nat (1 + length ns)"
    "dow_position (heard X s ids) = of_nat (length (filter (\<lambda>i. i < dow_my_id s) ns))" by blast+
  have "length ns \<le> card (set ids)" using card_mono [OF _ h(2)] distinct_card [OF h(1)] by simp
  moreover have "length (filter (\<lambda>i. i < dow_my_id s) ns) \<le> length ns" by simp
  ultimately have "1 + length ns < 65536" "length (filter (\<lambda>i. i < dow_my_id s) ns) < 65536"
    using assms(5) by linarith+
  then show ?thesis
    unfolding ns_def [symmetric] length_filter_card [OF h(1), symmetric] distinct_card [OF h(1)] h(3,4)
    using h(2) by (simp only: unat_of_nat) simp
qed

text \<open>
  C17. Counting neighbours, for every Bloom filter that finds what was added: after beacons in any
  order, any number of times each, the node has entered distinct identifiers that it heard, its
  size is one more than their number and its position the number of smaller ones among them, so
  no neighbour counts twice and none is invented; the 16-bit counters do not overflow below
  65535 neighbours. A neighbour can be missing, but only by a false positive of the filter:
  if the filter takes none of the identifiers that were heard for others of them, all are entered.
\<close>

theorem beacons_count_neighbours:
  assumes "\<And>ids i. i \<in> set ids \<Longrightarrow> bloom_check X ids i"
    and "dow_neighbors s = []" "dow_size s = 1" "dow_position s = 0" "card (set ids) < 65535"
  shows "set (dow_neighbors (heard X s ids)) \<subseteq> set ids \<and>
    unat (dow_size (heard X s ids)) = 1 + card (set (dow_neighbors (heard X s ids))) \<and>
    unat (dow_position (heard X s ids)) = card {i \<in> set (dow_neighbors (heard X s ids)). i < dow_my_id s} \<and>
    ((\<forall>ns i. set ns \<subseteq> set ids \<longrightarrow> i \<in> set ids \<longrightarrow> bloom_check X ns i \<longrightarrow> i \<in> set ns) \<longrightarrow>
      set (dow_neighbors (heard X s ids)) = set ids)"
proof -
  have X: "bloom_sound X" using assms(1) by (simp add: bloom_sound_def)
  from heard_numbers [OF this assms(2-5)] heard_complete [OF _ X assms(2-4), of ids] show ?thesis
    by blast
qed

text \<open>A filter with one hash function, the identifier modulo 8, which takes 15 for 7.\<close>

definition bloom8 :: ext where
  "bloom8 = ex_ext\<lparr>bloom_check := (\<lambda>ids i. \<exists>j \<in> set ids. j mod 8 = i mod 8)\<rparr>"

theorem beacons_count_neighbours_witness:
  "unat (dow_size (heard bloom8 ex_node [7, 5, 15, 7])) = 3 \<and>
   unat (dow_position (heard bloom8 ex_node [7, 5, 15, 7])) = 2 \<and>
   set (dow_neighbors (heard bloom8 ex_node [7, 5, 15, 7])) = {7, 5}"
proof -
  have b: "\<And>ids i. i \<in> set ids \<Longrightarrow> bloom_check bloom8 ids i" by (auto simp: bloom8_def)
  have n: "dow_neighbors ex_node = []" "dow_size ex_node = 1" "dow_position ex_node = 0"
    "card (set [7, 5, 15, 7 :: u32]) < 65535"
    by (simp_all add: ex_node_def card_insert_if)
  have s: "dow_neighbors (heard bloom8 ex_node [7, 5, 15, 7]) = [7, 5]"
    by (simp add: heard_def handle_beacon_of bloom8_def ex_node_def Let_def)
  have m: "{i \<in> set [7, 5]. i < dow_my_id ex_node} = set [7, 5 :: u32]" by (auto simp: ex_node_def)
  have k: "card (set [7, 5 :: u32]) = 2" by simp
  from beacons_count_neighbours [where X = bloom8 and ids = "[7, 5, 15, 7]", OF b n]
  show ?thesis unfolding s m k by simp
qed

text \<open>
  Positions are distinct: when every node of a set hears every other and no filter mistakes one
  of them for others, no two take the same position, so exactly one, the one with the smallest
  identifier, starts as deputy (position 0).
\<close>

theorem beacon_positions_distinct:
  assumes "\<And>ids i. i \<in> set ids \<Longrightarrow> bloom_check X ids i"
    and "\<And>ns i. set ns \<subseteq> N \<Longrightarrow> i \<in> N \<Longrightarrow> bloom_check X ns i \<Longrightarrow> i \<in> set ns"
    and "dow_neighbors s = []" "dow_size s = 1" "dow_position s = 0"
      "dow_neighbors t = []" "dow_size t = 1" "dow_position t = 0"
    and "set ids = N - {dow_my_id s}" "set ids' = N - {dow_my_id t}" "finite N" "card N < 65535"
      "dow_my_id s \<in> N" "dow_my_id t \<in> N" "dow_my_id s < dow_my_id t"
  shows "dow_position (heard X s ids) < dow_position (heard X t ids')"
proof -
  have X: "bloom_sound X" using assms(1) by (simp add: bloom_sound_def)
  have sub: "card (set ids) < 65535" "card (set ids') < 65535"
    using card_mono [OF assms(11), of "set ids"] card_mono [OF assms(11), of "set ids'"] assms(9,10,12)
    by auto
  have full: "set (dow_neighbors (heard X r is)) = set is"
    if "set is \<subseteq> N" "dow_neighbors r = []" "dow_size r = 1" "dow_position r = 0" for r "is"
    using that(1) by (intro heard_complete [OF assms(2) X that(2-4)]) blast+
  have "set ids \<subseteq> N" "set ids' \<subseteq> N" using assms(9,10) by auto
  then have "set (dow_neighbors (heard X s ids)) = set ids" "set (dow_neighbors (heard X t ids')) = set ids'"
    using full [of ids s] full [of ids' t] assms(3-8) by blast+
  then have n: "unat (dow_position (heard X s ids)) = card {i \<in> set ids. i < dow_my_id s}"
    "unat (dow_position (heard X t ids')) = card {i \<in> set ids'. i < dow_my_id t}"
    using heard_numbers [OF X assms(3-5) sub(1)] heard_numbers [OF X assms(6-8) sub(2)] by simp_all
  have "dow_my_id s \<in> {i \<in> set ids'. i < dow_my_id t}" using assms(10,13,15) by simp
  moreover have "dow_my_id s \<notin> {i \<in> set ids. i < dow_my_id s}" by simp
  moreover have "{i \<in> set ids. i < dow_my_id s} \<subseteq> {i \<in> set ids'. i < dow_my_id t}"
    unfolding assms(9,10) using less_trans [OF _ assms(15)] by blast
  ultimately have "{i \<in> set ids. i < dow_my_id s} \<subset> {i \<in> set ids'. i < dow_my_id t}" by blast
  then have "card {i \<in> set ids. i < dow_my_id s} < card {i \<in> set ids'. i < dow_my_id t}"
    by (intro psubset_card_mono) simp_all
  with n show ?thesis by (simp add: word_less_nat_alt)
qed

theorem beacon_positions_distinct_witness:
  "dow_position (heard ex_ext ex_node [0xFFFFFFFF]) <
   dow_position (heard ex_ext (ex_node\<lparr>dow_my_id := 0xFFFFFFFF\<rparr>) [0xCAFE0001])"
proof -
  have b: "bloom_check ex_ext ids i = (i \<in> set ids)" for ids i by (simp add: ex_ext_def)
  show ?thesis
    by (rule beacon_positions_distinct [where N = "{0xCAFE0001, 0xFFFFFFFF}"])
      (auto simp: ex_node_def b)
qed

section \<open>The chunk for an interest\<close>

lemma chunk_walk_all:
  assumes "i \<le> pos" "pos < limit"
  shows "chunk_walk X False mp limit pos i fs cs =
    (i + int (min (nat (pos - i)) (length cs)), drop (nat (pos - i)) cs,
     if nat (pos - i) = 0 \<or> cs = [] then fs else Some (cs ! (min (nat (pos - i)) (length cs) - 1)))"
  using assms(1)
proof (induction cs arbitrary: i fs)
  case (Cons c cs)
  show ?case
  proof (cases "i < pos")
    case True
    then have k: "nat (pos - i) = Suc (nat (pos - (i + 1)))" by arith
    with True k Cons.IH [of "i + 1"] assms(2) show ?thesis
      by (auto simp: nth_Cons' min_def)
  next
    case False
    with Cons.prems show ?thesis by simp
  qed
qed simp

text \<open>A store entry by number: past the end, the last one.\<close>

definition entry_for :: "nat \<Rightarrow> content_s list \<Rightarrow> content_s" where
  "entry_for n cs = cs ! min n (length cs - 1)"

definition any_interest :: "ext \<Rightarrow> node \<Rightarrow> int \<Rightarrow> pkt \<Rightarrow> bool" where
  "any_interest X s n p \<longleftrightarrow> prefix_cmp X (all_pfx s) (pfx p) CMP_MATCH \<ge> 1 \<and> chunknum (pfx p) = Some n"

text \<open>The node counts the interest before it looks for the chunk.\<close>

definition interest_counted :: "node \<Rightarrow> node" where
  "interest_counted s = s\<lparr>dow_my_prefix_interest_count := dow_my_prefix_interest_count s + 1\<rparr>"

definition deputy_node :: "config \<Rightarrow> node \<Rightarrow> bool" where
  "deputy_node cfg s \<longleftrightarrow> plain_cfg cfg \<and> \<not> DOW_INT_INT cfg \<and> DOW_PSR cfg = 0 \<and> \<not> DOW_RAND_SEEDING cfg \<and>
     dow_state s = DOW_STATE_DEPUTY \<and> \<not> dow_is_registered s"

lemma producer_deputy:
  assumes "deputy_node cfg s" "any_interest X s n p"
  shows "ccnlriot_producer cfg X face p s = producer_serve cfg X face p s"
  using assms
  by (simp add: ccnlriot_producer_def deputy_node_def any_interest_def plain_cfg_def Let_def)

text \<open>
  C14. The answer to an interest for any content: without deputies, an active node with no
  subscription answers chunk number \<open>n\<close> (below the cache size) with the name of its n-th
  entry, or of its last one past the end of the store; the entry gets the number reached.
  With an empty store the interest is dropped.
\<close>

theorem producer_serves_chunk:
  assumes "deputy_node cfg s" "any_interest X s n p" "0 \<le> n" "n < int (CCNLRIOT_CACHE_SIZE cfg)"
  shows "ccnlriot_producer cfg X face p s =
    (if contents (ccnl_relay s) = [] then Inr (1, p, emit (Packet_freed p) (interest_counted s))
     else let e = entry_for (nat n) (contents (ccnl_relay s)) in
       Inr (0, p\<lparr>pfx := prefix_dup X (pfx (c_pkt e))\<rparr>,
         emit (Prefix_freed (pfx p))
           (number_entry e (int (min (nat n) (length (contents (ccnl_relay s))))) (interest_counted s))))"
proof -
  let ?cs = "contents (ccnl_relay s)"
  have w: "chunk_walk X False (my_pfx s) (int (CCNLRIOT_CACHE_SIZE cfg)) n 0 None ?cs =
    (int (min (nat n) (length ?cs)), drop (nat n) ?cs,
     if nat n = 0 \<or> ?cs = [] then None else Some (?cs ! (min (nat n) (length ?cs) - 1)))"
    using chunk_walk_all [OF assms(3,4), of X "my_pfx s" None ?cs] by simp
  have l: "\<not> int (min (nat n) (length ?cs)) \<ge> int (CCNLRIOT_CACHE_SIZE cfg)" using assms(3,4) by linarith
  have c: "chunknum (pfx p) = Some n" "n \<noteq> -1" using assms(2,3) by (auto simp: any_interest_def)
  have d: "\<not> DOW_DEPUTY cfg" "\<not> DOW_RAND_SEEDING cfg" "\<not> dow_is_registered s"
    using assms(1) by (simp_all add: deputy_node_def plain_cfg_def)
  show ?thesis
  proof (cases "nat n < length ?cs")
    case True
    then have "?cs \<noteq> []" by auto
    with True show ?thesis
      using c d l w assms(3)
      by (simp add: producer_deputy [OF assms(1,2)] producer_serve_def Let_def interest_counted_def
          entry_for_def hd_drop_conv_nth min_def)
  next
    case False
    then show ?thesis
      using c d l w
      by (auto simp: producer_deputy [OF assms(1,2)] producer_serve_def Let_def interest_counted_def
          entry_for_def min_def)
  qed
qed

definition ex_all_interest :: "int \<Rightarrow> pkt" where
  "ex_all_interest n = \<lparr>pfx = \<lparr>comp = [''*''], chunknum = Some n\<rparr>,
     content = \<lparr>cvalue = [], cnum = 0\<rparr>, contlen = 0\<rparr>"

lemma ex_any_interest: "any_interest ex_ext (ex_store es) n (ex_all_interest n)"
  by (simp add: any_interest_def ex_all_interest_def ex_store_simps)

lemma ex_deputy_node: "deputy_node caching_cfg (ex_store es)"
  by (simp add: deputy_node_def plain_caching_cfg) (simp add: caching_cfg_def ex_store_simps)

theorem producer_serves_chunk_witness:
  "\<exists>s'. ccnlriot_producer caching_cfg ex_ext 1 (ex_all_interest 7)
      (ex_store [ex_entry 1 ''00000001'' ''00000010'', ex_entry 2 ''00000002'' ''00000020'']) =
    Inr (0, (ex_all_interest 7)\<lparr>pfx := \<lparr>comp = [''t'', ''a'', ''00000002'', ''00000020''], chunknum = None\<rparr>\<rparr>, s')"
proof -
  have "(0 :: int) \<le> 7" "7 < int (CCNLRIOT_CACHE_SIZE caching_cfg)" by (simp_all add: caching_cfg_def)
  from producer_serves_chunk [OF ex_deputy_node ex_any_interest this, where face = 1] show ?thesis
    by (simp add: entry_for_def ex_store_simps min_def Let_def)
qed

section \<open>Who frees the packet\<close>

fun is_packet_free :: "effect \<Rightarrow> bool" where
  "is_packet_free (Packet_freed _) = True"
| "is_packet_free _ = False"

definition frees :: "node \<Rightarrow> nat" where "frees = calls is_packet_free"

lemma frees_emit [simp]: "frees (emit e s) = frees s + (if is_packet_free e then 1 else 0)"
  by (simp add: frees_def)

lemma frees_trace: "trace s' = trace s \<Longrightarrow> frees s' = frees s"
  by (simp add: frees_def calls_def)

lemma frees_bounced: "producer_bounced X p s = Some s' \<Longrightarrow> frees s' = frees s"
proof -
  have "frees (t\<lparr>ccnl_relay := r, dow_prevent_sleep := v\<rparr>) = frees t" for t r v by (rule frees_trace) simp
  then show "producer_bounced X p s = Some s' \<Longrightarrow> frees s' = frees s"
    by (auto simp: producer_bounced_def Let_def split: option.splits if_splits)
qed

lemma frees_serve:
  assumes "producer_serve cfg X face p s = Inr (r, p', s')"
  shows "(r = 0 \<and> frees s' = frees s) \<or> (r = 1 \<and> (\<exists>t. s' = emit (Packet_freed p) t))"
proof (cases "chunknum (pfx p) = None \<or> chunknum (pfx p) = Some (-1)")
  case True
  with assms show ?thesis by (auto simp: producer_serve_def Let_def)
next
  case False
  define s2 where "s2 = (if DOW_DEPUTY cfg then (interest_counted s)\<lparr>dow_state := DOW_STATE_HANDOVER\<rparr>
    else interest_counted s)"
  obtain pos s3 where pos: "(if DOW_RAND_SEEDING cfg then dow_random_chunk X s2
      else Inr (the (chunknum (pfx p)), s2)) = Inr (pos, s3)"
    using assms False unfolding producer_serve_def Let_def interest_counted_def [symmetric] s2_def [symmetric]
    by (auto simp: and_then_eq_Inr)
  have "trace s3 = trace s"
    using pos by (auto simp: s2_def interest_counted_def dow_random_chunk_def random_uint32_def trace_def
        Let_def split: if_splits)
  moreover have "frees (number_entry e n s3) = frees s3" for e n
    by (rule frees_trace) (simp add: number_entry_def set_contents_def)
  ultimately show ?thesis
    using assms False pos frees_trace [of s3 s]
    unfolding producer_serve_def Let_def interest_counted_def [symmetric] s2_def [symmetric]
    by (auto simp: and_then_eq_Inr split: if_splits option.splits prod.splits)
qed

text \<open>
  Ownership of an interest: in every configuration and state, \<^verbatim>\<open>ccnlriot_producer\<close>
  returns 1 exactly when it has taken the packet, which it then frees as its last act, and
  frees no packet when it returns 0 and CCN-lite goes on with it.
\<close>

theorem producer_frees_iff_handled:
  assumes "ccnlriot_producer cfg X face p s = Inr (r, p', s')"
  shows "(r = 0 \<and> frees s' = frees s) \<or> (r = 1 \<and> (\<exists>t. s' = emit (Packet_freed p) t))"
proof -
  have t: "frees (prefix_seen_interest ch s) = frees s" for ch
    by (rule frees_trace) (simp add: prefix_seen_interest_def trace_def)
  show ?thesis
  proof (cases "if DOW_INT_INT cfg then producer_bounced X p s else None")
    case (Some u)
    then have "frees u = frees s" by (auto split: if_splits dest: frees_bounced)
    with assms Some show ?thesis unfolding ccnlriot_producer_def Let_def by (auto split: if_splits)
  next
    case None
    show ?thesis
      using assms None t
      unfolding ccnlriot_producer_def Let_def
      by (auto simp: and_then_eq_Inr split: if_splits dest!: frees_serve)
  qed
qed

theorem producer_frees_iff_handled_witness:
  "frees (ex_store []) < frees (snd (snd (projr (ccnlriot_producer caching_cfg ex_ext 1 (ex_all_interest 7) (ex_store [])))))"
proof -
  have h: "(0 :: int) \<le> 7" "7 < int (CCNLRIOT_CACHE_SIZE caching_cfg)" by (simp_all add: caching_cfg_def)
  have "contents (ccnl_relay (ex_store [])) = []" by (simp add: ex_store_simps)
  then have r: "ccnlriot_producer caching_cfg ex_ext 1 (ex_all_interest 7) (ex_store []) =
      Inr (1, ex_all_interest 7, emit (Packet_freed (ex_all_interest 7)) (interest_counted (ex_store [])))"
    using producer_deputy [where face = 1, OF ex_deputy_node [of "[]"] ex_any_interest [of "[]" 7]]
    by (simp add: producer_serve_def Let_def ex_all_interest_def interest_counted_def caching_cfg_def
        ex_store_simps)
  have "frees (interest_counted (ex_store [])) = frees (ex_store [])"
    by (rule frees_trace) (simp add: interest_counted_def)
  with producer_frees_iff_handled [OF r] r show ?thesis by simp
qed

section \<open>A chunk number that ends a node\<close>

lemma chunk_walk_past:
  "limit \<le> pos \<Longrightarrow> i \<le> limit \<Longrightarrow>
   chunk_walk X False mp limit pos i fs cs = chunk_walk X False mp (limit + 1) limit i fs cs"
  by (induction cs arbitrary: i fs) auto

lemma producer_high:
  assumes "deputy_node cfg s" "any_interest X s n p" "int (CCNLRIOT_CACHE_SIZE cfg) \<le> n"
    and "CCNLRIOT_CACHE_SIZE cfg \<le> length (contents (ccnl_relay s))" "0 < CCNLRIOT_CACHE_SIZE cfg"
  shows "ccnlriot_producer cfg X face p s =
    and_then (send_ack cfg X face (all_pfx s) (int (CCNLRIOT_CACHE_SIZE cfg)) (interest_counted s))
      (\<lambda>s. Inr (1, p, emit (Packet_freed p) (emit (Msg_sent DOW_MSG_INACTIVE No_payload) s)))"
proof -
  let ?cs = "contents (ccnl_relay s)" and ?l = "int (CCNLRIOT_CACHE_SIZE cfg)"
  have "chunk_walk X False (my_pfx s) ?l n 0 None ?cs =
    chunk_walk X False (my_pfx s) (?l + 1) ?l 0 None ?cs"
    using assms(3) by (intro chunk_walk_past) simp_all
  also have "\<dots> = (?l, drop (CCNLRIOT_CACHE_SIZE cfg) ?cs, Some (?cs ! (CCNLRIOT_CACHE_SIZE cfg - 1)))"
    using assms(4,5) chunk_walk_all [of 0 ?l "?l + 1" X "my_pfx s" None ?cs]
    by (auto simp: min_def)
  finally have w: "chunk_walk X False (my_pfx s) ?l n 0 None ?cs =
      (?l, drop (CCNLRIOT_CACHE_SIZE cfg) ?cs, Some (?cs ! (CCNLRIOT_CACHE_SIZE cfg - 1)))" .
  have c: "chunknum (pfx p) = Some n" "n \<noteq> -1" using assms(2,3) by (auto simp: any_interest_def)
  have d: "\<not> DOW_DEPUTY cfg" "\<not> DOW_RAND_SEEDING cfg" "\<not> dow_is_registered s"
    using assms(1) by (simp_all add: deputy_node_def plain_cfg_def)
  show ?thesis
    using c d w by (simp add: producer_deputy [OF assms(1,2)] producer_serve_def Let_def interest_counted_def)
qed

text \<open>
  The fallback chunk is not used at the cache's limit: without deputies an interest
  with a chunk number of at least the cache size, at a node with a full store, is still
  answered like the end of a hand-over, and the node tells itself to go inactive.
\<close>

theorem high_chunk_requests_sleep:
  assumes "deputy_node cfg s" "any_interest X s n p" "int (CCNLRIOT_CACHE_SIZE cfg) \<le> n"
    and "CCNLRIOT_CACHE_SIZE cfg \<le> length (contents (ccnl_relay s))" "0 < CCNLRIOT_CACHE_SIZE cfg"
    and "ccnlriot_producer cfg X face p s = Inr (r, p', s')"
  shows "r = 1 \<and> Msg_sent DOW_MSG_INACTIVE No_payload \<in> set (trace s')"
  using assms(6) producer_high [OF assms(1-5), of face] by (auto simp: and_then_eq_Inr)

definition small_cfg :: config where "small_cfg = caching_cfg\<lparr>CCNLRIOT_CACHE_SIZE := 1\<rparr>"

theorem high_chunk_requests_sleep_witness:
  "\<exists>p' s'. ccnlriot_producer small_cfg ex_ext 1 (ex_all_interest 1)
      (ex_store [ex_entry 1 ''00000001'' ''00000010'']) = Inr (1, p', s') \<and>
    Msg_sent DOW_MSG_INACTIVE No_payload \<in> set (trace s')"
proof -
  let ?s = "ex_store [ex_entry 1 ''00000001'' ''00000010'']"
  have d: "deputy_node small_cfg ?s"
    using ex_deputy_node [of "[ex_entry 1 ''00000001'' ''00000010'']"]
    by (simp add: small_cfg_def deputy_node_def plain_cfg_def)
  have h: "int (CCNLRIOT_CACHE_SIZE small_cfg) \<le> 1"
    "CCNLRIOT_CACHE_SIZE small_cfg \<le> length (contents (ccnl_relay ?s))" "0 < CCNLRIOT_CACHE_SIZE small_cfg"
    by (simp_all add: small_cfg_def ex_store_def set_contents_def)
  have "\<exists>c s1. ccnl_helper_create_cont small_cfg ex_ext q (CCNLRIOT_CONT_ACK @ [CHR 0x00]) False False t = Inr (c, s1)"
    for q t
    by (simp add: ccnl_helper_create_cont_def content_new_def CCNLRIOT_CONT_ACK_def DOW_CONT_LEN_def
        ex_ext_def Let_def split: option.splits)
  then have "\<exists>s1. send_ack small_cfg ex_ext f q n t = Inr s1" for f q n t
    by (simp add: send_ack_def) (metis (no_types, lifting) and_then_Inr case_prod_conv not_None_eq option.simps(4,5))
  then obtain s1 where "send_ack small_cfg ex_ext 1 (all_pfx ?s) (int (CCNLRIOT_CACHE_SIZE small_cfg))
      (interest_counted ?s) = Inr s1" by blast
  note r = producer_high [OF d ex_any_interest h, where face = 1, unfolded this and_then_Inr]
  from high_chunk_requests_sleep [OF d ex_any_interest h r] r show ?thesis by blast
qed

text \<open>
  And then it sleeps for good: a node that hears no beacons has \<^verbatim>\<open>dow_size\<close> 1, so the
  request to go inactive makes it sleep for 0 periods; the next second takes its counter
  from 0 to 2^32 - 1, and it would wake up after more than a hundred years.
\<close>

theorem inactive_request_wraps_counter:
  assumes "plain_cfg cfg" "DOW_XD cfg < 256" "dow_state s \<noteq> DOW_STATE_STOPPED" "dow_size s = 1"
  shows "\<exists>t. loop_step cfg X s \<lparr>m_type = DOW_MSG_INACTIVE, m_content = No_payload\<rparr> = Inr t \<and>
    dow_state t = DOW_STATE_INACTIVE \<and> dow_period_counter t = 0 \<and>
    (\<forall>u. loop_step cfg X t sec_msg = Inr u \<longrightarrow>
       dow_state u = DOW_STATE_INACTIVE \<and> unat (dow_period_counter u) = 2 ^ 32 - 1)"
proof -
  let ?t = "dow_sleep cfg X 0 s"
  have d: "\<not> DOW_DEPUTY cfg" using assms(1) by (simp add: plain_cfg_def)
  have t: "dow_state ?t = DOW_STATE_INACTIVE" "dow_period_counter ?t = 0" using d by simp_all
  have s: "dow_state (counted cfg ?t) = DOW_STATE_INACTIVE" using t(1) by (simp add: state_of_view [of _ ?t])
  have "loop_step cfg X ?t sec_msg = Inr (dow_second_timer (counted cfg ?t))"
    using t by (simp add: loop_step_def sec_msg_def on_second_plain [OF assms(1)])
  moreover have "dow_period_counter (dow_second_timer (counted cfg ?t)) = - 1"
    using t(2) by (simp add: dow_second_timer_def emit_def)
  moreover have "unat (- 1 :: u32) = 2 ^ 32 - 1" by (simp add: unsigned_minus_1_eq_mask mask_eq_exp_minus_1)
  ultimately have "\<forall>u. loop_step cfg X ?t sec_msg = Inr u \<longrightarrow>
       dow_state u = DOW_STATE_INACTIVE \<and> unat (dow_period_counter u) = 2 ^ 32 - 1"
    using s by (simp add: dow_second_timer_def)
  moreover have "loop_step cfg X s \<lparr>m_type = DOW_MSG_INACTIVE, m_content = No_payload\<rparr> = Inr ?t"
    using assms(3,4) by (simp add: loop_step_def)
  ultimately show ?thesis using t by blast
qed

theorem inactive_request_wraps_counter_witness:
  "\<exists>t. loop_step caching_cfg ex_ext ex_node \<lparr>m_type = DOW_MSG_INACTIVE, m_content = No_payload\<rparr> = Inr t \<and>
    dow_period_counter t = 0"
proof -
  have "DOW_XD caching_cfg < 256" "dow_state ex_node \<noteq> DOW_STATE_STOPPED" "dow_size ex_node = 1"
    by (simp_all add: ex_node_def caching_cfg_def)
  from inactive_request_wraps_counter [OF plain_caching_cfg this, of ex_ext] show ?thesis by blast
qed

text \<open>
  A node that is not deputy keeps only its own content: without interest-interest and
  debugging, foreign content is freed and nothing else changes.
\<close>

theorem consumer_drops_foreign:
  assumes "dow_state s = DOW_STATE_INACTIVE" "\<not> DOW_INT_INT cfg" "\<not> DOW_DEBUG cfg"
    and "prefix_cmp X (all_pfx s) (pfx p) CMP_MATCH < 1"
    and "2 < compcnt (pfx p)" "take 8 (comp (pfx p) ! 2) \<noteq> hex8 (dow_my_id s)"
  shows "ccnlriot_consumer cfg X face p s = Inr (1, emit (Packet_freed p) s)"
proof -
  have "s\<lparr>ccnl_relay := (ccnl_relay s)\<lparr>pit := pit (ccnl_relay s)\<rparr>\<rparr> = s" by simp
  moreover have "take 8 (hex8 v) = hex8 v" for v by simp
  ultimately show ?thesis
    using assms by (auto simp: ccnlriot_consumer_def consumer_own_def Let_def)
qed

theorem consumer_drops_foreign_witness:
  "ccnlriot_consumer caching_cfg ex_ext 1 (ex_chunk 0 ''00000001'' ''00000020'')
     (ex_node\<lparr>dow_state := DOW_STATE_INACTIVE\<rparr>) =
   Inr (1, emit (Packet_freed (ex_chunk 0 ''00000001'' ''00000020''))
     (ex_node\<lparr>dow_state := DOW_STATE_INACTIVE\<rparr>))"
proof -
  have "take 8 ''00000001'' \<noteq> hex8 0xCAFE0001" by (simp add: hex8_def hexdigit_def)
  then show ?thesis
    by (intro consumer_drops_foreign)
      (simp_all add: caching_cfg_def ex_chunk_def ex_entry_def ex_pkt_def ex_node_def ex_ext_def ex_prefix_cmp_def)
qed

end
