(* ===== verification/Dow_States.thy ===== *)
theory Dow_States
  imports Dow_Props
begin

text \<open>
  The states of a caching node without deputies as a machine of their own: which event may take
  it from which state to which, and that the code's node never does anything else.
\<close>

section \<open>The machine\<close>

text \<open>
  The message of a second may put a node to sleep or wake a sleeping one, the message
  \<open>DOW_MSG_INACTIVE\<close> always puts it to sleep, the stop command stops it, and nothing else changes
  its state. A stopped node stays stopped.
\<close>

inductive node_trans :: "event \<Rightarrow> dow_state_t \<Rightarrow> dow_state_t \<Rightarrow> bool" where
  stop: "node_trans Stop st DOW_STATE_STOPPED"
| stopped: "node_trans e DOW_STATE_STOPPED DOW_STATE_STOPPED"
| inactive: "m_type m = DOW_MSG_INACTIVE \<Longrightarrow> st \<noteq> DOW_STATE_STOPPED \<Longrightarrow> node_trans (Message m) st DOW_STATE_INACTIVE"
| sleep: "m_type m = DOW_MSG_SECOND \<Longrightarrow> st \<noteq> DOW_STATE_STOPPED \<Longrightarrow> node_trans (Message m) st DOW_STATE_INACTIVE"
| wake: "m_type m = DOW_MSG_SECOND \<Longrightarrow> node_trans (Message m) DOW_STATE_INACTIVE DOW_STATE_DEPUTY"
| message: "m_type m \<noteq> DOW_MSG_INACTIVE \<Longrightarrow> node_trans (Message m) st st"
| content: "node_trans (Content i p) st st"
| interest: "node_trans (Interest i p) st st"

inductive_simps node_trans_stopped: "node_trans e DOW_STATE_STOPPED st'"

inductive node_path :: "event list \<Rightarrow> dow_state_t \<Rightarrow> dow_state_t \<Rightarrow> bool" where
  none: "node_path [] st st"
| more: "node_trans e st st' \<Longrightarrow> node_path es st' st'' \<Longrightarrow> node_path (e # es) st st''"

section \<open>The code's node follows it\<close>

lemma state_second_timer [simp]: "dow_state (dow_second_timer s) = dow_state s"
  by (simp add: dow_second_timer_def)

lemma state_period_over_active:
  "dow_state (period_over_active cfg X s) = dow_state s \<or>
   dow_state (period_over_active cfg X s) = DOW_STATE_INACTIVE"
proof -
  define s1 where "s1 = (if DOW_KEEP_ALIVE_PFX cfg then s\<lparr>dow_my_prefix_interest_count := 0\<rparr> else s)"
  obtain sl s2 where g: "dow_go_sleep X s1 = (sl, s2)" by (cases "dow_go_sleep X s1")
  have "dow_state s1 = dow_state s" "dow_state s2 = dow_state s1"
    using state_of_view [OF view_read_eqs(6) [OF g]] by (simp_all add: s1_def)
  with g show ?thesis
    unfolding period_over_active_def Let_def s1_def [symmetric] by simp
qed

lemma state_period_over_inactive:
  assumes "period_over_inactive cfg X s = Inr s'"
  shows "dow_state s' = dow_state s \<or> dow_state s' = DOW_STATE_DEPUTY"
proof -
  obtain sl s1 where g: "dow_go_sleep X s = (sl, s1)" by (cases "dow_go_sleep X s")
  from assms g obtain s2 where s2: "(if sl then Inr s1 else
      and_then (dow_beacon_id cfg X (s1\<lparr>dow_state := DOW_STATE_DEPUTY\<rparr>))
        (\<lambda>s. dow_wakeup cfg X (ccnl_helper_reset s))) = Inr s2"
    and v: "dow_state s' = dow_state s2"
    unfolding period_over_inactive_def Let_def by (auto simp: and_then_eq_Inr)
  show ?thesis
  proof (cases sl)
    case True
    with s2 v state_of_view [OF view_read_eqs(6) [OF g]] show ?thesis by simp
  next
    case False
    with s2 obtain s3 where s3: "dow_beacon_id cfg X (s1\<lparr>dow_state := DOW_STATE_DEPUTY\<rparr>) = Inr s3"
      "dow_wakeup cfg X (ccnl_helper_reset s3) = Inr s2"
      by (auto simp: and_then_eq_Inr)
    have "dow_state (ccnl_helper_reset s3) = dow_state s3" by (rule state_of_view) simp
    with state_dow_wakeup [OF s3(2)] state_of_view [OF view_beacon_id [OF s3(1)]] v show ?thesis by simp
  qed
qed

lemma state_on_second:
  assumes "\<not> DOW_DEPUTY cfg" "on_second cfg X s = Inr s'"
  shows "dow_state s' = dow_state s \<or> dow_state s' = DOW_STATE_INACTIVE \<or>
    dow_state s = DOW_STATE_INACTIVE \<and> dow_state s' = DOW_STATE_DEPUTY"
proof -
  define s0 where "s0 = (emit (Timer_remove Dow_timer) s)\<lparr>dow_period_counter := dow_period_counter s - 1\<rparr>"
  have s0': "(emit (Timer_remove Dow_timer) s)\<lparr>dow_period_counter :=
      dow_period_counter (emit (Timer_remove Dow_timer) s) - 1\<rparr> = s0"
    by (simp add: s0_def emit_def)
  from assms(2) obtain s1 where r: "(if DOW_APMDMR cfg then reconsider_prefix cfg X s0 else Inr s0) = Inr s1"
    unfolding on_second_def Let_def s0' by (auto simp: and_then_eq_Inr)
  define s2 where "s2 = (if DOW_PSR cfg \<noteq> 0 \<and> unat (flagged_cache s1) + 1 \<ge> CCNLRIOT_CACHE_SIZE cfg
                 then ccnl_helper_publish_content cfg s1 else s1)"
  have "view s1 = view s0" using r by (auto split: if_splits dest!: view_reconsider_prefix)
  then have "view s2 = view s" by (simp add: s2_def s0_def)
  then have st: "dow_state s2 = dow_state s" by (rule state_of_view)
  have "(if dow_period_counter s2 = 0 then
             (if dow_state s2 = DOW_STATE_INACTIVE then period_over_inactive cfg X s2
              else Inr (period_over_active cfg X s2))
           else Inr (dow_second_timer s2)) = Inr s'"
    using assms r unfolding on_second_def Let_def s0'
    by (simp only: and_then_Inr s2_def [symmetric] if_False)
  with st state_period_over_active [of cfg X s2] state_period_over_inactive [of cfg X s2 s'] show ?thesis
    by (auto split: if_splits)
qed

lemma state_on_newdata:
  assumes "on_newdata cfg X s = Inr s'"
  shows "dow_state s' = dow_state s"
proof -
  from assms obtain s1 where s1: "(if dow_is_source s then dow_new_data cfg X s else Inr s) = Inr s1"
    and t: "dow_state s' = dow_state s1"
    by (auto simp: on_newdata_def and_then_eq_Inr)
  have "view s1 = view s" using s1 by (auto split: if_splits dest: view_new_data)
  from state_of_view [OF this] t show ?thesis by simp
qed

lemma state_populate_data:
  assumes "populate_data cfg X p s = Inr u"
  shows "dow_state u = dow_state s"
proof -
  from assms obtain s1 r where s1: "dow_wakeup cfg X s = Inr s1"
    "ccnl_helper_int X (Own_pfx p) None True s1 = Inr (r, u)"
    by (auto simp: populate_data_def and_then_eq_Inr)
  from state_dow_wakeup [OF s1(1)] state_of_view [OF view_helper_int [OF s1(2)]] show ?thesis by simp
qed

lemma state_on_received:
  assumes "on_received cfg X pl s = Inr s'"
  shows "dow_state s' = dow_state s"
proof (cases "DOW_INT_INT cfg")
  case True
  with assms obtain p s1 where "s' = emit (Prefix_freed p) s1"
    and s1: "(if dow_state s \<noteq> DOW_STATE_DEPUTY
      then populate_data cfg X p (s\<lparr>dow_prevent_sleep := dow_prevent_sleep s + 1\<rparr>) else Inr s) = Inr s1"
    by (cases pl) (auto simp: on_received_def and_then_eq_Inr)
  then have t: "dow_state s' = dow_state s1" by simp
  show ?thesis
  proof (cases "dow_state s = DOW_STATE_DEPUTY")
    case True
    with s1 t show ?thesis by simp
  next
    case False
    with s1 have "populate_data cfg X p (s\<lparr>dow_prevent_sleep := dow_prevent_sleep s + 1\<rparr>) = Inr s1" by simp
    from state_populate_data [OF this] t show ?thesis by simp
  qed
next
  case False
  with assms show ?thesis by (simp add: on_received_def)
qed

lemma loop_step_trans:
  assumes "\<not> DOW_DEPUTY cfg" "loop_step cfg X s m = Inr s'"
  shows "node_trans (Message m) (dow_state s) (dow_state s')"
proof (cases "dow_state s = DOW_STATE_STOPPED")
  case True
  with assms(2) have "s' = s" by (simp add: loop_step_def)
  with True node_trans.stopped show ?thesis by simp
next
  case False
  consider (second) "m_type m = DOW_MSG_SECOND" | (sleep) "m_type m = DOW_MSG_INACTIVE"
    | (other) "m_type m \<noteq> DOW_MSG_SECOND" "m_type m \<noteq> DOW_MSG_INACTIVE" by blast
  then show ?thesis
  proof cases
    case second
    with False assms(2) have "on_second cfg X s = Inr s'" by (simp add: loop_step_def)
    from state_on_second [OF assms(1) this] consider "dow_state s' = dow_state s"
      | "dow_state s' = DOW_STATE_INACTIVE"
      | "dow_state s = DOW_STATE_INACTIVE" "dow_state s' = DOW_STATE_DEPUTY" by blast
    then show ?thesis
      by cases (simp_all add: second False node_trans.message node_trans.sleep node_trans.wake)
  next
    case sleep
    with False assms(2) show ?thesis
      by (auto simp: loop_step_def node_trans.inactive)
  next
    case other
    from other(1,2) False assms have "dow_state s' = dow_state s"
      by (cases "m_type m") (auto simp: loop_step_def state_on_newdata state_on_received)
    with node_trans.message [OF other(2)] show ?thesis by simp
  qed
qed

lemma node_step_trans:
  assumes "adds_to_relay_only X" "\<not> DOW_DEPUTY cfg" "\<not> DOW_DEBUG cfg" "node_step cfg X s e = Inr s'"
  shows "node_trans e (dow_state s) (dow_state s')"
proof (cases e)
  case (Message m)
  with assms(4) loop_step_trans [OF assms(2), of X s m s'] show ?thesis by (simp add: node_step_def)
next
  case (Content i p)
  with assms(4) obtain r where "ccnlriot_consumer cfg X i p s = Inr (r, s')"
    by (auto simp: node_step_def and_then_eq_Inr)
  from view_consumer [OF assms(1) this] assms(3) have "view s' = view s" by blast
  from state_of_view [OF this] Content show ?thesis by (simp add: node_trans.content)
next
  case (Interest i p)
  with assms(4) obtain r q where "ccnlriot_producer cfg X i p s = Inr (r, q, s')"
    by (auto simp: node_step_def and_then_eq_Inr)
  from view_producer [OF this] assms(2) have "view s' = view s" by blast
  from state_of_view [OF this] Interest show ?thesis by (simp add: node_trans.interest)
next
  case Stop
  with assms(4) have "dow_state s' = DOW_STATE_STOPPED" by (auto simp: node_step_def stop_dow_def)
  with Stop node_trans.stop show ?thesis by simp
qed

text \<open>What every path does: it never hands over, and a stopped node stays stopped.\<close>

lemma node_trans_handover:
  "node_trans e st st' \<Longrightarrow> st \<noteq> DOW_STATE_HANDOVER \<Longrightarrow> st' \<noteq> DOW_STATE_HANDOVER"
  by (induction rule: node_trans.induct) auto

lemma node_path_handover:
  "node_path es st st' \<Longrightarrow> st \<noteq> DOW_STATE_HANDOVER \<Longrightarrow> st' \<noteq> DOW_STATE_HANDOVER"
  by (induction rule: node_path.induct) (auto dest: node_trans_handover)

lemma node_path_stopped:
  "node_path es st st' \<Longrightarrow> st = DOW_STATE_STOPPED \<Longrightarrow> st' = DOW_STATE_STOPPED"
  by (induction rule: node_path.induct) (auto simp: node_trans_stopped)

lemma node_path_awake:
  "node_path es st st' \<Longrightarrow> st = DOW_STATE_INACTIVE \<Longrightarrow> st' = DOW_STATE_DEPUTY \<Longrightarrow>
    \<exists>m. Message m \<in> set es \<and> m_type m = DOW_MSG_SECOND"
proof (induction rule: node_path.induct)
  case (more e st st1 es st')
  from more.hyps(1) more.prems more.IH more.hyps(2) show ?case
    by (cases rule: node_trans.cases) (auto dest: node_path_stopped)
qed simp

text \<open>
  C12. In configurations without deputies the code's node follows the machine: along every run
  of messages, contents, interests and stop commands its states are a path of the machine. So
  only the message of a second wakes a sleeping node, and no run hands over.
\<close>

theorem node_follows_machine:
  assumes "adds_to_relay_only X" "\<not> DOW_DEPUTY cfg" "\<not> DOW_DEBUG cfg"
    and "run_res (node_step cfg X) s es = Inr s'"
  shows "node_path es (dow_state s) (dow_state s') \<and>
    (dow_state s \<noteq> DOW_STATE_HANDOVER \<longrightarrow> dow_state s' \<noteq> DOW_STATE_HANDOVER) \<and>
    (dow_state s = DOW_STATE_INACTIVE \<and> dow_state s' = DOW_STATE_DEPUTY \<longrightarrow>
      (\<exists>m. Message m \<in> set es \<and> m_type m = DOW_MSG_SECOND))"
proof -
  have "node_path es (dow_state s) (dow_state s')"
    using assms(4)
  proof (induction es arbitrary: s)
    case Nil
    then show ?case by (simp add: node_path.none)
  next
    case (Cons e es)
    then obtain s1 where s1: "node_step cfg X s e = Inr s1" "run_res (node_step cfg X) s1 es = Inr s'"
      by (auto simp: and_then_eq_Inr)
    from node_step_trans [OF assms(1-3) s1(1)] Cons.IH [OF s1(2)] show ?case by (rule node_path.more)
  qed
  then show ?thesis by (auto dest: node_path_handover node_path_awake)
qed

lemma node_follows_machine_witness:
  "\<exists>s'. run_res (node_step caching_cfg ex_ext) ex_node ex_events = Inr s' \<and>
    node_path ex_events (dow_state ex_node) (dow_state s') \<and> dow_state s' \<noteq> DOW_STATE_HANDOVER"
proof -
  obtain s' where s': "run_res (node_step caching_cfg ex_ext) ex_node ex_events = Inr s'"
    using ex_run_ok by blast
  have c: "\<not> DOW_DEPUTY caching_cfg" "\<not> DOW_DEBUG caching_cfg" by (simp_all add: caching_cfg_def)
  from node_follows_machine [OF ex_adds_to_relay_only c s'] s' show ?thesis by (auto simp: ex_node_def)
qed

end
