(* ===== verification/L2_Routing.thy ===== *)
theory L2_Routing
  imports Prelude
begin

text \<open>
  \<^verbatim>\<open>src/l2_routing\<close>: a content-centric test application directly above the link layer.
  Ten nodes with fixed addresses share a schedule of links; node 1 stores the content,
  node 8 fetches its 100 chunks one after the other, nodes 4, 6 and 7 make background
  noise, and every other node forwards over a static routing table.

  What lies outside the repository is the argument \<open>X\<close>: whether the packet buffer has
  room for the n-th allocation, and what the eight bytes at address 0 are (\<open>None\<close> where
  reading them traps; on the Cortex-M boards of the Makefile address 0 is the vector table),
  because the lookup compares with a null pointer.
\<close>

section \<open>Tables of \<^verbatim>\<open>icn.h\<close> and \<^verbatim>\<open>l2.c\<close>\<close>

type_synonym eui64 = "u8 list"

definition node_ids :: "eui64 list" where
  "node_ids =
    [[0x05, 0x43, 0x32, 0xff, 0x03, 0xda, 0xc0, 0x81],
     [0x05, 0x43, 0x32, 0xff, 0x03, 0xdd, 0x94, 0x81],
     [0x05, 0x43, 0x32, 0xff, 0x03, 0xdb, 0xa4, 0x78],
     [0x05, 0x43, 0x32, 0xff, 0x03, 0xd7, 0xb1, 0x80],
     [0x05, 0x43, 0x32, 0xff, 0x03, 0xde, 0xb8, 0x81],
     [0x05, 0x43, 0x32, 0xff, 0x03, 0xd5, 0x95, 0x67],
     [0x05, 0x43, 0x32, 0xff, 0x02, 0xd6, 0x38, 0x61],
     [0x05, 0x43, 0x32, 0xff, 0x03, 0xdb, 0x99, 0x83],
     [0x05, 0x43, 0x32, 0xff, 0x03, 0xd9, 0xa9, 0x68],
     [0x05, 0x43, 0x32, 0xff, 0x03, 0xda, 0x98, 0x75]]"

definition CONTENT_STORE :: eui64 where "CONTENT_STORE = node_ids ! 0"

definition NUMBER_OF_CHUNKS :: nat where "NUMBER_OF_CHUNKS = 100"
definition FLOW_THR :: nat where "FLOW_THR = 4"
definition CHUNK_BITS :: nat where "CHUNK_BITS = 128"

text \<open>Intervals in microseconds.\<close>

definition INTEREST_INTERVAL :: nat where "INTEREST_INTERVAL = 100000"
definition RETRY_INTERVAL :: nat where "RETRY_INTERVAL = 1000000"
definition BACKGROUND_INTERVAL :: nat where "BACKGROUND_INTERVAL = 100000"
definition START_INTERVAL :: nat where "START_INTERVAL = 5000000"

definition HAS_CONTENT :: "eui64 \<Rightarrow> bool" where
  "HAS_CONTENT me \<longleftrightarrow> me = CONTENT_STORE"

definition WANT_CONTENT :: "eui64 \<Rightarrow> bool" where
  "WANT_CONTENT me \<longleftrightarrow> me = node_ids ! 7"

definition BACKGROUND_NODE :: "eui64 \<Rightarrow> bool" where
  "BACKGROUND_NODE me \<longleftrightarrow> me = node_ids ! 3 \<or> me = node_ids ! 5 \<or> me = node_ids ! 6"

record icn_link =
  link_sender :: eui64
  link_receiver :: eui64

definition lnk :: "nat \<Rightarrow> nat \<Rightarrow> icn_link" where
  "lnk i j = \<lparr>link_sender = node_ids ! i, link_receiver = node_ids ! j\<rparr>"

definition ssf_int :: "icn_link list" where
  "ssf_int =
    [lnk 7 9, lnk 4 6, lnk 3 4, lnk 3 5, lnk 2 9, lnk 2 4, lnk 2 6, lnk 2 8, lnk 1 2,
     lnk 1 3, lnk 1 4, lnk 1 5, lnk 1 6, lnk 0 1, lnk 0 3, lnk 0 5, lnk 0 6]"

text \<open>In a routing entry the destination \<open>None\<close> is the null pointer: a default route.\<close>

record icn_routing_entry =
  route_id :: eui64
  route_dst :: "eui64 option"
  route_nextHop :: eui64

definition default_route :: "nat \<Rightarrow> nat \<Rightarrow> icn_routing_entry" where
  "default_route i k = \<lparr>route_id = node_ids ! i, route_dst = None, route_nextHop = node_ids ! k\<rparr>"

definition host_route :: "nat \<Rightarrow> nat \<Rightarrow> nat \<Rightarrow> icn_routing_entry" where
  "host_route i j k =
    \<lparr>route_id = node_ids ! i, route_dst = Some (node_ids ! j), route_nextHop = node_ids ! k\<rparr>"

definition routing_table :: "icn_routing_entry list" where
  "routing_table =
    [default_route 1 0, default_route 2 1, default_route 3 0, default_route 4 1,
     default_route 5 0, default_route 6 0, default_route 7 9, default_route 8 2,
     default_route 9 2, host_route 0 2 1, host_route 0 4 1]"

section \<open>Packets, state and effects\<close>

datatype icn_packet_type = ICN_INTEREST | ICN_CONTENT | ICN_BACKGROUND | ICN_UNKNOWN u32

record icn_pkt =
  icn_type :: icn_packet_type
  icn_seq :: u16
  icn_payload :: string

text \<open>
  A packet is a chain of snips in the packet buffer: a snip with the data, and possibly a
  second one that holds the link-layer header a received packet came with. Each snip has
  the number of its allocation as its handle.
\<close>

record link_snip =
  hdr_handle :: nat
  hdr_is_netif :: bool
  hdr_src :: eui64

record pktsnip =
  handle :: nat
  is_netif :: bool
  data :: icn_pkt
  next_snip :: "link_snip option"

definition chain :: "pktsnip \<Rightarrow> nat list" where
  "chain p = handle p # (case next_snip p of None \<Rightarrow> [] | Some h \<Rightarrow> [hdr_handle h])"

record l2_node =
  myId :: eui64
  received_chunks :: "bool list"
  pit_entry :: eui64
  pit_ctr :: u32
  send_counter :: u16
  receive_counter :: u16
  allocs :: nat

record l2_ext =
  null_mem :: "eui64 option"
  pkt_room :: "nat \<Rightarrow> bool"

datatype l2_timer = Retry_vt | Periodic_vt | Bg_vt
datatype l2_msg_type = ICN_SEND_INTEREST | ICN_SEND_BACKGROUND | ICN_RESEND_INTEREST

text \<open>
  A timer message carries a pointer; the effect records what the pointer's target holds
  when the timer is set (\<open>None\<close> for a null pointer).
\<close>

datatype l2_eff =
    L2_Alloc nat
  | L2_Release "nat list"
  | L2_Tx "nat list" eui64 icn_pkt
  | L2_Timer_Remove l2_timer
  | L2_Timer_Set l2_timer nat l2_msg_type "u32 option"
  | L2_Msg l2_msg_type

section \<open>Links and routes\<close>

definition linkIsScheduled :: "eui64 \<Rightarrow> eui64 \<Rightarrow> bool" where
  "linkIsScheduled me dst \<longleftrightarrow>
     list_ex (\<lambda>l. (me = link_sender l \<and> dst = link_receiver l)
                \<or> (dst = link_sender l \<and> me = link_receiver l)) ssf_int"

text \<open>
  The comparison of the destination with an entry's destination reads eight bytes from
  both pointers, also where the second one is null.
\<close>

definition same_dst :: "l2_ext \<Rightarrow> eui64 \<Rightarrow> eui64 option \<Rightarrow> fault + bool" where
  "same_dst X dst d = (case d of
     Some a \<Rightarrow> Inr (dst = a)
   | None \<Rightarrow> (case null_mem X of None \<Rightarrow> Inl NullPointer | Some a \<Rightarrow> Inr (dst = a)))"

fun route_scan :: "l2_ext \<Rightarrow> eui64 \<Rightarrow> eui64 \<Rightarrow> eui64 option \<Rightarrow> icn_routing_entry list
    \<Rightarrow> fault + eui64 option" where
  "route_scan X me dst nxt [] = Inr nxt"
| "route_scan X me dst nxt (r # rs) =
     (if me = route_id r then
        and_then (same_dst X dst (route_dst r)) (\<lambda>same.
          if same then Inr (Some (route_nextHop r))
          else route_scan X me dst
                 (if route_dst r = None then Some (route_nextHop r) else nxt) rs)
      else route_scan X me dst nxt rs)"

definition routeLookup :: "l2_ext \<Rightarrow> eui64 \<Rightarrow> eui64 \<Rightarrow> fault + eui64 option" where
  "routeLookup X me dst = route_scan X me dst None routing_table"

section \<open>Sending\<close>

text \<open>\<^verbatim>\<open>ng_pktbuf_add\<close>: the handle of a new snip, or null if the buffer has no room.\<close>

definition pktbuf_add :: "l2_ext \<Rightarrow> l2_node \<Rightarrow> l2_node \<times> nat option" where
  "pktbuf_add X n =
     (n\<lparr>allocs := allocs n + 1\<rparr>, if pkt_room X (allocs n) then Some (allocs n) else None)"

text \<open>A new packet with the given content: the packet, and the effect of allocating it.\<close>

definition new_packet :: "l2_ext \<Rightarrow> l2_node \<Rightarrow> icn_pkt \<Rightarrow> l2_node \<times> pktsnip option \<times> l2_eff list"
  where
  "new_packet X n d = (case pktbuf_add X n of (n', h) \<Rightarrow>
     (n', map_option (\<lambda>k. \<lparr>handle = k, is_netif = False, data = d, next_snip = None\<rparr>) h,
      case h of None \<Rightarrow> [] | Some k \<Rightarrow> [L2_Alloc k]))"

definition icn_send :: "l2_ext \<Rightarrow> l2_node \<Rightarrow> eui64 \<Rightarrow> pktsnip option
    \<Rightarrow> fault + l2_node \<times> l2_eff list" where
  "icn_send X n dst pkt =
     and_then (if linkIsScheduled (myId n) dst then Inr (Some dst)
               else routeLookup X (myId n) dst) (\<lambda>hop.
       case hop of
         None \<Rightarrow> Inr (n, case pkt of None \<Rightarrow> [] | Some p \<Rightarrow> [L2_Release (chain p)])
       | Some d \<Rightarrow>
           and_then (deref pkt) (\<lambda>p.
             if is_netif p then
               Inr (n\<lparr>send_counter := send_counter n + 1\<rparr>, [L2_Tx (chain p) d (data p)])
             else (case pktbuf_add X n of (n', h) \<Rightarrow>
               and_then (deref h) (\<lambda>k.
                 Inr (n'\<lparr>send_counter := send_counter n' + 1\<rparr>,
                      [L2_Alloc k, L2_Tx (k # chain p) d (data p)])))))"

definition content :: string where
  "content = ''Go! are you ready? Start the riot!''"

definition interest :: string where
  "interest = ''/ndn/RIOT/sensor''"

definition icn_initContent :: "l2_ext \<Rightarrow> l2_node \<Rightarrow> eui64 \<Rightarrow> u16 \<Rightarrow> fault + l2_node \<times> l2_eff list"
  where
  "icn_initContent X n lastHop sq =
     (case new_packet X n \<lparr>icn_type = ICN_CONTENT, icn_seq = sq, icn_payload = content\<rparr> of
        (n', pkt, es) \<Rightarrow>
          and_then (icn_send X n' lastHop pkt) (\<lambda>(n'', fs). Inr (n'', es @ fs)))"

definition getSmallestMissing :: "bool list \<Rightarrow> u32" where
  "getSmallestMissing rc =
     (case find (\<lambda>i. \<not> rc ! i) [0..<NUMBER_OF_CHUNKS] of
        Some i \<Rightarrow> word_of_nat i
      | None \<Rightarrow> - 1)"

definition icn_initInterest :: "l2_ext \<Rightarrow> l2_node \<Rightarrow> u16 \<Rightarrow> fault + l2_node \<times> l2_eff list" where
  "icn_initInterest X n sq =
     (if WANT_CONTENT (myId n) then
        let tmp1 = getSmallestMissing (received_chunks n);
            es = (if unat tmp1 < NUMBER_OF_CHUNKS
                  then [L2_Timer_Remove Retry_vt,
                        L2_Timer_Set Retry_vt RETRY_INTERVAL ICN_RESEND_INTEREST (Some tmp1)]
                  else [])
        in and_then (nth_res (received_chunks n) (unat sq)) (\<lambda>have.
             if have then Inr (n, es)
             else if unat sq > unat (receive_counter n) + FLOW_THR then Inr (n, es)
             else
               (case new_packet X n
                       \<lparr>icn_type = ICN_INTEREST, icn_seq = sq, icn_payload = interest\<rparr> of
                  (n', pkt, fs) \<Rightarrow>
                    if unat sq < NUMBER_OF_CHUNKS then
                      and_then (icn_send X n' CONTENT_STORE pkt) (\<lambda>(n'', gs).
                        Inr (n'', es @ fs @ gs @
                          [L2_Timer_Remove Periodic_vt,
                           L2_Timer_Set Periodic_vt INTEREST_INTERVAL ICN_SEND_INTEREST
                             (Some (ucast (sq + 1)))]))
                    else Inr (n', es @ fs)))
      else Inr (n, []))"

definition icn_initBackground :: "l2_ext \<Rightarrow> l2_node \<Rightarrow> fault + l2_node \<times> l2_eff list" where
  "icn_initBackground X n =
     (case new_packet X n \<lparr>icn_type = ICN_BACKGROUND, icn_seq = 0, icn_payload = content\<rparr> of
        (n', pkt, es) \<Rightarrow>
          and_then (icn_send X n' CONTENT_STORE pkt) (\<lambda>(n'', fs).
            Inr (n'', es @ fs @
              [L2_Timer_Remove Bg_vt,
               L2_Timer_Set Bg_vt BACKGROUND_INTERVAL ICN_SEND_BACKGROUND None])))"

section \<open>Receiving\<close>

text \<open>
  \<^verbatim>\<open>rcv\<close>, one definition per packet type. A chunk number selects a bit of a bit field of
  \<open>CHUNK_BITS\<close> bits; the read of a bit outside it has no defined value.
\<close>

definition rcv_interest :: "l2_ext \<Rightarrow> l2_node \<Rightarrow> pktsnip \<Rightarrow> link_snip \<Rightarrow> fault + l2_node \<times> l2_eff list"
  where
  "rcv_interest X n p h =
     (if HAS_CONTENT (myId n) then
        and_then (icn_initContent X n (hdr_src h) (icn_seq (data p))) (\<lambda>(n', es).
          Inr (n', es @ [L2_Release (chain p)]))
      else
        and_then (icn_send X (n\<lparr>pit_entry := hdr_src h, pit_ctr := pit_ctr n + 1\<rparr>)
                   CONTENT_STORE (Some (p\<lparr>next_snip := None\<rparr>))) (\<lambda>(n', es).
          Inr (n', L2_Release [hdr_handle h] # es)))"

definition rcv_content :: "l2_ext \<Rightarrow> l2_node \<Rightarrow> pktsnip \<Rightarrow> link_snip \<Rightarrow> fault + l2_node \<times> l2_eff list"
  where
  "rcv_content X n p h =
     (if pit_ctr n \<noteq> 0 then
        and_then (icn_send X n (pit_entry n) (Some (p\<lparr>next_snip := None\<rparr>))) (\<lambda>(n', es).
          Inr (n'\<lparr>pit_ctr := pit_ctr n' - 1\<rparr>, L2_Release [hdr_handle h] # es))
      else if WANT_CONTENT (myId n) then
        (let tmp = icn_seq (data p) in
         and_then (nth_res (received_chunks n) (unat tmp)) (\<lambda>have.
           Inr (n\<lparr>received_chunks := (if have then received_chunks n
                                      else (received_chunks n)[unat tmp := True]),
                  receive_counter := (if receive_counter n < tmp then tmp
                                      else receive_counter n)\<rparr>,
                [L2_Release (chain p)])))
      else Inr (n, [L2_Release (chain p)]))"

definition rcv :: "l2_ext \<Rightarrow> l2_node \<Rightarrow> pktsnip \<Rightarrow> fault + l2_node \<times> l2_eff list" where
  "rcv X n p =
     and_then (deref (next_snip p)) (\<lambda>h.
       if hdr_is_netif h then
         (case icn_type (data p) of
            ICN_INTEREST \<Rightarrow> rcv_interest X n p h
          | ICN_CONTENT \<Rightarrow> rcv_content X n p h
          | ICN_BACKGROUND \<Rightarrow> Inr (n, [L2_Release (chain p)])
          | ICN_UNKNOWN t \<Rightarrow> Inr (n, [L2_Release (chain p)]))
       else Inr (n, []))"

section \<open>The event loop and the start\<close>

text \<open>
  The messages of the event loop. The pointer of an interest message is read as one
  \<^verbatim>\<open>char\<close> when the message is handled: the event carries the byte found there.
\<close>

datatype l2_event =
    L2_Rcv pktsnip
  | L2_Resend_Interest u8
  | L2_Send_Interest u8
  | L2_Send_Background
  | L2_Other

definition eventloop_step :: "l2_ext \<Rightarrow> l2_node \<Rightarrow> l2_event \<Rightarrow> fault + l2_node \<times> l2_eff list" where
  "eventloop_step X n e = (case e of
     L2_Rcv p \<Rightarrow> rcv X n p
   | L2_Resend_Interest b \<Rightarrow> icn_initInterest X n (ucast b)
   | L2_Send_Interest b \<Rightarrow> icn_initInterest X n (ucast b)
   | L2_Send_Background \<Rightarrow> icn_initBackground X n
   | L2_Other \<Rightarrow> Inr (n, []))"

definition l2_init :: "eui64 \<Rightarrow> l2_node" where
  "l2_init me = \<lparr>myId = me, received_chunks = replicate CHUNK_BITS False,
     pit_entry = replicate 8 0, pit_ctr = 0, send_counter = 0, receive_counter = 0, allocs = 0\<rparr>"

definition l2_main :: "eui64 \<Rightarrow> l2_eff list" where
  "l2_main me =
     (if WANT_CONTENT me
      then [L2_Timer_Set Periodic_vt START_INTERVAL ICN_SEND_INTEREST (Some 0)]
      else if BACKGROUND_NODE me then [L2_Msg ICN_SEND_BACKGROUND]
      else [])"

end
