(* ===== verification/L2_Props.thy ===== *)
theory L2_Props
  imports L2_Routing "HOL-Library.Multiset"
begin

text \<open>
  Properties of the link-layer routing application: the static tables lead every node to
  the content store, the consumer's retransmissions are never blocked, no snip of the
  packet buffer is lost or released twice apart from two cases, and a chunk that is asked
  for arrives over the four hops of the schedule.
\<close>

section \<open>The tables\<close>

lemmas l2_tables = node_ids_def ssf_int_def lnk_def routing_table_def default_route_def
  host_route_def CONTENT_STORE_def

lemma node_ids_distinct: "distinct node_ids" "length node_ids = 10"
  by (simp_all add: node_ids_def)

lemma node_ids_eq [simp]: "i < 10 \<Longrightarrow> j < 10 \<Longrightarrow> node_ids ! i = node_ids ! j \<longleftrightarrow> i = j"
  using node_ids_distinct by (simp add: nth_eq_iff_index_eq)

lemma linkIsScheduled_sym: "linkIsScheduled a b \<longleftrightarrow> linkIsScheduled b a"
  by (auto simp: linkIsScheduled_def list_ex_iff)

text \<open>The hop \<open>icn_send\<close> takes towards a destination.\<close>

definition next_hop :: "l2_ext \<Rightarrow> eui64 \<Rightarrow> eui64 \<Rightarrow> fault + eui64 option" where
  "next_hop X me dst = (if linkIsScheduled me dst then Inr (Some dst) else routeLookup X me dst)"

text \<open>The nodes a packet for \<open>dst\<close> passes from \<open>me\<close> on, in at most \<open>f\<close> hops.\<close>

fun route_path :: "nat \<Rightarrow> l2_ext \<Rightarrow> eui64 \<Rightarrow> eui64 \<Rightarrow> eui64 list option" where
  "route_path 0 X me dst = (if me = dst then Some [me] else None)"
| "route_path (Suc f) X me dst =
     (if me = dst then Some [me]
      else (case next_hop X me dst of
              Inr (Some k) \<Rightarrow> map_option (Cons me) (route_path f X k dst)
            | _ \<Rightarrow> None))"

text \<open>Reading address 0 yields eight bytes that are no node's address.\<close>

definition null_ok :: "l2_ext \<Rightarrow> bool" where
  "null_ok X \<longleftrightarrow> (\<exists>z. null_mem X = Some z \<and> z \<notin> set node_ids)"

lemma same_dst_simps [simp]:
  "same_dst X d (Some a) = Inr (d = a)"
  "null_ok X \<Longrightarrow> d \<in> set node_ids \<Longrightarrow> same_dst X d None = Inr False"
  "null_mem X = None \<Longrightarrow> same_dst X d None = Inl NullPointer"
  by (auto simp: same_dst_def null_ok_def)

lemma node_ids_mem [simp]: "i < 10 \<Longrightarrow> node_ids ! i \<in> set node_ids"
  using node_ids_distinct by simp

definition link_pairs :: "(nat \<times> nat) list" where
  "link_pairs = [(7,9),(4,6),(3,4),(3,5),(2,9),(2,4),(2,6),(2,8),(1,2),
     (1,3),(1,4),(1,5),(1,6),(0,1),(0,3),(0,5),(0,6)]"

lemma link_pairs_lt: "(a, b) \<in> set link_pairs \<Longrightarrow> a < 10 \<and> b < 10"
  by (auto simp: link_pairs_def)

lemma ssf_int_pairs: "ssf_int = map (\<lambda>(a, b). lnk a b) link_pairs"
  by (simp add: ssf_int_def link_pairs_def)

lemma links_by_index:
  assumes "i < 10" "j < 10"
  shows "linkIsScheduled (node_ids ! i) (node_ids ! j) \<longleftrightarrow>
    (i, j) \<in> set link_pairs \<or> (j, i) \<in> set link_pairs"
proof -
  have "linkIsScheduled (node_ids ! i) (node_ids ! j) \<longleftrightarrow>
    (\<exists>(a, b) \<in> set link_pairs. (i = a \<and> j = b) \<or> (j = a \<and> i = b))"
    using assms link_pairs_lt
    by (auto simp: linkIsScheduled_def ssf_int_pairs list_ex_iff lnk_def split_beta
        simp del: node_ids_mem intro: node_ids_eq [THEN iffD1]) (metis fst_conv snd_conv)+
  then show ?thesis by auto
qed

lemma routes_by_index:
  assumes "null_ok X" "i < 10" "j < 10"
  shows "routeLookup X (node_ids ! i) (node_ids ! j) = Inr
    (if i = 0 then (if j = 2 \<or> j = 4 then Some (node_ids ! 1) else None)
     else Some (node_ids ! ([0, 0, 1, 0, 1, 0, 0, 9, 2, 2] ! i)))"
proof -
  have "i = 0 \<or> i = 1 \<or> i = 2 \<or> i = 3 \<or> i = 4 \<or> i = 5 \<or> i = 6 \<or> i = 7 \<or> i = 8 \<or> i = 9"
    using assms(2) by arith
  with assms show ?thesis
    by (elim disjE) (simp_all add: routeLookup_def routing_table_def default_route_def host_route_def)
qed

lemma next_hop_by_index:
  assumes "null_ok X" "i < 10" "j < 10"
  shows "next_hop X (node_ids ! i) (node_ids ! j) = Inr
    (if (i, j) \<in> set link_pairs \<or> (j, i) \<in> set link_pairs then Some (node_ids ! j)
     else if i = 0 then (if j = 2 \<or> j = 4 then Some (node_ids ! 1) else None)
     else Some (node_ids ! ([0, 0, 1, 0, 1, 0, 0, 9, 2, 2] ! i)))"
  using assms by (simp add: next_hop_def links_by_index routes_by_index)

lemma route_paths_to_store:
  assumes "null_ok X"
  shows "map (\<lambda>i. route_path 4 X (node_ids ! i) CONTENT_STORE) [0..<10] =
    map (\<lambda>is. Some (map ((!) node_ids) is))
      [[0], [1, 0], [2, 1, 0], [3, 0], [4, 1, 0], [5, 0], [6, 0], [7, 9, 2, 1, 0],
       [8, 2, 1, 0], [9, 2, 1, 0]]"
  using assms
  by (simp add: upt_rec CONTENT_STORE_def next_hop_by_index link_pairs_def numeral_eq_Suc)

fun hops_scheduled :: "eui64 list \<Rightarrow> bool" where
  "hops_scheduled (a # b # p) \<longleftrightarrow> linkIsScheduled a b \<and> hops_scheduled (b # p)"
| "hops_scheduled _ \<longleftrightarrow> True"

lemma store_path_cases:
  assumes "null_ok X" "i < 10"
  shows "\<exists>is. route_path 4 X (node_ids ! i) CONTENT_STORE = Some (map ((!) node_ids) is) \<and>
    is \<in> set [[0], [1, 0], [2, 1, 0], [3, 0], [4, 1, 0], [5, 0], [6, 0], [7, 9, 2, 1, 0],
      [8, 2, 1, 0], [9, 2, 1, 0]]"
    (is "\<exists>is. ?f i = _ \<and> is \<in> set ?ps")
proof -
  have "map ?f [0..<10] ! i = map (\<lambda>is. Some (map ((!) node_ids) is)) ?ps ! i"
    by (simp only: route_paths_to_store [OF assms(1)])
  moreover have "i < length ?ps" using assms(2) by simp
  moreover have "map ?f [0..<10] ! i = ?f i" using assms(2) by simp
  ultimately have "?f i = Some (map ((!) node_ids) (?ps ! i))"
    by (simp only: nth_map)
  with \<open>i < length ?ps\<close> show ?thesis by (metis nth_mem)
qed

text \<open>
  C22. Every node's packets for the content store arrive there after at most four hops: the
  path that \<open>icn_send\<close> takes at each node visits no node twice, uses scheduled links only
  and ends at node 1.
\<close>

theorem routes_reach_store:
  assumes "null_ok X" "i < 10"
  shows "\<exists>p. route_path 4 X (node_ids ! i) CONTENT_STORE = Some p \<and> distinct p \<and>
    hops_scheduled p \<and> last p = CONTENT_STORE"
proof -
  obtain "is" where p: "route_path 4 X (node_ids ! i) CONTENT_STORE = Some (map ((!) node_ids) is)"
    and m: "is \<in> set [[0], [1, 0], [2, 1, 0], [3, 0], [4, 1, 0], [5, 0], [6, 0], [7, 9, 2, 1, 0],
      [8, 2, 1, 0], [9, 2, 1, 0]]"
    using store_path_cases [OF assms] by blast
  from m have "distinct (map ((!) node_ids) is) \<and> hops_scheduled (map ((!) node_ids) is) \<and>
      last (map ((!) node_ids) is) = CONTENT_STORE"
    by (auto simp: links_by_index link_pairs_def CONTENT_STORE_def)
  with p show ?thesis by blast
qed

definition ex_l2_ext :: l2_ext where
  "ex_l2_ext = \<lparr>null_mem = Some [0x00, 0x80, 0, 0x20, 0xc1, 0x01, 0, 0x08], pkt_room = (\<lambda>_. True)\<rparr>"

lemma ex_l2_null_ok: "null_ok ex_l2_ext"
  by (simp add: null_ok_def ex_l2_ext_def node_ids_def)

lemma ex_l2_room [simp]: "pkt_room ex_l2_ext k"
  by (simp add: ex_l2_ext_def)

lemma routes_reach_store_witness:
  "\<exists>p. route_path 4 ex_l2_ext (node_ids ! 7) CONTENT_STORE = Some p \<and> distinct p \<and>
    hops_scheduled p \<and> last p = CONTENT_STORE"
  by (rule routes_reach_store [OF ex_l2_null_ok]) simp

text \<open>
  Where reading address 0 traps, the lookup of a node whose first entry is its default route
  ends in that read.
\<close>

lemma route_lookup_reads_null:
  assumes "null_mem X = None" "i \<in> {1..9}"
  shows "routeLookup X (node_ids ! i) dst = Inl NullPointer"
proof -
  have "i = 1 \<or> i = 2 \<or> i = 3 \<or> i = 4 \<or> i = 5 \<or> i = 6 \<or> i = 7 \<or> i = 8 \<or> i = 9"
    using assms(2) by auto
  with assms(1) show ?thesis
    by (elim disjE) (simp_all add: routeLookup_def routing_table_def default_route_def host_route_def)
qed

section \<open>The consumer\<close>

text \<open>The step of the event loop on the node's state alone.\<close>

definition l2_step :: "l2_ext \<Rightarrow> l2_node \<Rightarrow> l2_event \<Rightarrow> fault + l2_node" where
  "l2_step X n e = and_then (eventloop_step X n e) (\<lambda>(n', _). Inr n')"

text \<open>
  The bit field keeps its size, and no chunk above the receive counter has been received.
\<close>

definition counter_inv :: "l2_node \<Rightarrow> bool" where
  "counter_inv n \<longleftrightarrow> length (received_chunks n) = CHUNK_BITS \<and>
     (\<forall>i < CHUNK_BITS. received_chunks n ! i \<longrightarrow> i \<le> unat (receive_counter n))"

named_theorems l2_frame "fields that sending leaves unchanged"

lemma pktbuf_add_frame [l2_frame]:
  "pktbuf_add X n = (n', h) \<Longrightarrow> n' = n\<lparr>allocs := allocs n + 1\<rparr>"
  by (simp add: pktbuf_add_def)

lemma new_packet_frame [l2_frame]:
  "new_packet X n d = (n', p, es) \<Longrightarrow> n' = n\<lparr>allocs := allocs n + 1\<rparr>"
  by (auto simp: new_packet_def split: prod.splits dest: pktbuf_add_frame)

text \<open>The part of the state that the packet buffer and the send counter do not belong to.\<close>

definition core :: "l2_node \<Rightarrow> l2_node" where
  "core n = n\<lparr>send_counter := 0, allocs := 0\<rparr>"

lemma core_simps [simp]:
  "core (n\<lparr>allocs := a\<rparr>) = core n" "core (n\<lparr>send_counter := c\<rparr>) = core n"
  "core (n\<lparr>pit_ctr := k\<rparr>) = (core n)\<lparr>pit_ctr := k\<rparr>"
  by (simp_all add: core_def)

lemma core_pit: "core (n\<lparr>pit_entry := e, pit_ctr := k\<rparr>) = (core n)\<lparr>pit_entry := e, pit_ctr := k\<rparr>"
  by (simp add: core_def)

lemma icn_send_hop:
  "icn_send X n dst pkt = and_then (next_hop X (myId n) dst) (\<lambda>hop.
       case hop of
         None \<Rightarrow> Inr (n, case pkt of None \<Rightarrow> [] | Some p \<Rightarrow> [L2_Release (chain p)])
       | Some d \<Rightarrow>
           and_then (deref pkt) (\<lambda>p.
             if is_netif p then
               Inr (n\<lparr>send_counter := send_counter n + 1\<rparr>, [L2_Tx (chain p) d (data p)])
             else (case pktbuf_add X n of (n', h) \<Rightarrow>
               and_then (deref h) (\<lambda>k.
                 Inr (n'\<lparr>send_counter := send_counter n' + 1\<rparr>,
                      [L2_Alloc k, L2_Tx (k # chain p) d (data p)])))))"
  by (simp add: icn_send_def next_hop_def)

text \<open>What \<open>icn_send\<close> does once the next hop is known.\<close>

lemma icn_send_cases:
  assumes "icn_send X n dst pkt = Inr (n', es)"
  obtains (no_route) "next_hop X (myId n) dst = Inr None" "n' = n"
      "es = (case pkt of None \<Rightarrow> [] | Some p \<Rightarrow> [L2_Release (chain p)])"
    | (reuse) p d where "pkt = Some p" "is_netif p" "next_hop X (myId n) dst = Inr (Some d)"
      "n' = n\<lparr>send_counter := send_counter n + 1\<rparr>" "es = [L2_Tx (chain p) d (data p)]"
    | (add) p d where "pkt = Some p" "\<not> is_netif p" "next_hop X (myId n) dst = Inr (Some d)"
      "n' = n\<lparr>allocs := allocs n + 1, send_counter := send_counter n + 1\<rparr>"
      "es = [L2_Alloc (allocs n), L2_Tx (allocs n # chain p) d (data p)]"
proof -
  obtain hop where h: "next_hop X (myId n) dst = Inr hop"
    using assms by (auto simp: icn_send_hop and_then_eq_Inr)
  show thesis
  proof (cases hop)
    case None
    with assms h show thesis
      by (intro no_route) (simp_all add: icn_send_hop)
  next
    case (Some d)
    show thesis
    proof (cases pkt)
      case None
      with assms h Some show thesis by (simp add: icn_send_hop)
    next
      case p: (Some p)
      show thesis
      proof (cases "is_netif p")
        case True
        with assms h Some p show thesis
          by (intro reuse [of p d]) (simp_all add: icn_send_hop)
      next
        case False
        with assms h Some p show thesis
          by (intro add [of p d])
            (simp_all add: icn_send_hop pktbuf_add_def split: if_splits)
      qed
    qed
  qed
qed

lemma icn_send_core [l2_frame]: "icn_send X n d p = Inr (n', es) \<Longrightarrow> core n' = core n"
  by (erule icn_send_cases) simp_all

lemma counter_inv_of_core: "counter_inv (core n) = counter_inv n"
  by (simp add: core_def counter_inv_def)

lemma counter_inv_core: "core n' = c \<Longrightarrow> counter_inv c \<Longrightarrow> counter_inv n'"
  using counter_inv_of_core [of n'] by simp

lemma icn_initContent_core [l2_frame]:
  "icn_initContent X n d q = Inr (n', es) \<Longrightarrow> core n' = core n"
  by (auto simp: icn_initContent_def and_then_eq_Inr split: prod.splits
      dest!: icn_send_core new_packet_frame)

lemma icn_initInterest_core [l2_frame]:
  "icn_initInterest X n q = Inr (n', es) \<Longrightarrow> core n' = core n"
  by (auto simp: icn_initInterest_def Let_def and_then_eq_Inr split: prod.splits if_splits
      dest!: icn_send_core new_packet_frame)

lemma icn_initBackground_core [l2_frame]:
  "icn_initBackground X n = Inr (n', es) \<Longrightarrow> core n' = core n"
  by (auto simp: icn_initBackground_def and_then_eq_Inr split: prod.splits
      dest!: icn_send_core new_packet_frame)

lemma counter_inv_pit:
  "counter_inv (n\<lparr>pit_entry := e, pit_ctr := c\<rparr>) = counter_inv n"
  "counter_inv (n\<lparr>pit_ctr := c\<rparr>) = counter_inv n"
  "counter_inv (n\<lparr>pit_entry := e\<rparr>) = counter_inv n"
  by (simp_all add: counter_inv_def)

lemma rcv_interest_inv:
  "counter_inv n \<Longrightarrow> rcv_interest X n p h = Inr (n', es) \<Longrightarrow> counter_inv n'"
  by (auto simp: rcv_interest_def and_then_eq_Inr counter_inv_pit counter_inv_of_core core_pit
      split: if_splits prod.splits
      dest!: icn_initContent_core icn_send_core intro: counter_inv_core)

lemma counter_inv_receive:
  assumes "counter_inv n" "unat k < CHUNK_BITS"
    "received_chunks n' = (received_chunks n)[unat k := True]"
    "receive_counter n' = max (receive_counter n) k"
  shows "counter_inv n'"
proof -
  have "unat (max a b) = max (unat a) (unat b)" for a b :: u16
    by (simp add: max_def word_le_nat_alt)
  with assms show ?thesis by (auto simp: counter_inv_def nth_list_update le_max_iff_disj)
qed

lemma rcv_content_inv:
  assumes "counter_inv n" "rcv_content X n p h = Inr (n', es)"
  shows "counter_inv n'"
proof (cases "pit_ctr n = 0")
  case False
  with assms show ?thesis
    by (auto simp: rcv_content_def and_then_eq_Inr counter_inv_pit counter_inv_of_core
        split: prod.splits dest!: icn_send_core intro: counter_inv_core)
next
  case True
  show ?thesis
  proof (cases "WANT_CONTENT (myId n)")
    case False
    with True assms show ?thesis by (simp add: rcv_content_def)
  next
    case w: True
    let ?k = "icn_seq (data p)"
    have mx: "(if a < b then b else a) = max a b" for a b :: u16
      by (auto simp: max_def dest: less_imp_le)
    from assms True w have k: "unat ?k < CHUNK_BITS" and n':
      "n' = n\<lparr>received_chunks := (if received_chunks n ! unat ?k then received_chunks n
                 else (received_chunks n)[unat ?k := True]),
              receive_counter := max (receive_counter n) ?k\<rparr>"
      by (auto simp: rcv_content_def Let_def and_then_eq_Inr nth_res_def counter_inv_def mx
          split: if_splits)
    have "received_chunks n ! unat ?k \<Longrightarrow> (received_chunks n)[unat ?k := True] = received_chunks n"
      by (metis list_update_id)
    then show ?thesis
      by (intro counter_inv_receive [OF assms(1) k]) (simp_all add: n')
  qed
qed

lemma rcv_inv: "counter_inv n \<Longrightarrow> rcv X n p = Inr (n', es) \<Longrightarrow> counter_inv n'"
  by (auto simp: rcv_def and_then_eq_Inr split: if_splits icn_packet_type.splits
      intro: rcv_interest_inv rcv_content_inv)

lemma eventloop_step_inv:
  "counter_inv n \<Longrightarrow> eventloop_step X n e = Inr (n', es) \<Longrightarrow> counter_inv n'"
  by (auto simp: eventloop_step_def split: l2_event.splits intro: rcv_inv
      dest!: icn_initInterest_core icn_initBackground_core counter_inv_core
      simp: counter_inv_of_core)

interpretation consumer: res_invariant "l2_step X" counter_inv for X
  by unfold_locales (auto simp: l2_step_def and_then_eq_Inr intro: eventloop_step_inv)

lemma counter_inv_init: "counter_inv (l2_init me)"
  by (simp add: counter_inv_def l2_init_def)

text \<open>The smallest missing chunk.\<close>

definition smallest_missing :: "bool list \<Rightarrow> nat \<Rightarrow> bool" where
  "smallest_missing rc m \<longleftrightarrow> m < NUMBER_OF_CHUNKS \<and> \<not> rc ! m \<and> (\<forall>i < m. rc ! i)"

lemma getSmallestMissing_eq: "smallest_missing rc m \<Longrightarrow> getSmallestMissing rc = word_of_nat m"
proof -
  assume m: "smallest_missing rc m"
  have "find (\<lambda>i. \<not> rc ! i) [0..<NUMBER_OF_CHUNKS] = Some m"
    using m by (auto simp: find_Some_iff smallest_missing_def intro!: exI [of _ m])
  then show ?thesis by (simp add: getSmallestMissing_def)
qed

lemma getSmallestMissing_none:
  "\<forall>i < NUMBER_OF_CHUNKS. rc ! i \<Longrightarrow> getSmallestMissing rc = - 1"
  by (simp add: getSmallestMissing_def find_None_iff [THEN iffD2])

lemma smallest_missing_exists:
  assumes "i < NUMBER_OF_CHUNKS" "\<not> rc ! i"
  shows "\<exists>m. smallest_missing rc m"
proof -
  obtain m where "\<not> rc ! m" and below: "\<And>k. k < m \<Longrightarrow> rc ! k" "m \<le> i"
    using exists_least_iff [of "\<lambda>m. \<not> rc ! m"] assms(2) by (metis not_less)
  with assms(1) have "smallest_missing rc m" by (simp add: smallest_missing_def)
  then show ?thesis ..
qed

lemma counter_inv_smallest:
  assumes "counter_inv n" "smallest_missing (received_chunks n) m"
  shows "m \<le> unat (receive_counter n) + 1"
proof (cases m)
  case (Suc k)
  with assms have "received_chunks n ! k" "k < CHUNK_BITS"
    by (auto simp: smallest_missing_def CHUNK_BITS_def NUMBER_OF_CHUNKS_def)
  with assms(1) have "k \<le> unat (receive_counter n)" by (simp add: counter_inv_def)
  with Suc show ?thesis by simp
qed simp

definition retry_effects :: "nat \<Rightarrow> l2_eff list" where
  "retry_effects m = [L2_Timer_Remove Retry_vt,
     L2_Timer_Set Retry_vt RETRY_INTERVAL ICN_RESEND_INTEREST (Some (word_of_nat m))]"

definition interest_pkt :: "nat \<Rightarrow> icn_pkt" where
  "interest_pkt m = \<lparr>icn_type = ICN_INTEREST, icn_seq = word_of_nat m, icn_payload = interest\<rparr>"

text \<open>The first hop of the consumer leads to node 10.\<close>

lemma consumer_hop: "null_ok X \<Longrightarrow> next_hop X (node_ids ! 7) CONTENT_STORE = Inr (Some (node_ids ! 9))"
  by (simp add: CONTENT_STORE_def next_hop_by_index link_pairs_def)

lemma u16_small: "k < 65536 \<Longrightarrow> unat (word_of_nat k :: u16) = k"
  by (simp add: unsigned_of_nat take_bit_nat_eq_self)

lemma u8_ucast: "unat (ucast (b :: u8) :: u16) = unat b"
  by (simp add: unsigned_ucast_eq take_bit_nat_eq_self unsigned_less [of b, THEN less_le_trans])

lemma ucast_small: "k < 65536 \<Longrightarrow> (ucast (word_of_nat k :: u16) :: u32) = word_of_nat k"
  by (rule word_unat_eq_iff [THEN iffD2]) (simp add: unsigned_ucast_eq unsigned_of_nat take_bit_nat_eq_self)

lemma initInterest_sends:
  assumes "myId n = node_ids ! 7" "counter_inv n" "null_ok X" "\<forall>k. pkt_room X k"
    "q < NUMBER_OF_CHUNKS" "\<not> received_chunks n ! q" "q \<le> unat (receive_counter n) + FLOW_THR"
    "smallest_missing (received_chunks n) m"
  shows "icn_initInterest X n (word_of_nat q) =
    Inr (n\<lparr>allocs := allocs n + 2, send_counter := send_counter n + 1\<rparr>,
      retry_effects m @
      [L2_Alloc (allocs n), L2_Alloc (allocs n + 1),
       L2_Tx [allocs n + 1, allocs n] (node_ids ! 9) (interest_pkt q),
       L2_Timer_Remove Periodic_vt,
       L2_Timer_Set Periodic_vt INTEREST_INTERVAL ICN_SEND_INTEREST (Some (word_of_nat (q + 1)))])"
proof -
  have q: "unat (word_of_nat q :: u16) = q" "(ucast ((word_of_nat q :: u16) + 1) :: u32) = word_of_nat (q + 1)"
    using assms(5) u16_small [of q] ucast_small [of "q + 1"]
    by (simp_all add: NUMBER_OF_CHUNKS_def add.commute)
  have m: "unat (word_of_nat m :: u32) = m"
    using assms(8) by (simp add: smallest_missing_def NUMBER_OF_CHUNKS_def unsigned_of_nat take_bit_nat_eq_self)
  have l: "q < length (received_chunks n)"
    using assms(2,5) by (simp add: counter_inv_def CHUNK_BITS_def NUMBER_OF_CHUNKS_def)
  show ?thesis
    using assms l m by (simp add: icn_initInterest_def WANT_CONTENT_def Let_def q
      getSmallestMissing_eq [OF assms(8)] new_packet_def pktbuf_add_def icn_send_hop consumer_hop
      retry_effects_def interest_pkt_def chain_def smallest_missing_def)
qed

lemma myId_core: "core n' = core n \<Longrightarrow> myId n' = myId n"
  by (cases n; cases n') (simp add: core_def)

lemma myId_of_core: "myId (core n) = myId n"
  by (simp add: core_def)

lemma eventloop_step_myId:
  assumes "eventloop_step X n e = Inr (n', es)"
  shows "myId n' = myId n"
proof -
  have c: "icn_send X k d p = Inr (k', fs) \<Longrightarrow> myId k' = myId k" for k d p k' fs
    by (rule myId_core) (rule icn_send_core)
  have "rcv_interest X n p h = Inr (n', es) \<Longrightarrow> myId n' = myId n" for p h
    by (auto simp: rcv_interest_def and_then_eq_Inr split: if_splits prod.splits
        dest!: icn_initContent_core c dest: myId_core)
  moreover have "rcv_content X n p h = Inr (n', es) \<Longrightarrow> myId n' = myId n" for p h
    by (auto simp: rcv_content_def Let_def and_then_eq_Inr split: if_splits prod.splits dest!: c)
  ultimately show ?thesis using assms
    by (auto simp: eventloop_step_def rcv_def and_then_eq_Inr
        split: l2_event.splits if_splits icn_packet_type.splits
        dest!: icn_initInterest_core icn_initBackground_core intro: myId_core)
qed

interpretation identity: res_invariant "l2_step X" "\<lambda>n. myId n = me" for X me
  by unfold_locales (auto simp: l2_step_def and_then_eq_Inr dest: eventloop_step_myId)

text \<open>
  C30. However the consumer got into its state: while a chunk is missing, handling a
  retransmission of the smallest missing chunk sends an Interest for it towards the content
  store, never held back by the flow control, and arms the retry timer for that chunk again.
\<close>

theorem retransmission_always_sent:
  assumes "run_res (l2_step X) (l2_init (node_ids ! 7)) evs = Inr n"
    "null_ok X" "\<forall>k. pkt_room X k" "i < NUMBER_OF_CHUNKS" "\<not> received_chunks n ! i"
  shows "\<exists>m n' es. smallest_missing (received_chunks n) m \<and>
    icn_initInterest X n (word_of_nat m) = Inr (n', es) \<and>
    (\<exists>hs. L2_Tx hs (node_ids ! 9) (interest_pkt m) \<in> set es) \<and>
    L2_Timer_Set Retry_vt RETRY_INTERVAL ICN_RESEND_INTEREST (Some (word_of_nat m)) \<in> set es"
proof -
  have inv: "counter_inv n"
    by (rule consumer.run_inv [OF counter_inv_init assms(1)])
  have me: "myId n = node_ids ! 7"
    by (rule identity.run_inv [OF _ assms(1)]) (simp add: l2_init_def)
  obtain m where m: "smallest_missing (received_chunks n) m"
    using smallest_missing_exists assms(4,5) by blast
  then have b: "m < NUMBER_OF_CHUNKS" "\<not> received_chunks n ! m"
    by (auto simp: smallest_missing_def)
  have "m \<le> unat (receive_counter n) + FLOW_THR"
    using counter_inv_smallest [OF inv m] by (simp add: FLOW_THR_def)
  from initInterest_sends [OF me inv assms(2,3) b this m] m
  show ?thesis by (intro exI conjI) (auto simp: retry_effects_def)
qed

lemma retransmission_always_sent_witness:
  "\<exists>m n' es. smallest_missing (received_chunks (l2_init (node_ids ! 7))) m \<and>
    icn_initInterest ex_l2_ext (l2_init (node_ids ! 7)) (word_of_nat m) = Inr (n', es) \<and>
    (\<exists>hs. L2_Tx hs (node_ids ! 9) (interest_pkt m) \<in> set es) \<and>
    L2_Timer_Set Retry_vt RETRY_INTERVAL ICN_RESEND_INTEREST (Some (word_of_nat m)) \<in> set es"
  by (rule retransmission_always_sent [where evs = "[]" and i = 3])
    (simp_all add: ex_l2_null_ok l2_init_def NUMBER_OF_CHUNKS_def CHUNK_BITS_def)

section \<open>The packet buffer\<close>

text \<open>
  The snips an event brings in or allocates, and those it releases or hands to the
  network stack. Every event balances them, apart from the snips of a packet without a
  link-layer header and of an Interest for a chunk beyond the last one.
\<close>

fun snips_in :: "l2_event \<Rightarrow> nat multiset" where
  "snips_in (L2_Rcv p) = mset (chain p)"
| "snips_in _ = {#}"

fun snips_new :: "l2_eff \<Rightarrow> nat multiset" where
  "snips_new (L2_Alloc k) = {#k#}"
| "snips_new _ = {#}"

fun snips_out :: "l2_eff \<Rightarrow> nat multiset" where
  "snips_out (L2_Release hs) = mset hs"
| "snips_out (L2_Tx hs _ _) = mset hs"
| "snips_out _ = {#}"

abbreviation new_of :: "l2_eff list \<Rightarrow> nat multiset" where
  "new_of es \<equiv> sum_list (map snips_new es)"

abbreviation out_of :: "l2_eff list \<Rightarrow> nat multiset" where
  "out_of es \<equiv> sum_list (map snips_out es)"

definition snips_lost :: "l2_node \<Rightarrow> l2_event \<Rightarrow> nat multiset" where
  "snips_lost n e = (case e of
     L2_Rcv p \<Rightarrow> (case next_snip p of
        Some h \<Rightarrow> if hdr_is_netif h then {#} else mset (chain p) | None \<Rightarrow> {#})
   | L2_Resend_Interest b \<Rightarrow> (if WANT_CONTENT (myId n) \<and> NUMBER_OF_CHUNKS \<le> unat b \<and>
        \<not> received_chunks n ! unat b \<and> unat b \<le> unat (receive_counter n) + FLOW_THR
        then {#allocs n#} else {#})
   | L2_Send_Interest b \<Rightarrow> (if WANT_CONTENT (myId n) \<and> NUMBER_OF_CHUNKS \<le> unat b \<and>
        \<not> received_chunks n ! unat b \<and> unat b \<le> unat (receive_counter n) + FLOW_THR
        then {#allocs n#} else {#})
   | _ \<Rightarrow> {#})"

lemma icn_send_balance:
  "icn_send X n d p = Inr (n', es) \<Longrightarrow>
   (case p of None \<Rightarrow> {#} | Some q \<Rightarrow> mset (chain q)) + new_of es = out_of es"
  by (erule icn_send_cases) (auto split: option.splits)

lemma new_packet_balance:
  "new_packet X n d = (n', p, es) \<Longrightarrow>
   new_of es = (case p of None \<Rightarrow> {#} | Some q \<Rightarrow> mset (chain q)) \<and> out_of es = {#}"
  by (auto simp: new_packet_def pktbuf_add_def chain_def split: if_splits)

lemma icn_initContent_balance:
  "icn_initContent X n d q = Inr (n', es) \<Longrightarrow> new_of es = out_of es"
  by (auto simp: icn_initContent_def and_then_eq_Inr split: prod.splits
      dest!: icn_send_balance new_packet_balance)

lemma icn_initBackground_balance:
  "icn_initBackground X n = Inr (n', es) \<Longrightarrow> new_of es = out_of es"
  by (auto simp: icn_initBackground_def and_then_eq_Inr split: prod.splits
      dest!: icn_send_balance new_packet_balance)

text \<open>The effects that concern timers move no snip.\<close>

lemma timer_effects_balance:
  "new_of (retry_effects m) = {#}" "out_of (retry_effects m) = {#}"
  by (simp_all add: retry_effects_def)

lemma icn_initInterest_balance:
  assumes "icn_initInterest X n q = Inr (n', es)"
  shows "new_of es = out_of es +
    (if WANT_CONTENT (myId n) \<and> NUMBER_OF_CHUNKS \<le> unat q \<and> \<not> received_chunks n ! unat q \<and>
        unat q \<le> unat (receive_counter n) + FLOW_THR \<and> pkt_room X (allocs n)
     then {#allocs n#} else {#})"
proof (cases "WANT_CONTENT (myId n) \<and> \<not> received_chunks n ! unat q \<and>
    unat q \<le> unat (receive_counter n) + FLOW_THR")
  case False
  with assms show ?thesis
    by (auto simp: icn_initInterest_def Let_def and_then_eq_Inr nth_res_def split: if_splits)
next
  case True
  show ?thesis
  proof (cases "unat q < NUMBER_OF_CHUNKS")
    case True': True
    with assms True show ?thesis
      by (auto simp: icn_initInterest_def Let_def and_then_eq_Inr nth_res_def
          split: if_splits prod.splits dest!: icn_send_balance new_packet_balance)
  next
    case False
    with assms True show ?thesis
      by (auto simp: icn_initInterest_def Let_def and_then_eq_Inr nth_res_def new_packet_def
          pktbuf_add_def split: if_splits)
  qed
qed

lemma rcv_balance:
  assumes "rcv X n p = Inr (n', es)" "next_snip p = Some h"
  shows "mset (chain p) + new_of es =
    out_of es + (if hdr_is_netif h then {#} else mset (chain p))"
proof -
  have i: "rcv_interest X n p h = Inr (m, fs) \<Longrightarrow> mset (chain p) + new_of fs = out_of fs" for m fs
    using assms(2) by (auto simp: rcv_interest_def and_then_eq_Inr chain_def
        split: if_splits prod.splits dest!: icn_initContent_balance icn_send_balance)
  have c: "rcv_content X n p h = Inr (m, fs) \<Longrightarrow> mset (chain p) + new_of fs = out_of fs" for m fs
    using assms(2) by (auto simp: rcv_content_def Let_def and_then_eq_Inr chain_def
        split: if_splits prod.splits dest!: icn_send_balance)
  show ?thesis using assms
    by (auto simp: rcv_def split: if_splits icn_packet_type.splits dest: i c)
qed

text \<open>
  C31. No snip of the packet buffer is released or handed on twice, and none is lost, except
  for the snips in \<open>snips_lost\<close>: what an event brings in and allocates is what it releases,
  transmits or loses.
\<close>

theorem packet_buffer_balance:
  assumes "eventloop_step X n e = Inr (n', es)" "\<forall>k. pkt_room X k"
  shows "snips_in e + new_of es = out_of es + snips_lost n e"
proof (cases e)
  case (L2_Rcv p)
  with assms have r: "rcv X n p = Inr (n', es)" by (simp add: eventloop_step_def)
  then obtain h where h: "next_snip p = Some h"
    by (auto simp: rcv_def and_then_eq_Inr deref_def split: option.splits)
  from rcv_balance [OF r h] L2_Rcv h show ?thesis by (simp add: snips_lost_def)
next
  case (L2_Resend_Interest b)
  with assms have "icn_initInterest X n (ucast b) = Inr (n', es)"
    by (simp add: eventloop_step_def)
  from icn_initInterest_balance [OF this] L2_Resend_Interest assms(2) show ?thesis
    by (simp add: snips_lost_def u8_ucast)
next
  case (L2_Send_Interest b)
  with assms have "icn_initInterest X n (ucast b) = Inr (n', es)"
    by (simp add: eventloop_step_def)
  from icn_initInterest_balance [OF this] L2_Send_Interest assms(2) show ?thesis
    by (simp add: snips_lost_def u8_ucast)
next
  case L2_Send_Background
  with assms have "icn_initBackground X n = Inr (n', es)" by (simp add: eventloop_step_def)
  from icn_initBackground_balance [OF this] L2_Send_Background show ?thesis
    by (simp add: snips_lost_def)
next
  case L2_Other
  with assms show ?thesis by (simp add: eventloop_step_def snips_lost_def)
qed

definition ex_interest :: l2_event where
  "ex_interest = L2_Rcv \<lparr>handle = 10, is_netif = False, data = interest_pkt 5,
     next_snip = Some \<lparr>hdr_handle = 11, hdr_is_netif = True, hdr_src = node_ids ! 7\<rparr>\<rparr>"

lemma ex_interest_forwarded:
  "\<exists>n' es. eventloop_step ex_l2_ext (l2_init (node_ids ! 9)) ex_interest = Inr (n', es)"
  using next_hop_by_index [OF ex_l2_null_ok, of 9 0]
  by (simp add: eventloop_step_def ex_interest_def rcv_def interest_pkt_def rcv_interest_def
      l2_init_def HAS_CONTENT_def CONTENT_STORE_def icn_send_hop link_pairs_def pktbuf_add_def)

lemma packet_buffer_balance_witness:
  "\<exists>n' es. eventloop_step ex_l2_ext (l2_init (node_ids ! 9)) ex_interest = Inr (n', es) \<and>
    snips_in ex_interest + new_of es = out_of es + snips_lost (l2_init (node_ids ! 9)) ex_interest"
  using ex_interest_forwarded packet_buffer_balance [OF _ allI [OF ex_l2_room]] by blast

section \<open>The network\<close>

text \<open>
  The ten nodes on one radio: a transmitted packet reaches the node with the destination's
  address, whose driver stores it as a data snip and a snip with the link-layer header. The
  transmissions of the network are handled in the order they were made.
\<close>

type_synonym l2_tx = "nat \<times> eui64 \<times> icn_pkt"

definition node_index :: "eui64 \<Rightarrow> nat option" where
  "node_index d = find (\<lambda>j. node_ids ! j = d) [0..<10]"

definition txs :: "nat \<Rightarrow> l2_eff list \<Rightarrow> l2_tx list" where
  "txs i es = concat (map (\<lambda>e. case e of L2_Tx _ d pk \<Rightarrow> [(i, d, pk)] | _ \<Rightarrow> []) es)"

definition arrive :: "l2_ext \<Rightarrow> l2_node \<Rightarrow> eui64 \<Rightarrow> icn_pkt \<Rightarrow> fault + l2_node \<times> l2_eff list" where
  "arrive X n src pk = eventloop_step X (n\<lparr>allocs := allocs n + 2\<rparr>)
     (L2_Rcv \<lparr>handle = allocs n, is_netif = False, data = pk,
       next_snip = Some \<lparr>hdr_handle = allocs n + 1, hdr_is_netif = True, hdr_src = src\<rparr>\<rparr>)"

fun net_run :: "nat \<Rightarrow> (nat \<Rightarrow> l2_ext) \<Rightarrow> l2_node list \<Rightarrow> l2_tx list \<Rightarrow> fault + l2_node list" where
  "net_run f X ns [] = Inr ns"
| "net_run 0 X ns (t # ts) = Inl OutOfFuel"
| "net_run (Suc f) X ns ((i, d, pk) # ts) =
     (case node_index d of
        None \<Rightarrow> net_run f X ns ts
      | Some j \<Rightarrow> and_then (arrive (X j) (ns ! j) (node_ids ! i) pk) (\<lambda>(n, es).
          net_run f X (ns[j := n]) (ts @ txs j es)))"

lemma node_index_nth [simp]: "i < 10 \<Longrightarrow> node_index (node_ids ! i) = Some i"
  by (auto simp: node_index_def find_Some_iff intro!: exI [of _ i])

lemma txs_simps [simp]:
  "txs i [] = []" "txs i (L2_Tx hs d pk # es) = (i, d, pk) # txs i es"
  "txs i (L2_Alloc k # es) = txs i es" "txs i (L2_Release hs # es) = txs i es"
  "txs i (L2_Timer_Remove t # es) = txs i es" "txs i (L2_Timer_Set t a b c # es) = txs i es"
  "txs i (es @ fs) = txs i es @ txs i fs"
  by (simp_all add: txs_def)

definition content_pkt :: "nat \<Rightarrow> icn_pkt" where
  "content_pkt m = \<lparr>icn_type = ICN_CONTENT, icn_seq = word_of_nat m, icn_payload = content\<rparr>"

text \<open>A node that forwards: it records the Interest's sender, and passes the answer to it.\<close>

lemma forward_interest:
  assumes "myId n = node_ids ! i" "i \<noteq> 0" "i < 10" "next_hop X (node_ids ! i) CONTENT_STORE = Inr (Some d)"
    "\<forall>k. pkt_room X k"
  shows "\<exists>es. arrive X n src (interest_pkt m) =
    Inr (n\<lparr>allocs := allocs n + 3, pit_entry := src, pit_ctr := pit_ctr n + 1,
          send_counter := send_counter n + 1\<rparr>, es) \<and> txs i es = [(i, d, interest_pkt m)]"
  using assms
  by (simp add: arrive_def eventloop_step_def rcv_def interest_pkt_def rcv_interest_def
      HAS_CONTENT_def CONTENT_STORE_def icn_send_hop pktbuf_add_def)

lemma serve_interest:
  assumes "myId n = node_ids ! 0" "linkIsScheduled (node_ids ! 0) src" "\<forall>k. pkt_room X k"
  shows "\<exists>es. arrive X n src (interest_pkt m) =
    Inr (n\<lparr>allocs := allocs n + 4, send_counter := send_counter n + 1\<rparr>, es) \<and>
    txs i es = [(i, src, content_pkt m)]"
  using assms
  by (simp add: arrive_def eventloop_step_def rcv_def interest_pkt_def content_pkt_def
      rcv_interest_def HAS_CONTENT_def CONTENT_STORE_def icn_initContent_def new_packet_def
      icn_send_hop next_hop_def pktbuf_add_def)

lemma forward_content:
  assumes "myId n = node_ids ! i" "linkIsScheduled (node_ids ! i) (pit_entry n)"
    "pit_ctr n = 1" "\<forall>k. pkt_room X k"
  shows "\<exists>es. arrive X n src (content_pkt m) =
    Inr (n\<lparr>allocs := allocs n + 3, pit_ctr := 0, send_counter := send_counter n + 1\<rparr>, es) \<and>
    txs i es = [(i, pit_entry n, content_pkt m)]"
  using assms
  by (simp add: arrive_def eventloop_step_def rcv_def content_pkt_def rcv_content_def
      icn_send_hop next_hop_def pktbuf_add_def)

lemma consume_content:
  assumes "myId n = node_ids ! 7" "pit_ctr n = 0" "m < NUMBER_OF_CHUNKS"
    "length (received_chunks n) = CHUNK_BITS" "\<not> received_chunks n ! m"
  shows "\<exists>es. arrive X n src (content_pkt m) =
    Inr (n\<lparr>allocs := allocs n + 2, received_chunks := (received_chunks n)[m := True],
          receive_counter := max (receive_counter n) (word_of_nat m)\<rparr>, es) \<and> txs i es = []"
proof -
  have m: "unat (word_of_nat m :: u16) = m"
    using assms(3) by (simp add: NUMBER_OF_CHUNKS_def u16_small)
  have mx: "(if a < b then b else a) = max a b" for a b :: u16
    by (auto simp: max_def dest: less_imp_le)
  show ?thesis using assms m
    by (simp add: arrive_def eventloop_step_def rcv_def content_pkt_def rcv_content_def
        WANT_CONTENT_def Let_def mx NUMBER_OF_CHUNKS_def CHUNK_BITS_def)
qed

text \<open>
  The consumer handles an interest message for chunk \<open>q\<close>, and the network runs until every
  packet has been delivered. Four hops lead to the content store and four back.
\<close>

definition FETCH_HOPS :: nat where "FETCH_HOPS = 8"

definition fetch :: "(nat \<Rightarrow> l2_ext) \<Rightarrow> l2_node list \<Rightarrow> nat \<Rightarrow> fault + l2_node list" where
  "fetch X ns q =
     and_then (eventloop_step (X 7) (ns ! 7) (L2_Send_Interest (word_of_nat q))) (\<lambda>(n, es).
       net_run FETCH_HOPS X (ns[7 := n]) (txs 7 es))"

text \<open>The nodes are the ten of the table, and no Interest is pending on the route.\<close>

definition net_ok :: "l2_node list \<Rightarrow> bool" where
  "net_ok ns \<longleftrightarrow> length ns = 10 \<and> (\<forall>i < 10. myId (ns ! i) = node_ids ! i) \<and>
     (\<forall>i \<in> {1, 2, 7, 9}. pit_ctr (ns ! i) = 0) \<and> counter_inv (ns ! 7)"

definition radio_ok :: "(nat \<Rightarrow> l2_ext) \<Rightarrow> bool" where
  "radio_ok X \<longleftrightarrow> (\<forall>i. null_ok (X i) \<and> (\<forall>k. pkt_room (X i) k))"

lemma radio_okD: "radio_ok X \<Longrightarrow> null_ok (X i)" "radio_ok X \<Longrightarrow> \<forall>k. pkt_room (X i) k"
  by (simp_all add: radio_ok_def)

lemma store_route:
  assumes "null_ok X"
  shows "next_hop X (node_ids ! 9) CONTENT_STORE = Inr (Some (node_ids ! 2))"
    "next_hop X (node_ids ! 2) CONTENT_STORE = Inr (Some (node_ids ! 1))"
    "next_hop X (node_ids ! 1) CONTENT_STORE = Inr (Some (node_ids ! 0))"
  using assms by (simp_all add: CONTENT_STORE_def next_hop_by_index link_pairs_def)

lemma back_links: "linkIsScheduled (node_ids ! 0) (node_ids ! 1)"
  "linkIsScheduled (node_ids ! 1) (node_ids ! 2)" "linkIsScheduled (node_ids ! 2) (node_ids ! 9)"
  "linkIsScheduled (node_ids ! 9) (node_ids ! 7)"
  by (simp_all add: links_by_index link_pairs_def)

lemma net_run_interest:
  assumes "i < 10" "j < 10" "j \<noteq> 0" "myId (ns ! j) = node_ids ! j" "radio_ok X"
    "next_hop (X j) (node_ids ! j) CONTENT_STORE = Inr (Some d)"
  shows "net_run (Suc f) X ns [(i, node_ids ! j, interest_pkt q)] =
    net_run f X (ns[j := (ns ! j)\<lparr>allocs := allocs (ns ! j) + 3, pit_entry := node_ids ! i,
      pit_ctr := pit_ctr (ns ! j) + 1, send_counter := send_counter (ns ! j) + 1\<rparr>])
      [(j, d, interest_pkt q)]"
proof -
  obtain es where "arrive (X j) (ns ! j) (node_ids ! i) (interest_pkt q) =
      Inr ((ns ! j)\<lparr>allocs := allocs (ns ! j) + 3, pit_entry := node_ids ! i,
        pit_ctr := pit_ctr (ns ! j) + 1, send_counter := send_counter (ns ! j) + 1\<rparr>, es)"
    and "txs j es = [(j, d, interest_pkt q)]"
    using forward_interest [OF assms(4,3,2,6) radio_okD(2) [OF assms(5)]] by blast
  with assms(1,2) show ?thesis by simp
qed

lemma net_run_store:
  assumes "i < 10" "myId (ns ! 0) = node_ids ! 0" "radio_ok X"
    "linkIsScheduled (node_ids ! 0) (node_ids ! i)"
  shows "net_run (Suc f) X ns [(i, node_ids ! 0, interest_pkt q)] =
    net_run f X (ns[0 := (ns ! 0)\<lparr>allocs := allocs (ns ! 0) + 4,
      send_counter := send_counter (ns ! 0) + 1\<rparr>]) [(0, node_ids ! i, content_pkt q)]"
proof -
  obtain es where "arrive (X 0) (ns ! 0) (node_ids ! i) (interest_pkt q) =
      Inr ((ns ! 0)\<lparr>allocs := allocs (ns ! 0) + 4, send_counter := send_counter (ns ! 0) + 1\<rparr>, es)"
    and "txs 0 es = [(0, node_ids ! i, content_pkt q)]"
    using serve_interest [OF assms(2,4) radio_okD(2) [OF assms(3)]] by blast
  with assms(1) show ?thesis by simp
qed

lemma net_run_content:
  assumes "i < 10" "j < 10" "myId (ns ! j) = node_ids ! j" "radio_ok X" "pit_ctr (ns ! j) = 1"
    "pit_entry (ns ! j) = node_ids ! k" "linkIsScheduled (node_ids ! j) (node_ids ! k)"
  shows "net_run (Suc f) X ns [(i, node_ids ! j, content_pkt q)] =
    net_run f X (ns[j := (ns ! j)\<lparr>allocs := allocs (ns ! j) + 3, pit_ctr := 0,
      send_counter := send_counter (ns ! j) + 1\<rparr>]) [(j, node_ids ! k, content_pkt q)]"
proof -
  obtain es where "arrive (X j) (ns ! j) (node_ids ! i) (content_pkt q) =
      Inr ((ns ! j)\<lparr>allocs := allocs (ns ! j) + 3, pit_ctr := 0,
        send_counter := send_counter (ns ! j) + 1\<rparr>, es)"
    and "txs j es = [(j, node_ids ! k, content_pkt q)]"
    using forward_content [of "ns ! j" j "X j", OF assms(3) _ assms(5) radio_okD(2) [OF assms(4)]]
      assms(6,7) by force
  with assms(1,2) show ?thesis by simp
qed

lemma net_run_consume:
  assumes "i < 10" "myId (ns ! 7) = node_ids ! 7" "pit_ctr (ns ! 7) = 0" "q < NUMBER_OF_CHUNKS"
    "length (received_chunks (ns ! 7)) = CHUNK_BITS" "\<not> received_chunks (ns ! 7) ! q"
  shows "net_run (Suc f) X ns [(i, node_ids ! 7, content_pkt q)] = Inr
    (ns[7 := (ns ! 7)\<lparr>allocs := allocs (ns ! 7) + 2,
      received_chunks := (received_chunks (ns ! 7))[q := True],
      receive_counter := max (receive_counter (ns ! 7)) (word_of_nat q)\<rparr>])"
proof -
  obtain es where "arrive (X 7) (ns ! 7) (node_ids ! i) (content_pkt q) =
      Inr ((ns ! 7)\<lparr>allocs := allocs (ns ! 7) + 2,
        received_chunks := (received_chunks (ns ! 7))[q := True],
        receive_counter := max (receive_counter (ns ! 7)) (word_of_nat q)\<rparr>, es)"
    and "txs 7 es = []"
    using consume_content [OF assms(2-6)] by blast
  with assms(1) show ?thesis by simp
qed

declare net_run.simps(3) [simp del]

lemma fetch_hops: "FETCH_HOPS = Suc (Suc (Suc (Suc (Suc (Suc (Suc (Suc 0)))))))"
  by (simp add: FETCH_HOPS_def)

lemma net_okD:
  assumes "net_ok ns"
  shows "length ns = 10" "i < 10 \<Longrightarrow> myId (ns ! i) = node_ids ! i"
    "pit_ctr (ns ! 1) = 0" "pit_ctr (ns ! 2) = 0" "pit_ctr (ns ! 7) = 0" "pit_ctr (ns ! 9) = 0"
    "counter_inv (ns ! 7)" "length (received_chunks (ns ! 7)) = CHUNK_BITS"
  using assms by (simp_all add: net_ok_def counter_inv_def)

lemma consumer_sends:
  assumes "net_ok ns" "radio_ok X" "q < NUMBER_OF_CHUNKS" "\<not> received_chunks (ns ! 7) ! q"
    "q \<le> unat (receive_counter (ns ! 7)) + FLOW_THR"
  shows "\<exists>es. eventloop_step (X 7) (ns ! 7) (L2_Send_Interest (word_of_nat q)) =
    Inr ((ns ! 7)\<lparr>allocs := allocs (ns ! 7) + 2, send_counter := send_counter (ns ! 7) + 1\<rparr>, es) \<and>
    txs 7 es = [(7, node_ids ! 9, interest_pkt q)]"
proof -
  obtain m where m: "smallest_missing (received_chunks (ns ! 7)) m"
    using smallest_missing_exists assms(3,4) by blast
  have "(ucast (word_of_nat q :: u8) :: u16) = word_of_nat q"
    using assms(3) by (intro word_unat_eq_iff [THEN iffD2])
      (simp add: NUMBER_OF_CHUNKS_def unsigned_ucast_eq unsigned_of_nat take_bit_nat_eq_self)
  with initInterest_sends [OF net_okD(2,7) [OF assms(1)] radio_okD [OF assms(2)] assms(3-5) m]
  show ?thesis by (simp add: eventloop_step_def retry_effects_def)
qed

lemma fetch_run:
  assumes "net_ok ns" "radio_ok X" "q < NUMBER_OF_CHUNKS" "\<not> received_chunks (ns ! 7) ! q"
    "q \<le> unat (receive_counter (ns ! 7)) + FLOW_THR"
  shows "\<exists>ns'. fetch X ns q = Inr ns' \<and> net_ok ns' \<and>
    received_chunks (ns' ! 7) = (received_chunks (ns ! 7))[q := True] \<and>
    receive_counter (ns' ! 7) = max (receive_counter (ns ! 7)) (word_of_nat q)"
proof -
  obtain es where es: "eventloop_step (X 7) (ns ! 7) (L2_Send_Interest (word_of_nat q)) =
    Inr ((ns ! 7)\<lparr>allocs := allocs (ns ! 7) + 2, send_counter := send_counter (ns ! 7) + 1\<rparr>, es)"
    and t: "txs 7 es = [(7, node_ids ! 9, interest_pkt q)]"
    using consumer_sends [OF assms] by blast
  note r = store_route [OF radio_okD(1) [OF assms(2)]] and n = net_okD [OF assms(1)]
  have "\<exists>ns'. fetch X ns q = Inr ns' \<and> length ns' = 10 \<and> (\<forall>i < 10. myId (ns' ! i) = node_ids ! i) \<and>
     (\<forall>i \<in> {1, 2, 7, 9}. pit_ctr (ns' ! i) = 0) \<and>
     received_chunks (ns' ! 7) = (received_chunks (ns ! 7))[q := True] \<and>
     receive_counter (ns' ! 7) = max (receive_counter (ns ! 7)) (word_of_nat q)"
    unfolding fetch_def es t fetch_hops and_then_Inr split
    apply (simp add: net_run_interest [where j = 9 and d = "node_ids ! 2"] n r assms(2) del: One_nat_def)
    apply (simp add: net_run_interest [where j = 2 and d = "node_ids ! 1"] n r assms(2) del: One_nat_def)
    apply (simp add: net_run_interest [where j = 1 and d = "node_ids ! 0"] n r assms(2) del: One_nat_def)
    apply (simp add: net_run_store n back_links assms(2) del: One_nat_def)
    apply (simp add: net_run_content [where j = 1 and k = 2] n back_links assms(2) del: One_nat_def)
    apply (simp add: net_run_content [where j = 2 and k = 9] n back_links assms(2) del: One_nat_def)
    apply (simp add: net_run_content [where j = 9 and k = 7] n back_links assms(2) del: One_nat_def)
    apply (simp add: net_run_consume n assms(3,4) del: One_nat_def)
    apply (simp add: nth_list_update n del: One_nat_def)
    done
  then obtain ns' where f: "fetch X ns q = Inr ns'" "length ns' = 10"
      "\<forall>i < 10. myId (ns' ! i) = node_ids ! i" "\<forall>i \<in> {1, 2, 7, 9}. pit_ctr (ns' ! i) = 0"
    and c: "received_chunks (ns' ! 7) = (received_chunks (ns ! 7))[q := True]"
      "receive_counter (ns' ! 7) = max (receive_counter (ns ! 7)) (word_of_nat q)"
    by blast
  have "unat (word_of_nat q :: u16) = q" "q < CHUNK_BITS"
    using assms(3) by (simp_all add: NUMBER_OF_CHUNKS_def CHUNK_BITS_def u16_small)
  then have "counter_inv (ns' ! 7)"
    using counter_inv_receive [OF n(7), of "word_of_nat q" "ns' ! 7"] c by simp
  with f c show ?thesis by (auto simp: net_ok_def)
qed

definition l2_net :: "l2_node list" where
  "l2_net = map l2_init node_ids"

lemma net_ok_init: "net_ok l2_net"
  by (simp add: net_ok_def l2_net_def node_ids_distinct counter_inv_init) (simp add: l2_init_def)

lemma fetch_prefix:
  assumes "radio_ok X" "k \<le> NUMBER_OF_CHUNKS"
  shows "\<exists>ns'. run_res (fetch X) l2_net [0..<k] = Inr ns' \<and> net_ok ns' \<and>
    (\<forall>i < NUMBER_OF_CHUNKS. received_chunks (ns' ! 7) ! i \<longleftrightarrow> i < k) \<and>
    unat (receive_counter (ns' ! 7)) = k - 1"
  using assms(2)
proof (induction k)
  case 0
  have "l2_net ! 7 = l2_init (node_ids ! 7)" by (simp add: l2_net_def node_ids_distinct)
  with net_ok_init show ?case
    by (simp add: l2_init_def NUMBER_OF_CHUNKS_def CHUNK_BITS_def)
next
  case (Suc k)
  then obtain ns where ns: "run_res (fetch X) l2_net [0..<k] = Inr ns" "net_ok ns"
    and r: "\<forall>i < NUMBER_OF_CHUNKS. received_chunks (ns ! 7) ! i \<longleftrightarrow> i < k"
    and c: "unat (receive_counter (ns ! 7)) = k - 1" by auto
  from Suc.prems r c have "\<not> received_chunks (ns ! 7) ! k" "k < NUMBER_OF_CHUNKS"
    "k \<le> unat (receive_counter (ns ! 7)) + FLOW_THR" by (simp_all add: FLOW_THR_def)
  from fetch_run [OF ns(2) assms(1) this(2,1,3)] obtain ns' where f: "fetch X ns k = Inr ns'" "net_ok ns'"
    and u: "received_chunks (ns' ! 7) = (received_chunks (ns ! 7))[k := True]"
      "receive_counter (ns' ! 7) = max (receive_counter (ns ! 7)) (word_of_nat k)" by blast
  have k: "unat (word_of_nat k :: u16) = k"
    using \<open>k < NUMBER_OF_CHUNKS\<close> by (simp add: NUMBER_OF_CHUNKS_def u16_small)
  have "unat (max (receive_counter (ns ! 7)) (word_of_nat k)) = k"
    using c k by (simp add: max_def word_le_nat_alt)
  moreover have "\<forall>i < NUMBER_OF_CHUNKS. received_chunks (ns' ! 7) ! i \<longleftrightarrow> i < Suc k"
    using r u(1) net_okD(8) [OF ns(2)]
    by (auto simp: nth_list_update NUMBER_OF_CHUNKS_def CHUNK_BITS_def less_Suc_eq)
  ultimately show ?case using ns(1) f u(2)
    by (simp add: run_res_append)
qed

text \<open>
  C1. On a radio that loses nothing, the consumer that asks for the chunks 0 to 99 one after
  the other has received all of them in the end: every Interest travels the four hops to the
  content store, every answer travels back over the senders that the forwarders noted, and
  no Interest stays pending on the way.
\<close>

theorem fetch_all_chunks:
  assumes "radio_ok X"
  shows "\<exists>ns. run_res (fetch X) l2_net [0..<NUMBER_OF_CHUNKS] = Inr ns \<and>
    (\<forall>i < NUMBER_OF_CHUNKS. received_chunks (ns ! 7) ! i) \<and>
    (\<forall>i \<in> {1, 2, 7, 9}. pit_ctr (ns ! i) = 0)"
proof -
  obtain ns where "run_res (fetch X) l2_net [0..<NUMBER_OF_CHUNKS] = Inr ns" "net_ok ns"
    "\<forall>i < NUMBER_OF_CHUNKS. received_chunks (ns ! 7) ! i \<longleftrightarrow> i < NUMBER_OF_CHUNKS"
    using fetch_prefix [OF assms order_refl] by blast
  then show ?thesis by (auto simp: net_ok_def)
qed

lemma fetch_all_chunks_witness:
  "\<exists>ns. run_res (fetch (\<lambda>_. ex_l2_ext)) l2_net [0..<NUMBER_OF_CHUNKS] = Inr ns \<and>
    (\<forall>i < NUMBER_OF_CHUNKS. received_chunks (ns ! 7) ! i) \<and>
    (\<forall>i \<in> {1, 2, 7, 9}. pit_ctr (ns ! i) = 0)"
  by (rule fetch_all_chunks) (simp add: radio_ok_def ex_l2_null_ok)

end
