(* ===== verification/Sha1_Spec.thy ===== *)
theory Sha1_Spec
  imports Prelude
begin

text \<open>
  The SHA-1 hash function as FIPS 180-4 defines it, on messages that are lists of bytes,
  and the interface that the five implementations under \<^verbatim>\<open>src/sha1-test\<close> share: a context
  that absorbs a message piece by piece and gives its digest in the end.
\<close>

unbundle bit_operations_syntax

section \<open>Words and bytes\<close>

text \<open>The circular left shift of FIPS 180-4, section 3.2.\<close>

definition rol32 :: "nat \<Rightarrow> u32 \<Rightarrow> u32" where
  "rol32 n x = push_bit n x OR drop_bit (32 - n) x"

text \<open>Word \<open>i\<close> of a block of bytes, most significant byte first, and the bytes of a word.\<close>

definition be_word :: "u8 list \<Rightarrow> nat \<Rightarrow> u32" where
  "be_word bs i = push_bit 24 (ucast (bs ! (4 * i))) OR push_bit 16 (ucast (bs ! (4 * i + 1)))
     OR push_bit 8 (ucast (bs ! (4 * i + 2))) OR ucast (bs ! (4 * i + 3))"

definition bytes_be :: "u32 \<Rightarrow> u8 list" where
  "bytes_be w = map (\<lambda>k. ucast (drop_bit (8 * k) w)) [3, 2, 1, 0]"

definition block_words :: "u8 list \<Rightarrow> u32 list" where
  "block_words bs = map (be_word bs) [0..<16]"

text \<open>The 64-bit length field.\<close>

definition be64 :: "64 word \<Rightarrow> u8 list" where
  "be64 n = map (\<lambda>k. ucast (drop_bit (8 * k) n)) [7, 6, 5, 4, 3, 2, 1, 0]"

section \<open>The hash computation\<close>

type_synonym hash5 = "u32 \<times> u32 \<times> u32 \<times> u32 \<times> u32"

definition Ch :: "u32 \<Rightarrow> u32 \<Rightarrow> u32 \<Rightarrow> u32" where
  "Ch b c d = (b AND c) XOR (NOT b AND d)"

definition Parity :: "u32 \<Rightarrow> u32 \<Rightarrow> u32 \<Rightarrow> u32" where
  "Parity b c d = b XOR c XOR d"

definition Maj :: "u32 \<Rightarrow> u32 \<Rightarrow> u32 \<Rightarrow> u32" where
  "Maj b c d = (b AND c) XOR (b AND d) XOR (c AND d)"

definition ft :: "nat \<Rightarrow> u32 \<Rightarrow> u32 \<Rightarrow> u32 \<Rightarrow> u32" where
  "ft t = (if t < 20 then Ch else if t < 40 then Parity else if t < 60 then Maj else Parity)"

definition Kt :: "nat \<Rightarrow> u32" where
  "Kt t = (if t < 20 then 0x5a827999 else if t < 40 then 0x6ed9eba1
           else if t < 60 then 0x8f1bbcdc else 0xca62c1d6)"

definition H0 :: hash5 where
  "H0 = (0x67452301, 0xefcdab89, 0x98badcfe, 0x10325476, 0xc3d2e1f0)"

fun expand :: "nat \<Rightarrow> u32 list \<Rightarrow> u32 list" where
  "expand 0 ws = ws"
| "expand (Suc n) ws = (let t = length ws in
     expand n (ws @ [rol32 1 (ws ! (t - 3) XOR ws ! (t - 8) XOR ws ! (t - 14) XOR ws ! (t - 16))]))"

definition sha_round :: "nat \<Rightarrow> u32 \<Rightarrow> hash5 \<Rightarrow> hash5" where
  "sha_round t w v = (case v of (a, b, c, d, e) \<Rightarrow>
     (rol32 5 a + ft t b c d + e + Kt t + w, a, rol32 30 b, c, d))"

definition add5 :: "hash5 \<Rightarrow> hash5 \<Rightarrow> hash5" where
  "add5 h v = (case h of (a, b, c, d, e) \<Rightarrow> case v of (a', b', c', d', e') \<Rightarrow>
     (a + a', b + b', c + c', d + d', e + e'))"

definition sha_compress :: "hash5 \<Rightarrow> u32 list \<Rightarrow> hash5" where
  "sha_compress h ws = (let W = expand 64 ws in
     add5 h (foldl (\<lambda>v t. sha_round t (W ! t) v) h [0..<80]))"

function hash_blocks :: "hash5 \<Rightarrow> u8 list \<Rightarrow> hash5" where
  "hash_blocks h bs =
     (if length bs < 64 then h
      else hash_blocks (sha_compress h (block_words (take 64 bs))) (drop 64 bs))"
  by pat_completeness auto

termination hash_blocks
  by (relation "measure (\<lambda>(h, bs). length bs)") auto

declare hash_blocks.simps [simp del]

definition sha_padding :: "nat \<Rightarrow> u8 list" where
  "sha_padding n = 0x80 # replicate ((119 - n mod 64) mod 64) 0 @ be64 (word_of_nat (8 * n))"

definition digest_bytes :: "hash5 \<Rightarrow> u8 list" where
  "digest_bytes h = (case h of (a, b, c, d, e) \<Rightarrow> concat (map bytes_be [a, b, c, d, e]))"

definition SHA1 :: "u8 list \<Rightarrow> u8 list" where
  "SHA1 m = digest_bytes (hash_blocks H0 (m @ sha_padding (length m)))"

section \<open>Absorbing byte by byte\<close>

text \<open>
  A hash value and the bytes that wait for their block to fill up. This is what every
  context holds, in one representation or another.
\<close>

type_synonym absorber = "hash5 \<times> u8 list"

definition feed :: "absorber \<Rightarrow> u8 \<Rightarrow> absorber" where
  "feed s b = (case s of (h, buf) \<Rightarrow>
     if length buf = 63 then (sha_compress h (block_words (buf @ [b])), [])
     else (h, buf @ [b]))"

abbreviation absorb :: "absorber \<Rightarrow> u8 list \<Rightarrow> absorber" where
  "absorb \<equiv> foldl feed"

lemma foldl_simulation:
  assumes "\<And>s x b. R s x \<Longrightarrow> R (f s b) (g x b)"
  shows "R s x \<Longrightarrow> R (foldl f s bs) (foldl g x bs)"
  by (induction bs arbitrary: s x) (auto intro: assms simp del: split_paired_All)

lemma absorb_short: "length buf + length bs < 64 \<Longrightarrow> absorb (h, buf) bs = (h, buf @ bs)"
  by (induction bs arbitrary: buf) (auto simp: feed_def)

lemma absorb_fill:
  assumes "length buf + length bs = 64" "bs \<noteq> []"
  shows "absorb (h, buf) bs = (sha_compress h (block_words (buf @ bs)), [])"
proof -
  obtain cs b where bs: "bs = cs @ [b]" using assms(2) by (metis rev_exhaust)
  with assms(1) have "absorb (h, buf) cs = (h, buf @ cs)" by (intro absorb_short) simp
  with bs assms(1) show ?thesis by (simp add: feed_def)
qed

lemma feed_bound: "length (snd s) < 64 \<Longrightarrow> length (snd (feed s b)) < 64"
  by (auto simp: feed_def split: prod.splits)

lemma absorb_bound: "length (snd s) < 64 \<Longrightarrow> length (snd (absorb s bs)) < 64"
  by (induction bs arbitrary: s) (auto simp: feed_bound)

lemma absorb_length:
  "length (snd s) < 64 \<Longrightarrow> length (snd (absorb s bs)) = (length (snd s) + length bs) mod 64"
proof (induction bs arbitrary: s)
  case (Cons b bs)
  have "length (snd (feed s b)) = (length (snd s) + 1) mod 64"
    using Cons.prems by (auto simp: feed_def split: prod.splits)
  with Cons show ?case by (simp add: feed_bound mod_add_left_eq)
qed simp

lemma absorb_hash_blocks:
  "fst (absorb (h, []) bs) = hash_blocks h bs"
proof (induction bs arbitrary: h rule: length_induct)
  case (1 bs)
  show ?case
  proof (cases "length bs < 64")
    case True
    then show ?thesis by (simp add: absorb_short hash_blocks.simps)
  next
    case False
    have "absorb (h, []) bs = absorb (absorb (h, []) (take 64 bs)) (drop 64 bs)"
      by (metis append_take_drop_id foldl_append)
    also have "absorb (h, []) (take 64 bs) = (sha_compress h (block_words (take 64 bs)), [])"
      using False absorb_fill [of "[]" "take 64 bs" h] by (cases bs) auto
    finally have "absorb (h, []) bs =
      absorb (sha_compress h (block_words (take 64 bs)), []) (drop 64 bs)" .
    moreover have "fst (absorb (g, []) (drop 64 bs)) = hash_blocks g (drop 64 bs)" for g
      by (rule "1.IH" [rule_format]) (use False in simp)
    ultimately show ?thesis using False by (subst hash_blocks.simps) simp
  qed
qed

text \<open>The digest, from the state of an absorber that has taken in the whole message.\<close>

lemma SHA1_absorb:
  "SHA1 m = digest_bytes (fst (absorb (absorb (H0, []) m) (sha_padding (length m))))"
  by (simp add: SHA1_def absorb_hash_blocks [symmetric])

section \<open>The interface of an implementation\<close>

text \<open>
  A context that takes in a message piece by piece: \<open>holds c m\<close> says that \<open>c\<close> has
  absorbed the message \<open>m\<close>. \<open>limit\<close> bounds the length of a message, \<open>piece\<close> that
  of a piece. The provider promises that the fresh context holds the empty message, that an
  update appends to what is held, and that the digest of a context is that of its message.
\<close>

locale incremental_hash =
  fixes init :: 'c
    and update :: "'c \<Rightarrow> u8 list \<Rightarrow> 'c"
    and digest :: "'c \<Rightarrow> fault + u8 list"
    and holds :: "'c \<Rightarrow> u8 list \<Rightarrow> bool"
    and limit :: nat
    and piece :: nat
  assumes holds_init: "holds init []"
    and holds_update: "holds c m \<Longrightarrow> length m + length bs < limit \<Longrightarrow> length bs < piece \<Longrightarrow>
      holds (update c bs) (m @ bs)"
    and holds_digest: "holds c m \<Longrightarrow> length m < limit \<Longrightarrow> digest c = Inr (SHA1 m)"
begin

lemma holds_concat:
  "holds c m \<Longrightarrow> length m + length (concat ps) < limit \<Longrightarrow> length (concat ps) < piece \<Longrightarrow>
   holds (foldl update c ps) (m @ concat ps)"
proof (induction ps arbitrary: c m)
  case (Cons p ps)
  then have "holds (update c p) (m @ p)" by (intro holds_update) simp_all
  from Cons.IH [OF this] Cons.prems show ?case by simp
qed simp

lemma holds_pieces:
  "holds c m \<Longrightarrow> length m + length (concat ps) < limit \<Longrightarrow> \<forall>p \<in> set ps. length p < piece \<Longrightarrow>
   holds (foldl update c ps) (m @ concat ps)"
proof (induction ps arbitrary: c m)
  case (Cons p ps)
  then have "holds (update c p) (m @ p)" by (intro holds_update) simp_all
  from Cons.IH [OF this] Cons.prems show ?case by simp
qed simp

lemma pieces_digest:
  assumes "length (concat ps) < limit" "\<forall>p \<in> set ps. length p < piece"
  shows "digest (foldl update init ps) = Inr (SHA1 (concat ps))"
proof (rule holds_digest)
  show "holds (foldl update init ps) (concat ps)"
    using holds_pieces [OF holds_init, of ps] assms by simp
qed (rule assms)

lemma bytes_digest:
  assumes "length m < limit" "1 < piece"
  shows "digest (foldl (\<lambda>c b. update c [b]) init m) = Inr (SHA1 m)"
proof -
  have "foldl (\<lambda>c b. update c [b]) init m = foldl update init (map (\<lambda>b. [b]) m)"
    by (simp add: foldl_map)
  then show ?thesis using pieces_digest [of "map (\<lambda>b. [b]) m"] assms by auto
qed

lemma whole_digest:
  assumes "length m < limit" "length m < piece"
  shows "digest (update init m) = Inr (SHA1 m)"
  using pieces_digest [of "[m]"] assms by simp

end

end
