(* ===== verification/Sha1_Rounds.thy ===== *)
theory Sha1_Rounds
  imports Sha1_Spec
begin

text \<open>
  What the block functions of the implementations share: the bit tricks for the choice and
  majority functions, the message schedule in a circular buffer of 16 words, the byte order
  of words in memory on the little-endian boards, and messages that are absorbed into a
  buffer of 64 bytes.
\<close>

unbundle bit_operations_syntax

section \<open>Choice and majority\<close>

named_theorems bit_tricks "the forms in which the code computes choice and majority"

lemma Ch_forms [bit_tricks]:
  "z XOR (x AND (y XOR z)) = Ch x y z"
  "(x AND (y XOR z)) XOR z = Ch x y z"
  "(x AND y) OR (NOT x AND z) = Ch x y z"
  by (rule bit_word_eqI; auto simp: Ch_def bit_simps)+

lemma Maj_forms [bit_tricks]:
  "(x AND y) OR (z AND (x OR y)) = Maj x y z"
  "((x OR y) AND z) OR (x AND y) = Maj x y z"
  "(x AND y) OR (x AND z) OR (y AND z) = Maj x y z"
  "(x AND y) OR (z AND (x XOR y)) = Maj x y z"
  by (rule bit_word_eqI; auto simp: Maj_def bit_simps)+

lemma nat_and_15: "(n :: nat) AND 15 = n mod 16"
  using take_bit_eq_mask [of 4 n] by (simp add: take_bit_eq_mod mask_eq_exp_minus_1)

lemma nat_and_3: "(n :: nat) AND 3 = n mod 4"
  using take_bit_eq_mask [of 2 n] by (simp add: take_bit_eq_mod mask_eq_exp_minus_1)

section \<open>The schedule in a circular buffer\<close>

lemma expand_length: "length (expand n ws) = length ws + n"
  by (induction n arbitrary: ws) (auto simp: Let_def)

lemma expand_prefix: "i < length ws \<Longrightarrow> expand n ws ! i = ws ! i"
  by (induction n arbitrary: ws) (auto simp: Let_def nth_append)

lemma expand_snoc:
  "expand (Suc n) ws = (let W = expand n ws; t = length W in
     W @ [rol32 1 (W ! (t - 3) XOR W ! (t - 8) XOR W ! (t - 14) XOR W ! (t - 16))])"
proof (induction n arbitrary: ws)
  case (Suc n)
  let ?ws = "ws @ [rol32 1 (ws ! (length ws - 3) XOR ws ! (length ws - 8) XOR
    ws ! (length ws - 14) XOR ws ! (length ws - 16))]"
  have "expand (Suc (Suc n)) ws = expand (Suc n) ?ws" by (simp only: expand.simps Let_def)
  moreover have "expand n ?ws = expand (Suc n) ws" by (simp only: expand.simps Let_def)
  ultimately show ?case unfolding Suc.IH [of ?ws] by (simp only:)
qed (simp add: Let_def)

lemma expand_nth:
  assumes "length ws \<ge> 16" "length ws \<le> i" "i < length ws + n"
  shows "expand n ws ! i = rol32 1 (expand n ws ! (i - 3) XOR expand n ws ! (i - 8) XOR
    expand n ws ! (i - 14) XOR expand n ws ! (i - 16))"
  using assms
proof (induction n arbitrary: ws)
  case (Suc n)
  let ?w = "rol32 1 (ws ! (length ws - 3) XOR ws ! (length ws - 8) XOR ws ! (length ws - 14) XOR
    ws ! (length ws - 16))"
  have e: "expand (Suc n) ws = expand n (ws @ [?w])" by (simp add: Let_def)
  show ?case
  proof (cases "i = length ws")
    case True
    with Suc.prems show ?thesis unfolding e by (simp add: expand_prefix nth_append)
  next
    case False
    with Suc.prems Suc.IH [of "ws @ [?w]"] show ?thesis unfolding e by simp
  qed
qed simp

text \<open>
  One step of the circular method: word \<open>t\<close> of the schedule replaces word \<open>t - 16\<close>.
\<close>

definition circ_update :: "nat \<Rightarrow> u32 list \<Rightarrow> u32 list" where
  "circ_update t w = (if t < 16 then w
     else w[t mod 16 := rol32 1 (w ! ((t + 13) mod 16) XOR w ! ((t + 8) mod 16) XOR
            w ! ((t + 2) mod 16) XOR w ! (t mod 16))])"

definition circ_round :: "u32 list \<times> hash5 \<Rightarrow> nat \<Rightarrow> u32 list \<times> hash5" where
  "circ_round s t = (case s of (w, v) \<Rightarrow>
     let w' = circ_update t w in (w', sha_round t (w' ! (t mod 16)) v))"

lemma circ_round_eq: "circ_round (w, v) t =
    (circ_update t w, sha_round t (circ_update t w ! (t mod 16)) v)"
  by (simp add: circ_round_def Let_def)

text \<open>The buffer after the steps below \<open>t\<close> holds the last 16 words of the schedule.\<close>

definition circ_holds :: "u32 list \<Rightarrow> nat \<Rightarrow> u32 list \<Rightarrow> bool" where
  "circ_holds W t w \<longleftrightarrow> length w = 16 \<and>
     (\<forall>i < 80. i < max t 16 \<longrightarrow> t \<le> i + 16 \<longrightarrow> w ! (i mod 16) = W ! i)"

lemma mod_add_16: "((s :: nat) + 16 + k) mod 16 = (s + k) mod 16"
proof -
  have "s + 16 + k = 16 + (s + k)" by simp
  then show ?thesis by (simp only: mod_add_self1)
qed

lemma dvd_imp_zero_nat: "(d :: nat) dvd n \<Longrightarrow> n < d \<Longrightarrow> n = 0"
  using nat_dvd_not_less by blast

lemma circ_update_holds:
  assumes "circ_holds (expand 64 ws) t w" "length ws = 16" "t < 80"
  shows "circ_holds (expand 64 ws) (Suc t) (circ_update t w)"
    "circ_update t w ! (t mod 16) = expand 64 ws ! t"
proof -
  let ?W = "expand 64 ws"
  have "circ_holds ?W (Suc t) (circ_update t w) \<and> circ_update t w ! (t mod 16) = ?W ! t"
  proof (cases "t < 16")
    case True
    with assms show ?thesis by (auto simp: circ_holds_def circ_update_def)
  next
    case False
    have h: "w ! (i mod 16) = ?W ! i" if "t \<le> i + 16" "i < t" for i
      using assms that by (auto simp: circ_holds_def)
    from False obtain s where s: "t = s + 16" by (metis le_add_diff_inverse2 not_less)
    have m: "(t + 13) mod 16 = (s + 13) mod 16" "(t + 8) mod 16 = (s + 8) mod 16"
      "(t + 2) mod 16 = (s + 2) mod 16" "t mod 16 = s mod 16" 
      unfolding s mod_add_16 by (simp_all only: mod_add_self2)
    have d: "t - 16 = s" "t - 3 = s + 13" "t - 8 = s + 8" "t - 14 = s + 2" using s by simp_all
    have "w ! (s mod 16) = ?W ! s" "w ! ((s + 13) mod 16) = ?W ! (s + 13)"
      "w ! ((s + 8) mod 16) = ?W ! (s + 8)" "w ! ((s + 2) mod 16) = ?W ! (s + 2)"
      using h [of s] h [of "s + 13"] h [of "s + 8"] h [of "s + 2"] s by simp_all
    then have "w ! (t mod 16) = ?W ! (t - 16)" "w ! ((t + 13) mod 16) = ?W ! (t - 3)"
      "w ! ((t + 8) mod 16) = ?W ! (t - 8)" "w ! ((t + 2) mod 16) = ?W ! (t - 14)"
      by (simp_all only: m d)
    then have u: "circ_update t w = w[t mod 16 := ?W ! t]"
      using False assms(2,3) expand_nth [of ws t 64] by (simp add: circ_update_def)
    have only: "i = t" if "t < i + 16" "i < Suc t" "i mod 16 = t mod 16" for i
    proof -
      have "16 dvd t - i" using that by (metis mod_eq_dvd_iff_nat less_Suc_eq_le)
      moreover have "t - i < 16" using that(1,2) by linarith
      ultimately have "t - i = 0" by (rule dvd_imp_zero_nat)
      then show ?thesis using that(2) by simp
    qed
    have l: "length w = 16" "t mod 16 < 16" using assms(1) by (simp_all add: circ_holds_def)
    have "w[t mod 16 := ?W ! t] ! (i mod 16) = ?W ! i" if "i < Suc t" "Suc t \<le> i + 16" for i
    proof (cases "i = t")
      case False
      with only [of i] that have "i mod 16 \<noteq> t mod 16" by auto
      moreover have "w ! (i mod 16) = ?W ! i" using h [of i] False that by simp
      ultimately show ?thesis by simp
    qed (simp add: l)
    moreover have "max (Suc t) 16 = Suc t" using False by simp
    ultimately show ?thesis unfolding u by (simp add: circ_holds_def l)
  qed
  then show "circ_holds (expand 64 ws) (Suc t) (circ_update t w)"
    "circ_update t w ! (t mod 16) = expand 64 ws ! t" by auto
qed

lemma circ_rounds:
  assumes "length ws = 16" "t \<le> 80"
  shows "\<exists>w. foldl circ_round (ws, v) [0..<t] =
      (w, foldl (\<lambda>v t. sha_round t (expand 64 ws ! t) v) v [0..<t]) \<and>
    circ_holds (expand 64 ws) t w"
  using assms(2)
proof (induction t)
  case 0
  have "circ_holds (expand 64 ws) 0 ws"
    using assms(1) by (auto simp: circ_holds_def expand_prefix)
  then show ?case by simp
next
  case (Suc t)
  then obtain w where "foldl circ_round (ws, v) [0..<t] =
      (w, foldl (\<lambda>v t. sha_round t (expand 64 ws ! t) v) v [0..<t])"
    "circ_holds (expand 64 ws) t w" by auto
  with circ_update_holds [OF this(2) assms(1)] Suc.prems show ?case
    by (simp add: circ_round_eq)
qed

text \<open>The circular method computes the compression function.\<close>

lemma circ_compress:
  assumes "length ws = 16"
  shows "add5 h (snd (foldl circ_round (ws, h) [0..<80])) = sha_compress h ws"
  using circ_rounds [OF assms, of 80 h] by (auto simp: sha_compress_def Let_def)

lemma circ_length:
  assumes "length ws = 16" "t \<le> 80"
  shows "length (fst (foldl circ_round (ws, h) [0..<t])) = 16"
  using circ_rounds [OF assms, of h] by (auto simp: circ_holds_def)

section \<open>Words in memory\<close>

text \<open>
  The boards are little endian: word \<open>i\<close> of an array in memory, the bytes a word is stored
  as, and the two views of an array of 16 words.
\<close>

definition ld32 :: "u8 list \<Rightarrow> nat \<Rightarrow> u32" where
  "ld32 mem i = ucast (mem ! (4 * i)) OR push_bit 8 (ucast (mem ! (4 * i + 1)))
     OR push_bit 16 (ucast (mem ! (4 * i + 2))) OR push_bit 24 (ucast (mem ! (4 * i + 3)))"

definition bytes_le :: "u32 \<Rightarrow> u8 list" where
  "bytes_le w = map (\<lambda>k. ucast (drop_bit (8 * k) w)) [0, 1, 2, 3]"

definition mem_words :: "u8 list \<Rightarrow> u32 list" where
  "mem_words mem = map (ld32 mem) [0..<16]"

definition words_mem :: "u32 list \<Rightarrow> u8 list" where
  "words_mem ws = concat (map bytes_le ws)"

text \<open>The bytes of a word in the opposite order.\<close>

definition bswap :: "u32 \<Rightarrow> u32" where
  "bswap w = be_word (bytes_le w) 0"

text \<open>\<^verbatim>\<open>memcpy(mem + off, bs, length bs)\<close>.\<close>

definition memcpy :: "'a list \<Rightarrow> nat \<Rightarrow> 'a list \<Rightarrow> 'a list" where
  "memcpy mem off bs = take off mem @ bs @ drop (off + length bs) mem"

lemma length_bytes [simp]: "length (bytes_le w) = 4" "length (bytes_be w) = 4"
  by (simp_all add: bytes_le_def bytes_be_def)

lemma length_words_mem [simp]: "length (words_mem ws) = 4 * length ws"
  by (induction ws) (simp_all add: words_mem_def)

lemma length_mem_words [simp]: "length (mem_words m) = 16" "length (block_words m) = 16"
  by (simp_all add: mem_words_def block_words_def)

lemma u8_bitD: "bit (b :: u8) n \<Longrightarrow> n < 8"
  using bit_imp_le_length [of b n] by simp

lemma u32_bitD: "bit (b :: u32) n \<Longrightarrow> n < 32"
  using bit_imp_le_length [of b n] by simp

lemma ld32_bytes:
  "ucast (ld32 mem i) = mem ! (4 * i)"
  "ucast (drop_bit 8 (ld32 mem i)) = mem ! (4 * i + 1)"
  "ucast (drop_bit 16 (ld32 mem i)) = mem ! (4 * i + 2)"
  "ucast (drop_bit 24 (ld32 mem i)) = mem ! (4 * i + 3)"
  by (rule bit_word_eqI; auto simp: ld32_def bit_simps dest: u8_bitD)+

text \<open>Reading back what was stored.\<close>

lemma words_mem_nth:
  assumes "i < length ws" "k < 4"
  shows "words_mem ws ! (4 * i + k) = bytes_le (ws ! i) ! k"
  using assms
proof (induction ws arbitrary: i)
  case (Cons w ws)
  have e: "words_mem (w # ws) = bytes_le w @ words_mem ws" by (simp add: words_mem_def)
  show ?case
  proof (cases i)
    case 0
    with Cons.prems show ?thesis by (simp add: e nth_append)
  next
    case (Suc j)
    with Cons.prems Cons.IH [of j] show ?thesis by (simp add: e nth_append)
  qed
qed simp

lemma ld32_words_mem:
  assumes "i < length ws"
  shows "ld32 (words_mem ws) i = ws ! i"
proof -
  have n: "words_mem ws ! (4 * i) = bytes_le (ws ! i) ! 0"
    "words_mem ws ! (4 * i + 1) = bytes_le (ws ! i) ! 1"
    "words_mem ws ! (4 * i + 2) = bytes_le (ws ! i) ! 2"
    "words_mem ws ! (4 * i + 3) = bytes_le (ws ! i) ! 3"
    using words_mem_nth [OF assms, of 0] words_mem_nth [OF assms, of 1]
      words_mem_nth [OF assms, of 2] words_mem_nth [OF assms, of 3] by simp_all
  have b: "bit (ucast (w :: u32) :: u8) k \<longleftrightarrow> k < 8 \<and> bit w k" for w k
    by (auto simp: bit_simps)
  have c: "bit (ucast (v :: u8) :: u32) k \<longleftrightarrow> k < 8 \<and> bit v k" for v k
    by (auto simp: bit_simps dest: u8_bitD)
  have "bit (ld32 (words_mem ws) i) m \<longleftrightarrow> bit (ws ! i) m" for m
  proof -
    consider "m < 8" | "8 \<le> m" "m < 16" | "16 \<le> m" "m < 24" | "24 \<le> m" "m < 32" | "32 \<le> m"
      by linarith
    then show ?thesis
      unfolding ld32_def n by cases (auto simp: bytes_le_def bit_simps b c dest: u32_bitD)
  qed
  then show ?thesis by (intro bit_word_eqI) simp
qed

lemma mem_words_inverse:
  "length ws = 16 \<Longrightarrow> mem_words (words_mem ws) = ws"
  by (intro nth_equalityI) (simp_all add: mem_words_def ld32_words_mem)

lemma words_mem_inverse:
  assumes "length mem = 64"
  shows "words_mem (mem_words mem) = mem"
proof (rule nth_equalityI)
  fix j
  assume "j < length (words_mem (mem_words mem))"
  then have j: "j div 4 < 16" by simp
  have "j = 4 * (j div 4) + j mod 4" by simp
  then have "words_mem (mem_words mem) ! j = bytes_le (ld32 mem (j div 4)) ! (j mod 4)"
    using words_mem_nth [of "j div 4" "mem_words mem" "j mod 4"] j by (simp add: mem_words_def)
  also have "\<dots> = mem ! (4 * (j div 4) + j mod 4)"
  proof -
    have "j mod 4 = 0 \<or> j mod 4 = 1 \<or> j mod 4 = 2 \<or> j mod 4 = 3" by linarith
    then show ?thesis by (elim disjE) (simp_all add: bytes_le_def ld32_bytes)
  qed
  finally show "words_mem (mem_words mem) ! j = mem ! j" by simp
qed (use assms in simp)

lemma bswap_ld32: "bswap (ld32 mem i) = be_word mem i"
  by (simp add: bswap_def bytes_le_def be_word_def ld32_bytes)

lemma be_word_bytes:
  "ucast (be_word bs i) = bs ! (4 * i + 3)"
  "ucast (drop_bit 8 (be_word bs i)) = bs ! (4 * i + 2)"
  "ucast (drop_bit 16 (be_word bs i)) = bs ! (4 * i + 1)"
  "ucast (drop_bit 24 (be_word bs i)) = bs ! (4 * i)"
  by (rule bit_word_eqI; auto simp: be_word_def bit_simps dest: u8_bitD)+

lemma bytes_le_bswap: "bytes_le (bswap w) = bytes_be w"
  by (simp add: bytes_le_def bytes_be_def bswap_def be_word_bytes)

text \<open>The ways in which the code swaps the bytes of a word.\<close>

lemma bit_bswap:
  "bit (bswap w) n \<longleftrightarrow>
     (if n < 8 then bit w (n + 24) else if n < 16 then bit w (n + 8)
      else if n < 24 then bit w (n - 8) else if n < 32 then bit w (n - 24) else False)"
proof -
  have b: "bit (ucast (v :: u8) :: u32) k \<longleftrightarrow> k < 8 \<and> bit v k" for v k
    by (auto simp: bit_simps dest: u8_bitD)
  have c: "bit (ucast (w :: u32) :: u8) k \<longleftrightarrow> k < 8 \<and> bit w k" for w k
    by (auto simp: bit_simps)
  consider "n < 8" | "8 \<le> n" "n < 16" | "16 \<le> n" "n < 24" | "24 \<le> n" "n < 32" | "32 \<le> n"
    by linarith
  then show ?thesis
    by cases (auto simp: bswap_def be_word_def bytes_le_def bit_simps b c add.commute)
qed

lemma mask_bits:
  "bit (0xff00ff00 :: u32) n \<longleftrightarrow> (8 \<le> n \<and> n < 16) \<or> (24 \<le> n \<and> n < 32)"
  "bit (0x00ff00ff :: u32) n \<longleftrightarrow> n < 8 \<or> (16 \<le> n \<and> n < 24)"
  "bit (0xff000000 :: u32) n \<longleftrightarrow> 24 \<le> n \<and> n < 32"
  "bit (0x00ff0000 :: u32) n \<longleftrightarrow> 16 \<le> n \<and> n < 24"
  "bit (0x0000ff00 :: u32) n \<longleftrightarrow> 8 \<le> n \<and> n < 16"
  "bit (0x000000ff :: u32) n \<longleftrightarrow> n < 8"
proof -
  have e: "(\<forall>n < 32. bit (0xff00ff00 :: u32) n \<longleftrightarrow> (8 \<le> n \<and> n < 16) \<or> (24 \<le> n \<and> n < 32)) \<and>
    (\<forall>n < 32. bit (0x00ff00ff :: u32) n \<longleftrightarrow> n < 8 \<or> (16 \<le> n \<and> n < 24)) \<and>
    (\<forall>n < 32. bit (0xff000000 :: u32) n \<longleftrightarrow> 24 \<le> n \<and> n < 32) \<and>
    (\<forall>n < 32. bit (0x00ff0000 :: u32) n \<longleftrightarrow> 16 \<le> n \<and> n < 24) \<and>
    (\<forall>n < 32. bit (0x0000ff00 :: u32) n \<longleftrightarrow> 8 \<le> n \<and> n < 16) \<and>
    (\<forall>n < 32. bit (0x000000ff :: u32) n \<longleftrightarrow> n < 8)"
    by (simp add: All_less_Suc numeral_eq_Suc del: of_nat_Suc)
  have f: "\<not> bit (w :: u32) n" if "\<not> n < 32" for w
    using bit_imp_le_length [of w n] that by auto
  show "bit (0xff00ff00 :: u32) n \<longleftrightarrow> (8 \<le> n \<and> n < 16) \<or> (24 \<le> n \<and> n < 32)"
    "bit (0x00ff00ff :: u32) n \<longleftrightarrow> n < 8 \<or> (16 \<le> n \<and> n < 24)"
    "bit (0xff000000 :: u32) n \<longleftrightarrow> 24 \<le> n \<and> n < 32"
    "bit (0x00ff0000 :: u32) n \<longleftrightarrow> 16 \<le> n \<and> n < 24"
    "bit (0x0000ff00 :: u32) n \<longleftrightarrow> 8 \<le> n \<and> n < 16"
    "bit (0x000000ff :: u32) n \<longleftrightarrow> n < 8"
    using e f by (cases "n < 32"; auto)+
qed

lemma bswap_forms:
  "(rol32 24 x AND 0xff00ff00) OR (rol32 8 x AND 0x00ff00ff) = bswap x"
  "(push_bit 24 x AND 0xff000000) OR (push_bit 8 x AND 0x00ff0000) OR (drop_bit 8 x AND 0x0000ff00)
     OR (drop_bit 24 x AND 0x000000ff) = bswap x"
proof -
  have "bit ((rol32 24 x AND 0xff00ff00) OR (rol32 8 x AND 0x00ff00ff)) n = bit (bswap x) n \<and>
    bit ((push_bit 24 x AND 0xff000000) OR (push_bit 8 x AND 0x00ff0000) OR
      (drop_bit 8 x AND 0x0000ff00) OR (drop_bit 24 x AND 0x000000ff)) n = bit (bswap x) n" for n
  proof -
    consider "n < 8" | "8 \<le> n" "n < 16" | "16 \<le> n" "n < 24" | "24 \<le> n" "n < 32" | "32 \<le> n"
      by linarith
    then show ?thesis
      by cases (auto simp: bit_bswap rol32_def bit_simps mask_bits add.commute
        simp del: bit_numeral_word_iff dest: u32_bitD)
  qed
  then show "(rol32 24 x AND 0xff00ff00) OR (rol32 8 x AND 0x00ff00ff) = bswap x"
    "(push_bit 24 x AND 0xff000000) OR (push_bit 8 x AND 0x00ff0000) OR (drop_bit 8 x AND 0x0000ff00)
     OR (drop_bit 24 x AND 0x000000ff) = bswap x"
    by (auto intro: bit_word_eqI)
qed

text \<open>The five words of a hash value in an array.\<close>

definition hash_of :: "u32 list \<Rightarrow> hash5" where
  "hash_of s = (s ! 0, s ! 1, s ! 2, s ! 3, s ! 4)"

definition list_of :: "hash5 \<Rightarrow> u32 list" where
  "list_of h = (case h of (a, b, c, d, e) \<Rightarrow> [a, b, c, d, e])"

lemma hash_of_list_of [simp]: "hash_of (list_of h) = h" "length (list_of h) = 5"
  by (simp_all add: hash_of_def list_of_def split: prod.splits)

lemma digest_bytes_list_of: "digest_bytes h = concat (map bytes_be (list_of h))"
  by (simp add: digest_bytes_def list_of_def split: prod.splits)

lemma list_of_hash_of: "length s = 5 \<Longrightarrow> list_of (hash_of s) = s"
  by (auto simp: list_of_def hash_of_def numeral_eq_Suc length_Suc_conv)

section \<open>Buffers\<close>

text \<open>The first bytes of a memory area are the given ones.\<close>

definition starts :: "u8 list \<Rightarrow> u8 list \<Rightarrow> bool" where
  "starts mem buf \<longleftrightarrow> length mem = 64 \<and> length buf < 64 \<and> take (length buf) mem = buf"

lemma starts_memcpy:
  assumes "starts mem buf" "length buf + length bs < 64"
  shows "starts (memcpy mem (length buf) bs) (buf @ bs)"
  using assms by (auto simp: starts_def memcpy_def)

lemma starts_fill:
  assumes "starts mem buf" "length buf + length bs = 64"
  shows "memcpy mem (length buf) bs = buf @ bs"
  using assms by (auto simp: starts_def memcpy_def)

lemma starts_Nil: "length mem = 64 \<Longrightarrow> starts mem []"
  by (simp add: starts_def)

text \<open>Storing a word, and reading the words of a block that is stored big endian.\<close>

definition st32 :: "u8 list \<Rightarrow> nat \<Rightarrow> u32 \<Rightarrow> u8 list" where
  "st32 mem i w = memcpy mem (4 * i) (bytes_le w)"

lemma swapped_words: "map bswap (mem_words mem) = block_words mem"
  by (simp add: mem_words_def block_words_def bswap_ld32)

text \<open>
  Absorbing a piece in one go: up to the end of the block, and the rest.
\<close>

lemma absorb_block:
  assumes "length buf < 64" "64 \<le> length buf + length bs"
  shows "absorb (h, buf) bs =
    absorb (sha_compress h (block_words (buf @ take (64 - length buf) bs)), [])
      (drop (64 - length buf) bs)"
proof -
  let ?n = "64 - length buf"
  have "absorb (h, buf) bs = absorb (absorb (h, buf) (take ?n bs)) (drop ?n bs)"
    by (metis append_take_drop_id foldl_append)
  moreover have "absorb (h, buf) (take ?n bs) = (sha_compress h (block_words (buf @ take ?n bs)), [])"
    using assms by (intro absorb_fill) auto
  ultimately show ?thesis by simp
qed

text \<open>The zeros of the padding.\<close>

lemma zeros_mod: "n < 64 \<Longrightarrow> (120 - n) mod 64 = (if n \<le> 56 then 56 - n else 120 - (n :: nat))"
  by (auto simp: mod_if)

lemma zeros_step:
  assumes "n < 64" "Suc z = (120 - n) mod 64"
  shows "z = (120 - (n + 1) mod 64) mod (64 :: nat)"
proof (cases "n = 63")
  case True
  with assms show ?thesis by simp
next
  case False
  with assms(1) have "n + 1 < 64" by simp
  then show ?thesis using assms zeros_mod [of n] zeros_mod [of "n + 1"]
    by (simp del: diff_diff_left add: mod_less split: if_splits)
qed

lemma zeros_mod_119: "n < 64 \<Longrightarrow> (119 - n) mod 64 = (if n < 56 then 55 - n else 119 - (n :: nat))"
  using zeros_mod [of "n + 1"] by (cases "n = 63") auto

text \<open>Padding takes an absorber to the length field.\<close>

definition pad_front :: "nat \<Rightarrow> u8 list" where
  "pad_front n = 0x80 # replicate ((119 - n mod 64) mod 64) 0"

lemma sha_padding_front: "sha_padding n = pad_front n @ be64 (word_of_nat (8 * n))"
  by (simp add: sha_padding_def pad_front_def)

lemma length_pad_front:
  "length (pad_front n) = (if n mod 64 < 56 then 56 - n mod 64 else 120 - n mod 64)"
proof -
  define k where "k = n mod 64"
  have "k < 64" by (simp add: k_def)
  then have "Suc ((119 - k) mod 64) = (if k < 56 then 56 - k else 120 - k)"
    unfolding zeros_mod_119 [OF \<open>k < 64\<close>] by (auto; arith)
  then show ?thesis by (simp add: pad_front_def k_def)
qed

lemma length_be64 [simp]: "length (be64 w) = 8"
  by (simp add: be64_def)

lemma SHA1_from_front:
  assumes "absorb (absorb (H0, []) m) (pad_front (length m)) = (h, buf)"
  shows "length buf = 56"
    "SHA1 m = digest_bytes (sha_compress h (block_words (buf @ be64 (word_of_nat (8 * length m)))))"
proof -
  let ?k = "length m mod 64"
  have "length buf = (?k + length (pad_front (length m))) mod 64"
    using absorb_length [of "absorb (H0, []) m" "pad_front (length m)"]
      absorb_length [of "(H0, [])" m] absorb_bound [of "(H0, [])" m] assms by simp
  moreover have "k < 64 \<Longrightarrow> (k + (if k < 56 then 56 - k else 120 - k)) mod 64 = 56" for k :: nat
    by simp
  ultimately show l: "length buf = 56" unfolding length_pad_front by simp
  have "absorb (h, buf) (be64 w) = (sha_compress h (block_words (buf @ be64 w)), [])" for w
    by (rule absorb_fill) (simp_all add: l be64_def)
  then show "SHA1 m = digest_bytes (sha_compress h (block_words (buf @ be64 (word_of_nat (8 * length m)))))"
    unfolding SHA1_absorb sha_padding_front foldl_append assms by simp
qed

section \<open>Rotating registers\<close>

text \<open>
  The unrolled block functions keep the five working variables in registers whose roles
  rotate from round to round: in round \<open>t\<close> register \<open>(k + 4 * t) mod 5\<close> plays the role of
  working variable \<open>k\<close>.
\<close>

definition roles :: "nat \<Rightarrow> u32 list \<Rightarrow> hash5" where
  "roles t r = (r ! ((4 * t) mod 5), r ! ((1 + 4 * t) mod 5), r ! ((2 + 4 * t) mod 5),
     r ! ((3 + 4 * t) mod 5), r ! ((4 + 4 * t) mod 5))"

lemma role_index:
  "((k :: nat) + 4 * (5 * q + s)) mod 5 = (k + 4 * s) mod 5"
  "(4 * (5 * q + s)) mod 5 = (4 * s) mod (5 :: nat)"
  "(k + 4 * Suc (5 * q + s)) mod 5 = (k + 4 + 4 * s) mod 5"
  "(4 * Suc (5 * q + s)) mod 5 = (4 + 4 * s) mod (5 :: nat)"
proof -
  have m: "((k :: nat) + 4 * (5 * q + s)) mod 5 = (k + 4 * s) mod 5" for k
  proof -
    have "k + 4 * (5 * q + s) = (k + 4 * s) + 5 * (4 * q)" by simp
    then show ?thesis by (simp only: mod_mult_self2)
  qed
  show "((k :: nat) + 4 * (5 * q + s)) mod 5 = (k + 4 * s) mod 5" by (rule m)
  show "(4 * (5 * q + s)) mod 5 = (4 * s) mod (5 :: nat)" using m [of 0] by simp
  show "(k + 4 * Suc (5 * q + s)) mod 5 = (k + 4 + 4 * s) mod 5"
    using m [of "k + 4"] by (simp add: add.assoc)
  show "(4 * Suc (5 * q + s)) mod 5 = (4 + 4 * s) mod (5 :: nat)"
    using m [of 4] by simp
qed

lemma roles_step:
  assumes "length r = 5" "roles t r = (a, b, c, d, e)"
  shows "roles (Suc t) (r[(4 + 4 * t) mod 5 := x, (1 + 4 * t) mod 5 := y]) = (x, a, y, c, d) \<and>
    roles (Suc t) (r[(1 + 4 * t) mod 5 := y, (4 + 4 * t) mod 5 := x]) = (x, a, y, c, d)"
proof -
  obtain q s where t: "t = 5 * q + s" "s < 5"
    by (metis mod_less_divisor mult_div_mod_eq zero_less_numeral)
  obtain r0 r1 r2 r3 r4 where r: "r = [r0, r1, r2, r3, r4]"
    using assms(1) by (auto simp: numeral_eq_Suc length_Suc_conv)
  note f = assms(2) [unfolded t(1) roles_def role_index r]
  have "s = 0 \<or> s = 1 \<or> s = 2 \<or> s = 3 \<or> s = 4" using t(2) by linarith
  then show ?thesis unfolding t(1) roles_def role_index r using f by (elim disjE; simp)
qed

lemma roles_0: "roles 0 r = hash_of r" "roles 80 r = hash_of r"
  by (simp_all add: roles_def hash_of_def)

lemma call_registers:
  assumes "length r = 5" "roles t r = (a, b, c, d, e)"
  shows "r ! ((4 * t) mod 5) = a" "r ! ((1 + 4 * t) mod 5) = b" "r ! ((2 + 4 * t) mod 5) = c"
    "r ! ((3 + 4 * t) mod 5) = d" "r ! ((4 + 4 * t) mod 5) = e"
    "(1 + 4 * t) mod 5 \<noteq> (4 + 4 * t) mod 5"
proof -
  show "r ! ((4 * t) mod 5) = a" "r ! ((1 + 4 * t) mod 5) = b" "r ! ((2 + 4 * t) mod 5) = c"
    "r ! ((3 + 4 * t) mod 5) = d" "r ! ((4 + 4 * t) mod 5) = e"
    using assms(2) by (simp_all only: roles_def prod.inject)
  show "(1 + 4 * t) mod 5 \<noteq> (4 + 4 * t) mod 5" by presburger
qed

lemma map2_add5:
  assumes "length s = 5" "length r = 5"
  shows "hash_of (map2 (+) s r) = add5 (hash_of s) (hash_of r)" "length (map2 (+) s r) = 5"
  using assms by (simp_all add: hash_of_def add5_def)

section \<open>The length of a message in two words\<close>

lemma unat_u32: "unat (word_of_nat k :: u32) = k mod 2 ^ 32"
  by (simp add: unsigned_of_nat take_bit_eq_mod)

text \<open>Adding two numbers word by word: when the low word wraps, and what it carries.\<close>

lemma carry_word:
  fixes a l :: nat
  defines "C \<equiv> 2 ^ 32 \<le> a mod 2 ^ 32 + l mod 2 ^ 32"
  shows "(word_of_nat (a + l) :: u32) < word_of_nat l \<longleftrightarrow> C"
    "(a + l) div 2 ^ 32 = a div 2 ^ 32 + l div 2 ^ 32 + (if C then 1 else 0)"
proof -
  let ?M = "2 ^ 32 :: nat"
  define A where "A = a mod ?M"
  define L where "L = l mod ?M"
  have b: "A < ?M" "L < ?M" by (simp_all add: A_def L_def)
  have "unat (word_of_nat (a + l) :: u32) = (A + L) mod ?M"
    by (simp only: unat_u32 A_def L_def mod_add_eq)
  moreover have "(A + L) mod ?M < L \<longleftrightarrow> ?M \<le> A + L"
    using b by (auto simp: mod_if split: if_splits)
  ultimately show "(word_of_nat (a + l) :: u32) < word_of_nat l \<longleftrightarrow> C"
    by (simp only: word_less_nat_alt unat_u32 [of l] L_def [symmetric] A_def [symmetric] C_def)
  have "(A + L) div ?M = (if ?M \<le> A + L then 1 else 0)"
    using b by (auto simp: div_nat_eqI)
  then show "(a + l) div ?M = a div ?M + l div ?M + (if C then 1 else 0)"
    by (simp only: div_add1_eq [of a l] A_def L_def C_def)
qed

text \<open>The length in bits of a message of \<open>n\<close> bytes, as a low and a high word.\<close>

definition count_of :: "nat \<Rightarrow> u32 \<times> u32" where
  "count_of n = (word_of_nat (8 * n), word_of_nat (8 * n div 2 ^ 32))"

lemma count_be64:
  assumes "n < 2 ^ 61"
  shows "bytes_be (snd (count_of n)) @ bytes_be (fst (count_of n)) = be64 (word_of_nat (8 * n))"
proof -
  let ?W = "word_of_nat (8 * n) :: 64 word"
  have W: "unat ?W = 8 * n" using assms by (simp add: unsigned_of_nat take_bit_nat_eq_self del: of_nat_mult)
  have lo: "fst (count_of n) = ucast ?W"
    by (simp add: count_of_def word_unat_eq_iff unsigned_ucast_eq unat_u32 W take_bit_eq_mod
      del: of_nat_mult)
  have hi: "snd (count_of n) = ucast (drop_bit 32 ?W)"
    using assms by (simp add: count_of_def word_unat_eq_iff unsigned_ucast_eq unat_u32 W
      drop_bit_eq_div unat_div take_bit_eq_mod del: of_nat_mult)
  have u: "(ucast (drop_bit k (ucast v :: u32)) :: u8) = ucast (drop_bit k v)" if "k \<le> 24"
    for v :: "64 word" and k
    using that by (intro bit_word_eqI) (auto simp: bit_simps)
  have h: "(ucast (drop_bit k (drop_bit 32 v)) :: u8) = ucast (drop_bit (k + 32) v)" for v :: "64 word" and k
    by (simp add: drop_bit_drop_bit)
  have l: "(ucast (ucast v :: u32) :: u8) = ucast v" for v :: "64 word"
    by (intro bit_word_eqI) (auto simp: bit_simps)
  show ?thesis unfolding bytes_be_def lo hi be64_def list.map
    by (simp add: u h l del: of_nat_mult)
qed

text \<open>Counting one byte.\<close>

lemma count_step:
  "fst (count_of (n + 1)) = fst (count_of n) + 8"
  "n + 1 < 2 ^ 61 \<Longrightarrow> snd (count_of (n + 1)) =
     (if fst (count_of (n + 1)) = 0 then snd (count_of n) + 1 else snd (count_of n))"
  "n + 1 < 2 ^ 61 \<Longrightarrow> fst (count_of (n + 1)) = 0 \<Longrightarrow> snd (count_of n) + 1 \<noteq> 0"
proof -
  let ?D = "2 ^ 29 :: nat"
  have hi: "snd (count_of k) = word_of_nat (k div ?D)" for k by (simp add: count_of_def)
  show "fst (count_of (n + 1)) = fst (count_of n) + 8" by (simp add: count_of_def)
  have "8 * (n + 1) mod 2 ^ 32 = 8 * ((n + 1) mod ?D)" using mult_mod_right [of 8 "n + 1" ?D] by simp
  then have z: "fst (count_of (n + 1)) = 0 \<longleftrightarrow> (n + 1) mod ?D = 0"
    unfolding count_of_def fst_conv word_unat_eq_iff unat_u32 by simp
  have d: "(n + 1) div ?D = (if (n + 1) mod ?D = 0 then Suc (n div ?D) else n div ?D)"
    by (simp add: div_Suc)
  show "snd (count_of (n + 1)) =
     (if fst (count_of (n + 1)) = 0 then snd (count_of n) + 1 else snd (count_of n))"
    unfolding z hi d by simp
  assume "n + 1 < 2 ^ 61" "fst (count_of (n + 1)) = 0"
  then have "Suc (n div ?D) < 2 ^ 32" using z d by simp
  then have "unat (word_of_nat (Suc (n div ?D)) :: u32) \<noteq> 0" by (simp add: unat_u32 del: of_nat_Suc)
  then show "snd (count_of n) + 1 \<noteq> 0" unfolding hi by (auto simp: word_unat_eq_iff add.commute)
qed

end
