(* ===== verification/Sha1_Google.thy ===== *)
theory Sha1_Google
  imports Sha1_Rounds
begin

text \<open>
  \<^verbatim>\<open>google_sha1.c\<close>: a context that absorbs byte by byte into a buffer of 16 words. The
  buffer is modelled as the 64 bytes of its memory; byte \<open>k\<close> of the message block is kept
  at address \<open>k XOR 3\<close>, which makes the words big endian on a little-endian board. The
  digest is the context's state itself after its words have been swapped.
\<close>

unbundle bit_operations_syntax

section \<open>The context\<close>

definition HASH_LENGTH :: nat where "HASH_LENGTH = 20"
definition BLOCK_LENGTH :: nat where "BLOCK_LENGTH = 64"

record sha1nfo =
  g_buffer :: "u8 list"
  g_state :: "u32 list"
  byteCount :: u32
  bufferOffset :: u8
  keyBuffer :: "u8 list"
  innerHash :: "u8 list"

definition sha1_init :: "sha1nfo \<Rightarrow> sha1nfo" where
  "sha1_init s = s\<lparr>g_state := [0x67452301, 0xefcdab89, 0x98badcfe, 0x10325476, 0xc3d2e1f0],
     byteCount := 0, bufferOffset := 0\<rparr>"

definition sha1_rol32 :: "u32 \<Rightarrow> nat \<Rightarrow> u32" where
  "sha1_rol32 number bits = push_bit bits number OR drop_bit (32 - bits) number"

section \<open>The block function\<close>

definition hashBlock_step :: "u32 list \<times> hash5 \<Rightarrow> nat \<Rightarrow> u32 list \<times> hash5" where
  "hashBlock_step x i = (case x of (buf, a, b, c, d, e) \<Rightarrow>
     let buf' = (if i \<ge> 16 then
           let t = buf ! ((i + 13) AND 15) XOR buf ! ((i + 8) AND 15) XOR buf ! ((i + 2) AND 15)
                   XOR buf ! (i AND 15)
           in buf[i AND 15 := sha1_rol32 t 1]
         else buf);
         t = (if i < 20 then (d XOR (b AND (c XOR d))) + 0x5a827999
              else if i < 40 then (b XOR c XOR d) + 0x6ed9eba1
              else if i < 60 then ((b AND c) OR (d AND (b OR c))) + 0x8f1bbcdc
              else (b XOR c XOR d) + 0xca62c1d6);
         t' = t + (sha1_rol32 a 5 + e + buf' ! (i AND 15))
     in (buf', t', a, sha1_rol32 b 30, c, d))"

definition sha1_hashBlock :: "sha1nfo \<Rightarrow> sha1nfo" where
  "sha1_hashBlock s =
     (case foldl hashBlock_step (mem_words (g_buffer s), hash_of (g_state s)) [0..<80] of
        (buf, v) \<Rightarrow> s\<lparr>g_buffer := words_mem buf,
                      g_state := list_of (add5 (hash_of (g_state s)) v)\<rparr>)"

section \<open>Absorbing\<close>

definition sha1_addUncounted :: "sha1nfo \<Rightarrow> u8 \<Rightarrow> sha1nfo" where
  "sha1_addUncounted s b =
     (let s1 = s\<lparr>g_buffer := (g_buffer s)[unat (bufferOffset s) XOR 3 := b],
                 bufferOffset := bufferOffset s + 1\<rparr>
      in if unat (bufferOffset s1) = BLOCK_LENGTH then (sha1_hashBlock s1)\<lparr>bufferOffset := 0\<rparr>
         else s1)"

definition sha1_writebyte :: "sha1nfo \<Rightarrow> u8 \<Rightarrow> sha1nfo" where
  "sha1_writebyte s b = sha1_addUncounted (s\<lparr>byteCount := byteCount s + 1\<rparr>) b"

definition sha1_write :: "sha1nfo \<Rightarrow> u8 list \<Rightarrow> sha1nfo" where
  "sha1_write s bs = foldl sha1_writebyte s bs"

section \<open>Padding and the result\<close>

text \<open>
  The loop that adds zeros up to offset 56; the fuel of 64 steps is proved to be enough for
  every offset inside the buffer.
\<close>

fun pad_zeros :: "nat \<Rightarrow> sha1nfo \<Rightarrow> fault + sha1nfo" where
  "pad_zeros f s =
     (if bufferOffset s = 56 then Inr s
      else case f of 0 \<Rightarrow> Inl OutOfFuel | Suc f' \<Rightarrow> pad_zeros f' (sha1_addUncounted s 0))"

declare pad_zeros.simps [simp del]

definition sha1_pad :: "sha1nfo \<Rightarrow> fault + sha1nfo" where
  "sha1_pad s =
     and_then (pad_zeros 64 (sha1_addUncounted s 0x80)) (\<lambda>s.
       let s = sha1_addUncounted s 0;
           s = sha1_addUncounted s 0;
           s = sha1_addUncounted s 0;
           s = sha1_addUncounted s (ucast (drop_bit 29 (byteCount s)));
           s = sha1_addUncounted s (ucast (drop_bit 21 (byteCount s)));
           s = sha1_addUncounted s (ucast (drop_bit 13 (byteCount s)));
           s = sha1_addUncounted s (ucast (drop_bit 5 (byteCount s)));
           s = sha1_addUncounted s (ucast (push_bit 3 (byteCount s)))
       in Inr s)"

text \<open>The result is the context with the pointer to its state: the bytes of the state.\<close>

definition sha1_result :: "sha1nfo \<Rightarrow> fault + sha1nfo \<times> u8 list" where
  "sha1_result s =
     and_then (sha1_pad s) (\<lambda>s.
       let st = map (\<lambda>x. (push_bit 24 x AND 0xff000000) OR (push_bit 8 x AND 0x00ff0000)
                       OR (drop_bit 8 x AND 0x0000ff00) OR (drop_bit 24 x AND 0x000000ff))
                 (g_state s)
       in Inr (s\<lparr>g_state := st\<rparr>, words_mem st))"

section \<open>HMAC\<close>

definition HMAC_IPAD :: u8 where "HMAC_IPAD = 0x36"
definition HMAC_OPAD :: u8 where "HMAC_OPAD = 0x5c"

definition sha1_initHmac :: "sha1nfo \<Rightarrow> u8 list \<Rightarrow> fault + sha1nfo" where
  "sha1_initHmac s key =
     and_then
       (let s = s\<lparr>keyBuffer := replicate BLOCK_LENGTH 0\<rparr> in
        if length key > BLOCK_LENGTH then
          and_then (sha1_result (foldl sha1_writebyte (sha1_init s) key)) (\<lambda>(s, d).
            Inr (s\<lparr>keyBuffer := memcpy (keyBuffer s) 0 d\<rparr>))
        else Inr (s\<lparr>keyBuffer := memcpy (keyBuffer s) 0 key\<rparr>))
       (\<lambda>s. Inr (foldl (\<lambda>s i. sha1_writebyte s (keyBuffer s ! i XOR HMAC_IPAD))
                   (sha1_init s) [0..<BLOCK_LENGTH]))"

definition sha1_resultHmac :: "sha1nfo \<Rightarrow> fault + sha1nfo \<times> u8 list" where
  "sha1_resultHmac s =
     and_then (sha1_result s) (\<lambda>(s, d).
       let s = sha1_init (s\<lparr>innerHash := d\<rparr>);
           s = foldl (\<lambda>s i. sha1_writebyte s (keyBuffer s ! i XOR HMAC_OPAD)) s [0..<BLOCK_LENGTH];
           s = foldl (\<lambda>s i. sha1_writebyte s (innerHash s ! i)) s [0..<HASH_LENGTH]
       in sha1_result s)"

section \<open>Correctness\<close>

lemma hashBlock_step_eq: "hashBlock_step = circ_round"
proof (rule ext, rule ext)
  fix x i
  obtain w :: "u32 list" and a b c d e :: u32 where x: "x = (w, a, b, c, d, e)" by (metis prod_cases6)
  have r: "sha1_rol32 y n = rol32 n y" for y n by (simp add: sha1_rol32_def rol32_def)
  have m: "(d XOR (b AND (c XOR d))) = Ch b c d" "((b AND c) OR (d AND (b OR c))) = Maj b c d"
    by (simp_all add: bit_tricks)
  show "hashBlock_step x i = circ_round x i"
    unfolding x circ_round_eq hashBlock_step_def nat_and_15 r split m
    by (simp add: circ_update_def Let_def sha_round_def ft_def Kt_def Parity_def ac_simps)
qed

text \<open>The message bytes of the block, in the order they came.\<close>

definition view :: "u8 list \<Rightarrow> u8 list" where
  "view mem = map (\<lambda>k. mem ! (k XOR 3)) [0..<64]"

lemma length_view [simp]: "length (view mem) = 64"
  by (simp add: view_def)

lemma xor_3_nat: "(n :: nat) XOR 3 = of_bool (even n) + 2 * (if even (n div 2) then n div 2 + 1 else n div 2 - 1)"
  by (simp add: xor_rec [of n 3] xor_one_eq xor_Suc_0_eq)

lemma xor_3_word:
  "(4 * i) XOR 3 = 4 * i + 3 \<and> (4 * i + 1) XOR 3 = 4 * i + 2 \<and>
    (4 * i + 2) XOR 3 = 4 * i + 1 \<and> (4 * i + 3) XOR 3 = 4 * (i :: nat)"
  unfolding xor_3_nat by simp presburger

lemma xor_3_bound:
  assumes "(k :: nat) < 64"
  shows "k XOR 3 < 64"
proof (cases "even (k div 2)")
  case True
  then have "k div 2 \<noteq> 31" by auto
  with assms have "k \<le> 61" by linarith
  with True show ?thesis unfolding xor_3_nat by (auto; presburger)
next
  case False
  moreover have "k div 2 < 32" using assms by simp
  ultimately show ?thesis unfolding xor_3_nat by (auto; arith)
qed

lemma view_words: "mem_words mem = block_words (view mem)"
proof -
  have "ld32 mem i = be_word (view mem) i" if "i < 16" for i
    using xor_3_word [of i] that
    by (simp add: ld32_def be_word_def view_def ac_simps)
  then show ?thesis by (simp add: mem_words_def block_words_def)
qed

lemma xor_inj: "(k :: nat) XOR c = j XOR c \<longleftrightarrow> k = j"
  by (metis xor.assoc xor_self_eq xor.right_neutral)

lemma view_update:
  assumes "length mem = 64" "off < 64"
  shows "view (mem[off XOR 3 := b]) = (view mem)[off := b]"
  using assms xor_3_bound
  by (intro nth_equalityI) (auto simp: view_def nth_list_update xor_inj)

text \<open>What a context holds, as an absorber.\<close>

definition g_rep :: "sha1nfo \<Rightarrow> absorber \<Rightarrow> bool" where
  "g_rep s x \<longleftrightarrow> length (g_state s) = 5 \<and> length (g_buffer s) = 64 \<and>
     hash_of (g_state s) = fst x \<and> starts (view (g_buffer s)) (snd x) \<and>
     unat (bufferOffset s) = length (snd x)"

lemma hashBlock_compress:
  assumes "length (g_state s) = 5" "length (g_buffer s) = 64"
  shows "hash_of (g_state (sha1_hashBlock s)) =
      sha_compress (hash_of (g_state s)) (block_words (view (g_buffer s)))"
    "length (g_state (sha1_hashBlock s)) = 5" "length (g_buffer (sha1_hashBlock s)) = 64"
    "byteCount (sha1_hashBlock s) = byteCount s"
    "keyBuffer (sha1_hashBlock s) = keyBuffer s" "innerHash (sha1_hashBlock s) = innerHash s"
  using circ_compress [of "mem_words (g_buffer s)" "hash_of (g_state s)"]
    circ_length [of "mem_words (g_buffer s)" 80 "hash_of (g_state s)"]
  by (simp_all add: sha1_hashBlock_def hashBlock_step_eq view_words split_beta)

lemma addUncounted_feed:
  assumes "g_rep s x"
  shows "g_rep (sha1_addUncounted s b) (feed x b)"
proof -
  obtain h buf where x: "x = (h, buf)" by (cases x)
  let ?o = "bufferOffset s"
  let ?s1 = "s\<lparr>g_buffer := (g_buffer s)[unat ?o XOR 3 := b], bufferOffset := ?o + 1\<rparr>"
  from assms x have r: "length (g_state s) = 5" "length (g_buffer s) = 64"
    "hash_of (g_state s) = h" "starts (view (g_buffer s)) buf" "unat ?o = length buf"
    by (auto simp: g_rep_def)
  then have o: "unat ?o < 64" by (simp add: starts_def)
  then have o1: "unat (?o + 1) = unat ?o + 1" by (simp add: unat_word_ariths)
  have v: "view (g_buffer ?s1) = memcpy (view (g_buffer s)) (length buf) [b]"
    using r o by (simp add: view_update memcpy_def upd_conv_take_nth_drop)
  show ?thesis
  proof (cases "length buf = 63")
    case True
    have "view (g_buffer ?s1) = buf @ [b]"
      unfolding v using r(4) True by (intro starts_fill) simp_all
    with r o1 True hashBlock_compress [of ?s1] show ?thesis
      by (simp add: sha1_addUncounted_def x feed_def g_rep_def BLOCK_LENGTH_def Let_def starts_Nil)
  next
    case False
    with r o have "starts (view (g_buffer ?s1)) (buf @ [b])"
      unfolding v by (intro starts_memcpy) simp_all
    with r o1 False o show ?thesis
      by (simp add: sha1_addUncounted_def x feed_def g_rep_def BLOCK_LENGTH_def)
  qed
qed

lemma addUncounted_count [simp]: "byteCount (sha1_addUncounted s b) = byteCount s"
  "keyBuffer (sha1_addUncounted s b) = keyBuffer s"
  "innerHash (sha1_addUncounted s b) = innerHash s"
  by (simp_all add: sha1_addUncounted_def sha1_hashBlock_def Let_def split_beta)

lemma addUncounted_absorb:
  "g_rep s x \<Longrightarrow> g_rep (foldl sha1_addUncounted s bs) (absorb x bs)"
  by (rule foldl_simulation [where R = g_rep]) (rule addUncounted_feed)

lemma addUncounted_list_count [simp]:
  "byteCount (foldl sha1_addUncounted s bs) = byteCount s"
  "keyBuffer (foldl sha1_addUncounted s bs) = keyBuffer s"
  "innerHash (foldl sha1_addUncounted s bs) = innerHash s"
  by (induction bs arbitrary: s) simp_all

lemma g_rep_count [simp]: "g_rep (s\<lparr>byteCount := c\<rparr>) x = g_rep s x"
  by (simp add: g_rep_def)

lemma writebyte_rep:
  "g_rep s x \<Longrightarrow> g_rep (sha1_writebyte s b) (feed x b)"
  "byteCount (sha1_writebyte s b) = byteCount s + 1"
  "keyBuffer (sha1_writebyte s b) = keyBuffer s"
  "innerHash (sha1_writebyte s b) = innerHash s"
  by (simp_all add: sha1_writebyte_def addUncounted_feed)

lemma write_rep: "g_rep s x \<Longrightarrow> g_rep (foldl sha1_writebyte s bs) (absorb x bs)"
  by (rule foldl_simulation [where R = g_rep]) (rule writebyte_rep)

lemma write_fields [simp]:
  "byteCount (foldl sha1_writebyte s bs) = byteCount s + word_of_nat (length bs)"
  "keyBuffer (foldl sha1_writebyte s bs) = keyBuffer s"
  "innerHash (foldl sha1_writebyte s bs) = innerHash s"
  by (induction bs arbitrary: s) (simp_all add: writebyte_rep)

text \<open>The zeros of the padding.\<close>

lemma pad_zeros_run:
  assumes "g_rep s x" "z = (120 - length (snd x)) mod 64" "z \<le> f"
  shows "pad_zeros f s = Inr (foldl sha1_addUncounted s (replicate z 0))"
  using assms
proof (induction z arbitrary: s x f)
  case 0
  then have "unat (bufferOffset s) = length (snd x)" "length (snd x) < 64"
    by (auto simp: g_rep_def starts_def)
  with 0 have "unat (bufferOffset s) = unat (56 :: u8)" by (auto simp: zeros_mod split: if_splits)
  then have "bufferOffset s = 56" by (simp only: word_unat_eq_iff)
  then show ?case by (simp add: pad_zeros.simps)
next
  case (Suc z)
  have u: "unat (bufferOffset s) = length (snd x)" "length (snd x) < 64"
    using Suc.prems by (auto simp: g_rep_def starts_def)
  with Suc.prems have ne: "bufferOffset s \<noteq> 56" by auto
  obtain f' where f: "f = Suc f'" using Suc.prems by (cases f) auto
  have "length (snd (feed x 0)) = (length (snd x) + 1) mod 64"
    using u absorb_length [of x "[0]"] by simp
  then have "z = (120 - length (snd (feed x 0))) mod 64"
    using zeros_step [OF u(2) Suc.prems(2)] by simp
  from Suc.IH [OF addUncounted_feed [OF Suc.prems(1)] this, of f'] Suc.prems(3) f ne
  show ?case by (simp add: pad_zeros.simps [of "Suc f'"])
qed

text \<open>The length field, for messages whose length in bytes fits the counter.\<close>

lemma length_bytes_32:
  assumes "n < 2 ^ 32"
  shows "be64 (word_of_nat (8 * n)) =
    (let c = word_of_nat n :: u32 in
     [0, 0, 0, ucast (drop_bit 29 c), ucast (drop_bit 21 c), ucast (drop_bit 13 c),
      ucast (drop_bit 5 c), ucast (push_bit 3 c)])"
proof -
  let ?c = "word_of_nat n :: u32"
  have "(word_of_nat n :: 64 word) = ucast ?c"
    using assms by (intro word_unat_eq_iff [THEN iffD2])
      (simp add: unsigned_ucast_eq unsigned_of_nat take_bit_nat_eq_self)
  then have e: "(word_of_nat (8 * n) :: 64 word) = push_bit 3 (ucast ?c)"
    by (simp add: push_bit_eq_mult)
  have z: "(ucast (drop_bit k (push_bit 3 (ucast ?c :: 64 word))) :: u8) = 0" if "k \<in> {56, 48, 40}" for k
    using that by (intro bit_word_eqI) (auto simp: bit_simps dest!: u32_bitD)
  have d: "(ucast (drop_bit k (push_bit 3 (ucast ?c :: 64 word))) :: u8) = ucast (drop_bit (k - 3) ?c)"
    if "k \<in> {32, 24, 16, 8}" for k
    using that by (intro bit_word_eqI) (auto simp: bit_simps dest: u32_bitD)
  have p: "(ucast (push_bit 3 (ucast ?c :: 64 word)) :: u8) = ucast (push_bit 3 ?c)"
    by (intro bit_word_eqI) (auto simp: bit_simps)
  show ?thesis unfolding e be64_def by (simp add: z d p Let_def)
qed

lemma sha1_pad_run:
  assumes "g_rep s x" "byteCount s = word_of_nat n" "length (snd x) = n mod 64" "n < 2 ^ 32"
  shows "sha1_pad s = Inr (foldl sha1_addUncounted s (sha_padding n))"
proof -
  let ?z = "(119 - n mod 64) mod 64" and ?x = "feed x 0x80" and ?s = "sha1_addUncounted s 0x80"
  have "length (snd ?x) = (n mod 64 + 1) mod 64"
    using assms(1,3) absorb_length [of x "[0x80]"] by (simp add: g_rep_def starts_def)
  moreover have "(119 - k) mod 64 = (120 - (k + 1) mod 64) mod (64 :: nat)" if "k < 64" for k
  proof (cases "k = 63")
    case False
    then have "(k + 1) mod 64 = k + 1" using that by simp
    then show ?thesis by simp
  qed simp
  ultimately have z: "?z = (120 - length (snd ?x)) mod 64" by simp
  have "pad_zeros 64 ?s = Inr (foldl sha1_addUncounted ?s (replicate ?z 0))"
    by (rule pad_zeros_run [OF addUncounted_feed [OF assms(1)] z]) simp
  then show ?thesis
    unfolding sha1_pad_def sha_padding_def length_bytes_32 [OF assms(4)]
    by (simp add: assms(2) Let_def)
qed

lemma bswap_state:
  assumes "length st = 5"
  shows "words_mem (map (\<lambda>x. (push_bit 24 x AND 0xff000000) OR (push_bit 8 x AND 0x00ff0000)
      OR (drop_bit 8 x AND 0x0000ff00) OR (drop_bit 24 x AND 0x000000ff)) st) =
    digest_bytes (hash_of st)"
  using assms
  by (simp add: words_mem_def bswap_forms bytes_le_bswap comp_def digest_bytes_list_of list_of_hash_of)

text \<open>A context holds a message, when it has absorbed it from its initial state.\<close>

definition g_holds :: "sha1nfo \<Rightarrow> u8 list \<Rightarrow> bool" where
  "g_holds s m \<longleftrightarrow> g_rep s (absorb (H0, []) m) \<and> byteCount s = word_of_nat (length m)"

lemma g_holds_init: "length (g_buffer s) = 64 \<Longrightarrow> g_holds (sha1_init s) []"
  by (simp add: g_holds_def sha1_init_def g_rep_def hash_of_def H0_def starts_Nil)

lemma g_holds_write: "g_holds s m \<Longrightarrow> g_holds (foldl sha1_writebyte s bs) (m @ bs)"
  by (simp add: g_holds_def write_rep)

lemma sha1_result_SHA1:
  assumes "g_holds s m" "length m < 2 ^ 32"
  shows "\<exists>s'. sha1_result s = Inr (s', SHA1 m) \<and> length (g_buffer s') = 64 \<and>
    keyBuffer s' = keyBuffer s \<and> innerHash s' = innerHash s"
proof -
  let ?x = "absorb (H0, []) m" and ?p = "sha_padding (length m)"
  let ?s = "foldl sha1_addUncounted s ?p"
  from assms(1) have r: "g_rep s ?x" "byteCount s = word_of_nat (length m)"
    by (auto simp: g_holds_def)
  have "length (snd ?x) = length m mod 64" using absorb_length [of "(H0, [])" m] by simp
  from sha1_pad_run [OF r this assms(2)] have p: "sha1_pad s = Inr ?s" .
  from addUncounted_absorb [OF r(1), of ?p] have "g_rep ?s (absorb ?x ?p)" .
  then have "length (g_state ?s) = 5" "hash_of (g_state ?s) = fst (absorb ?x ?p)"
    "length (g_buffer ?s) = 64" by (auto simp: g_rep_def)
  then show ?thesis
    by (simp add: sha1_result_def p Let_def bswap_state SHA1_absorb)
qed

text \<open>An arbitrary fresh context: memory that no one has initialised.\<close>

definition g_digest :: "sha1nfo \<Rightarrow> fault + u8 list" where
  "g_digest s = and_then (sha1_result s) (\<lambda>(_, d). Inr d)"

definition g_fresh :: sha1nfo where
  "g_fresh = \<lparr>g_buffer = replicate 64 0xAA, g_state = replicate 5 0, byteCount = 0,
     bufferOffset = 0, keyBuffer = replicate 64 0xAA, innerHash = replicate 20 0xAA\<rparr>"

interpretation google: incremental_hash "sha1_init g_fresh" sha1_write g_digest g_holds
  "2 ^ 32" "2 ^ 32"
proof
  show "g_holds (sha1_init g_fresh) []" by (rule g_holds_init) (simp add: g_fresh_def)
  show "g_holds c m \<Longrightarrow> g_holds (sha1_write c bs) (m @ bs)" for c m bs
    by (simp add: sha1_write_def g_holds_write)
  show "g_holds c m \<Longrightarrow> length m < 2 ^ 32 \<Longrightarrow> g_digest c = Inr (SHA1 m)" for c m
    using sha1_result_SHA1 by (fastforce simp: g_digest_def)
qed

text \<open>
  C2. \<^verbatim>\<open>google_sha1.c\<close> computes SHA-1: whatever the memory of the context held, and in
  whatever pieces a message of less than 2 ^ 32 bytes is written, the result is the digest
  that FIPS 180-4 defines.
\<close>

theorem google_sha1_correct:
  assumes "length (g_buffer s) = 64" "length (concat ps) < 2 ^ 32"
  shows "\<exists>s'. sha1_result (foldl sha1_write (sha1_init s) ps) = Inr (s', SHA1 (concat ps))"
proof -
  have "foldl sha1_write t ps = foldl sha1_writebyte t (concat ps)" for t
    by (induction ps arbitrary: t) (simp_all add: sha1_write_def)
  moreover have "g_holds (foldl sha1_writebyte (sha1_init s) (concat ps)) ([] @ concat ps)"
    by (rule g_holds_write [OF g_holds_init [OF assms(1)]])
  ultimately show ?thesis using sha1_result_SHA1 assms(2) by fastforce
qed

lemma google_sha1_correct_witness:
  "\<exists>s'. sha1_result (foldl sha1_write (sha1_init g_fresh) [[1, 2], [], [3]]) =
    Inr (s', SHA1 (concat [[1, 2], [], [3]]))"
  by (rule google_sha1_correct) (simp_all add: g_fresh_def)

text \<open>HMAC, RFC 2104, with SHA-1 as its hash function.\<close>

definition hmac_key :: "u8 list \<Rightarrow> u8 list" where
  "hmac_key key = (let k = (if length key > 64 then SHA1 key else key)
     in k @ replicate (64 - length k) 0)"

definition HMAC_SHA1 :: "u8 list \<Rightarrow> u8 list \<Rightarrow> u8 list" where
  "HMAC_SHA1 key m = SHA1 (map (\<lambda>b. b XOR 0x5c) (hmac_key key) @
     SHA1 (map (\<lambda>b. b XOR 0x36) (hmac_key key) @ m))"

lemma length_SHA1 [simp]: "length (SHA1 m) = 20"
  by (simp add: SHA1_def digest_bytes_list_of list_of_def split: prod.splits)

lemma length_hmac_key [simp]: "length (hmac_key key) = 64"
  by (simp add: hmac_key_def Let_def)

lemma memcpy_zeros: "length k \<le> 64 \<Longrightarrow> memcpy (replicate 64 0) 0 k = k @ replicate (64 - length k) 0"
  by (simp add: memcpy_def drop_replicate)

text \<open>Writing the bytes of a field one after the other, while the field stays as it is.\<close>

lemma write_key_loop:
  "foldl (\<lambda>s i. sha1_writebyte s (keyBuffer s ! i XOR c)) s is =
   foldl sha1_writebyte s (map (\<lambda>i. keyBuffer s ! i XOR c) is)"
  by (induction "is" rule: rev_induct) simp_all

lemma write_inner_loop:
  "foldl (\<lambda>s i. sha1_writebyte s (innerHash s ! i)) s is =
   foldl sha1_writebyte s (map (\<lambda>i. innerHash s ! i) is)"
  by (induction "is" rule: rev_induct) simp_all

lemma map_key: "length k = 64 \<Longrightarrow> map (\<lambda>i. k ! i XOR c) [0..<64] = map (\<lambda>b. b XOR c) (k :: u8 list)"
  by (intro nth_equalityI) simp_all

lemma sha1_init_fields [simp]: "keyBuffer (sha1_init s) = keyBuffer s"
  "innerHash (sha1_init s) = innerHash s" "g_buffer (sha1_init s) = g_buffer s"
  by (simp_all add: sha1_init_def)

lemma initHmac_holds:
  assumes "length (g_buffer s) = 64" "length key < 2 ^ 31"
  shows "\<exists>s'. sha1_initHmac s key = Inr s' \<and>
    g_holds s' (map (\<lambda>b. b XOR 0x36) (hmac_key key)) \<and> keyBuffer s' = hmac_key key"
proof -
  let ?z = "s\<lparr>keyBuffer := replicate 64 0\<rparr>"
  have fin: "g_holds (foldl sha1_writebyte (sha1_init t) (map (\<lambda>b. b XOR 0x36) (hmac_key key)))
      ([] @ map (\<lambda>b. b XOR 0x36) (hmac_key key))" if "length (g_buffer t) = 64" for t
    by (rule g_holds_write [OF g_holds_init [OF that]])
  show ?thesis
  proof (cases "length key > 64")
    case True
    have "g_holds (foldl sha1_writebyte (sha1_init ?z) key) ([] @ key)"
      by (rule g_holds_write [OF g_holds_init]) (simp add: assms(1))
    with assms(2) obtain t where t: "sha1_result (foldl sha1_writebyte (sha1_init ?z) key) =
        Inr (t, SHA1 key)" "length (g_buffer t) = 64" "keyBuffer t = replicate 64 0"
      using sha1_result_SHA1 by fastforce
    have k: "memcpy (replicate 64 0) 0 (SHA1 key) = hmac_key key"
      using True by (simp add: memcpy_zeros hmac_key_def)
    show ?thesis using True t fin [of "t\<lparr>keyBuffer := hmac_key key\<rparr>"]
      by (simp add: sha1_initHmac_def BLOCK_LENGTH_def HMAC_IPAD_def k write_key_loop map_key Let_def)
  next
    case False
    have k: "memcpy (replicate 64 0) 0 key = hmac_key key"
      using False by (simp add: memcpy_zeros hmac_key_def)
    show ?thesis using False fin [of "s\<lparr>keyBuffer := hmac_key key\<rparr>"] assms(1)
      by (simp add: sha1_initHmac_def BLOCK_LENGTH_def HMAC_IPAD_def k write_key_loop map_key Let_def)
  qed
qed

text \<open>
  C3. The keyed hash of \<^verbatim>\<open>google_sha1.c\<close> is HMAC-SHA-1: after \<open>sha1_initHmac\<close> and the
  message, \<open>sha1_resultHmac\<close> returns the RFC 2104 value, for keys shorter than, as long as
  and longer than a block.
\<close>

theorem google_hmac_correct:
  assumes "length (g_buffer s) = 64" "length key < 2 ^ 31" "length m < 2 ^ 31"
  shows "\<exists>s1 s2. sha1_initHmac s key = Inr s1 \<and>
    sha1_resultHmac (sha1_write s1 m) = Inr (s2, HMAC_SHA1 key m)"
proof -
  let ?k = "\<lambda>c. map (\<lambda>b. b XOR c) (hmac_key key)"
  obtain s1 where s1: "sha1_initHmac s key = Inr s1" "g_holds s1 (?k 0x36)"
      "keyBuffer s1 = hmac_key key"
    using initHmac_holds [OF assms(1,2)] by blast
  have "g_holds (sha1_write s1 m) (?k 0x36 @ m)"
    unfolding sha1_write_def by (rule g_holds_write [OF s1(2)])
  with assms(3) obtain t where t: "sha1_result (sha1_write s1 m) = Inr (t, SHA1 (?k 0x36 @ m))"
    "length (g_buffer t) = 64" "keyBuffer t = hmac_key key"
    using sha1_result_SHA1 s1(3) by (fastforce simp: sha1_write_def)
  let ?d = "SHA1 (?k 0x36 @ m)"
  let ?t = "sha1_init (t\<lparr>innerHash := ?d\<rparr>)"
  have d: "map ((!) ?d) [0..<20] = ?d" using map_nth [of ?d] by simp
  have "g_holds (foldl sha1_writebyte (foldl sha1_writebyte ?t (?k 0x5c)) ?d) (([] @ ?k 0x5c) @ ?d)"
    by (rule g_holds_write [OF g_holds_write [OF g_holds_init]]) (simp add: t)
  then obtain s2 where "sha1_result (foldl sha1_writebyte (foldl sha1_writebyte ?t (?k 0x5c)) ?d) =
      Inr (s2, SHA1 (?k 0x5c @ ?d))"
    using sha1_result_SHA1 by fastforce
  then have "sha1_resultHmac (sha1_write s1 m) = Inr (s2, HMAC_SHA1 key m)"
    using t d by (simp add: sha1_resultHmac_def BLOCK_LENGTH_def HASH_LENGTH_def HMAC_OPAD_def
      write_key_loop write_inner_loop map_key Let_def HMAC_SHA1_def)
  with s1(1) show ?thesis by blast
qed

lemma google_hmac_correct_witness:
  "\<exists>s1 s2. sha1_initHmac g_fresh [1, 2, 3] = Inr s1 \<and>
    sha1_resultHmac (sha1_write s1 [4]) = Inr (s2, HMAC_SHA1 [1, 2, 3] [4])"
  by (rule google_hmac_correct) (simp_all add: g_fresh_def)

section \<open>Any order of calls\<close>

text \<open>
  The public functions may be called in any order, also after a result has been taken and the
  state holds swapped words. The arrays keep their lengths, the offset stays inside the
  buffer, and the padding loop ends.
\<close>

datatype g_call =
  G_Init | G_WriteByte u8 | G_Write "u8 list" | G_Result | G_InitHmac "u8 list" | G_ResultHmac

definition g_step :: "sha1nfo \<Rightarrow> g_call \<Rightarrow> fault + sha1nfo" where
  "g_step s c = (case c of
     G_Init \<Rightarrow> Inr (sha1_init s)
   | G_WriteByte b \<Rightarrow> Inr (sha1_writebyte s b)
   | G_Write bs \<Rightarrow> Inr (sha1_write s bs)
   | G_Result \<Rightarrow> and_then (sha1_result s) (\<lambda>(s, _). Inr s)
   | G_InitHmac key \<Rightarrow> sha1_initHmac s key
   | G_ResultHmac \<Rightarrow> and_then (sha1_resultHmac s) (\<lambda>(s, _). Inr s))"

definition g_wf :: "sha1nfo \<Rightarrow> bool" where
  "g_wf s \<longleftrightarrow> length (g_state s) = 5 \<and> length (g_buffer s) = 64 \<and> unat (bufferOffset s) < 64 \<and>
     length (keyBuffer s) = 64 \<and> length (innerHash s) = 20"

lemma g_wf_rep:
  "g_wf s \<longleftrightarrow> (\<exists>x. g_rep s x) \<and> length (keyBuffer s) = 64 \<and> length (innerHash s) = 20"
proof -
  have "g_rep s (hash_of (g_state s), take (unat (bufferOffset s)) (view (g_buffer s)))"
    if "g_wf s" using that by (simp add: g_rep_def g_wf_def starts_def)
  moreover have "length (g_state s) = 5 \<and> length (g_buffer s) = 64 \<and> unat (bufferOffset s) < 64"
    if "g_rep s x" for x using that by (simp add: g_rep_def starts_def)
  ultimately show ?thesis unfolding g_wf_def by blast
qed

lemma g_wf_init: "g_wf s \<Longrightarrow> g_wf (sha1_init s)"
  by (simp add: g_wf_def sha1_init_def)

lemma g_wf_writebyte: "g_wf s \<Longrightarrow> g_wf (sha1_writebyte s b)"
  unfolding g_wf_rep writebyte_rep(3,4) using writebyte_rep(1) by blast

lemma g_wf_addUncounted: "g_wf s \<Longrightarrow> g_wf (sha1_addUncounted s b)"
  unfolding g_wf_rep addUncounted_count using addUncounted_feed by blast

interpretation g_bytes: run_invariant sha1_writebyte g_wf
  by unfold_locales (rule g_wf_writebyte)

interpretation g_padding: run_invariant sha1_addUncounted g_wf
  by unfold_locales (rule g_wf_addUncounted)

lemma pad_zeros_wf:
  assumes "g_wf s"
  shows "\<exists>s'. pad_zeros 64 s = Inr s' \<and> g_wf s'"
proof -
  obtain x where x: "g_rep s x" using assms by (auto simp: g_wf_rep)
  have "(120 - length (snd x)) mod 64 \<le> 64" using mod_less_divisor [of 64 "120 - length (snd x)"] by linarith
  from pad_zeros_run [OF x refl this] g_padding.run_inv [OF assms] show ?thesis by simp
qed

lemma g_wf_result:
  assumes "g_wf s"
  shows "\<exists>s' d. sha1_result s = Inr (s', d) \<and> g_wf s' \<and> length d = 20"
proof -
  obtain t where t: "pad_zeros 64 (sha1_addUncounted s 0x80) = Inr t" "g_wf t"
    using pad_zeros_wf [OF g_wf_addUncounted [OF assms]] by blast
  obtain u where u: "sha1_pad s = Inr u" "g_wf u"
    using t by (simp add: sha1_pad_def Let_def g_wf_addUncounted)
  then show ?thesis by (auto simp: sha1_result_def Let_def g_wf_def)
qed

lemma g_wf_initHmac:
  assumes "g_wf s"
  shows "\<exists>s'. sha1_initHmac s key = Inr s' \<and> g_wf s'"
proof -
  have z: "g_wf (s\<lparr>keyBuffer := replicate 64 0\<rparr>)" using assms by (simp add: g_wf_def)
  have f: "g_wf (foldl (\<lambda>s i. sha1_writebyte s (keyBuffer s ! i XOR c)) (sha1_init t) is)"
    if "g_wf t" for t c "is"
    unfolding write_key_loop by (rule g_bytes.run_inv [OF g_wf_init [OF that]])
  have k: "g_wf (t\<lparr>keyBuffer := memcpy (keyBuffer t) 0 d\<rparr>)" if "g_wf t" "length d \<le> 64" for t d
    using that by (simp add: g_wf_def memcpy_def)
  show ?thesis
  proof (cases "length key > 64")
    case True
    obtain t d where t: "sha1_result (foldl sha1_writebyte (sha1_init (s\<lparr>keyBuffer := replicate 64 0\<rparr>)) key)
        = Inr (t, d)" "g_wf t" "length d = 20"
      using g_wf_result [OF g_bytes.run_inv [OF g_wf_init [OF z], of key]] by blast
    with True f [OF k [OF t(2), of d]] show ?thesis
      by (simp add: sha1_initHmac_def BLOCK_LENGTH_def Let_def)
  next
    case False
    with f [OF k [OF z, of key]] show ?thesis
      by (simp add: sha1_initHmac_def BLOCK_LENGTH_def Let_def)
  qed
qed

lemma g_wf_resultHmac:
  assumes "g_wf s"
  shows "\<exists>s' d. sha1_resultHmac s = Inr (s', d) \<and> g_wf s' \<and> length d = 20"
proof -
  obtain t d where t: "sha1_result s = Inr (t, d)" "g_wf t" "length d = 20"
    using g_wf_result [OF assms] by blast
  then have i: "g_wf (sha1_init (t\<lparr>innerHash := d\<rparr>))" by (intro g_wf_init) (simp add: g_wf_def)
  let ?u = "foldl (\<lambda>s i. sha1_writebyte s (keyBuffer s ! i XOR HMAC_OPAD))
    (sha1_init (t\<lparr>innerHash := d\<rparr>)) [0..<BLOCK_LENGTH]"
  let ?v = "foldl (\<lambda>s i. sha1_writebyte s (innerHash s ! i)) ?u [0..<HASH_LENGTH]"
  have "g_wf ?u" unfolding write_key_loop by (rule g_bytes.run_inv [OF i])
  then have "g_wf ?v" unfolding write_inner_loop by (rule g_bytes.run_inv)
  from g_wf_result [OF this] show ?thesis by (simp add: sha1_resultHmac_def t(1) Let_def)
qed

interpretation g_calls: safe_invariant g_step g_wf
proof
  fix s c
  have "\<exists>s'. g_step s c = Inr s' \<and> g_wf s'" if w: "g_wf s"
  proof (cases c)
    case (G_Write bs)
    with g_bytes.run_inv [OF w, of bs] show ?thesis by (simp add: g_step_def sha1_write_def)
  qed (use w g_wf_init g_wf_writebyte g_wf_result [OF w] g_wf_initHmac [OF w]
        g_wf_resultHmac [OF w] in \<open>auto simp: g_step_def\<close>)
  then show "g_wf s \<Longrightarrow> \<exists>s'. g_step s c = Inr s'"
    "\<And>s'. g_wf s \<Longrightarrow> g_step s c = Inr s' \<Longrightarrow> g_wf s'" by fastforce+
qed

text \<open>
  C21. The context of \<^verbatim>\<open>google_sha1.c\<close> is well typed under every sequence of calls of the public
  functions: none of them writes outside an array or fails to return, the arrays keep their
  lengths and the offset stays below the size of the block.
\<close>

theorem google_calls_typed:
  assumes "g_wf s"
  shows "\<exists>s'. run_res g_step s calls = Inr s' \<and> g_wf s'"
  by (rule g_calls.run_safe [OF assms])

lemma google_calls_typed_witness:
  "\<exists>s'. run_res g_step g_fresh [G_WriteByte 1, G_Result, G_Write [2, 3], G_ResultHmac, G_Init] = Inr s'
    \<and> g_wf s'"
  by (rule google_calls_typed) (simp add: g_wf_def g_fresh_def)

end
