(* ===== verification/Sha1_Oryx.thy ===== *)
theory Sha1_Oryx
  imports Sha1_Rounds
begin

text \<open>
  \<^verbatim>\<open>oryx_sha1.c\<close>: a context that copies as much of a piece as fits its block. The unions of
  \<^verbatim>\<open>oryx_sha1.h\<close> are modelled as the 64 bytes of the block and the five words of the hash;
  \<^verbatim>\<open>HTONL\<close> and \<^verbatim>\<open>NTOHL\<close> of RIOT's \<^verbatim>\<open>byteorder.h\<close> swap the bytes of a word, as they do on
  the little-endian boards.
\<close>

unbundle bit_operations_syntax

definition HTONL :: "u32 \<Rightarrow> u32" where "HTONL w = bswap w"

record Sha1Context =
  o_h :: "u32 list"
  o_buffer :: "u8 list"
  o_size :: nat
  o_totalSize :: "64 word"

definition ROL32 :: "u32 \<Rightarrow> nat \<Rightarrow> u32" where
  "ROL32 word shift = push_bit shift word OR drop_bit ((32 - shift) AND 31) word"

definition CH :: "u32 \<Rightarrow> u32 \<Rightarrow> u32 \<Rightarrow> u32" where
  "CH x y z = (x AND y) OR (NOT x AND z)"

definition PARITY :: "u32 \<Rightarrow> u32 \<Rightarrow> u32 \<Rightarrow> u32" where
  "PARITY x y z = x XOR y XOR z"

definition MAJ :: "u32 \<Rightarrow> u32 \<Rightarrow> u32 \<Rightarrow> u32" where
  "MAJ x y z = (x AND y) OR (x AND z) OR (y AND z)"

definition MASK :: "nat \<Rightarrow> nat" where "MASK t = t AND 0x0F"

definition padding :: "u8 list" where "padding = 0x80 # replicate 63 0"

definition k_const :: "u32 list" where
  "k_const = [0x5A827999, 0x6ED9EBA1, 0x8F1BBCDC, 0xCA62C1D6]"

definition sha1Init :: "Sha1Context \<Rightarrow> Sha1Context" where
  "sha1Init c = c\<lparr>o_h := [0x67452301, 0xEFCDAB89, 0x98BADCFE, 0x10325476, 0xC3D2E1F0],
     o_size := 0, o_totalSize := 0\<rparr>"

definition processBlock_step :: "u32 list \<times> hash5 \<Rightarrow> nat \<Rightarrow> u32 list \<times> hash5" where
  "processBlock_step x t = (case x of (w, a, b, c, d, e) \<Rightarrow>
     let s = MASK t;
         w = (if t \<ge> 16
              then w[s := ROL32 (w ! MASK (s + 13) XOR w ! MASK (s + 8) XOR w ! MASK (s + 2)
                            XOR w ! s) 1]
              else w);
         temp = (if t < 20 then ROL32 a 5 + CH b c d + e + w ! s + k_const ! 0
                 else if t < 40 then ROL32 a 5 + PARITY b c d + e + w ! s + k_const ! 1
                 else if t < 60 then ROL32 a 5 + MAJ b c d + e + w ! s + k_const ! 2
                 else ROL32 a 5 + PARITY b c d + e + w ! s + k_const ! 3)
     in (w, temp, a, ROL32 b 30, c, d))"

definition sha1ProcessBlock :: "Sha1Context \<Rightarrow> Sha1Context" where
  "sha1ProcessBlock c =
     (case foldl processBlock_step (map HTONL (mem_words (o_buffer c)), hash_of (o_h c)) [0..<80] of
        (w, v) \<Rightarrow> c\<lparr>o_buffer := words_mem w, o_h := list_of (add5 (hash_of (o_h c)) v)\<rparr>)"

text \<open>
  The loop of \<open>sha1Update\<close>. Every round takes at least one byte while the block is not
  full, so the fuel of one more than the number of bytes is enough.
\<close>

fun update_loop :: "nat \<Rightarrow> Sha1Context \<Rightarrow> u8 list \<Rightarrow> fault + Sha1Context" where
  "update_loop f c [] = Inr c"
| "update_loop 0 c (d # ds) = Inl OutOfFuel"
| "update_loop (Suc f) c (d # ds) =
     (let n = min (length (d # ds)) (64 - o_size c);
          c1 = c\<lparr>o_buffer := memcpy (o_buffer c) (o_size c) (take n (d # ds)),
                 o_size := o_size c + n, o_totalSize := o_totalSize c + word_of_nat n\<rparr>;
          c2 = (if o_size c1 = 64 then (sha1ProcessBlock c1)\<lparr>o_size := 0\<rparr> else c1)
      in update_loop f c2 (drop n (d # ds)))"

definition sha1Update :: "Sha1Context \<Rightarrow> u8 list \<Rightarrow> fault + Sha1Context" where
  "sha1Update c bs = update_loop (Suc (length bs)) c bs"

text \<open>The result is copied out where the caller passes a place for it.\<close>

definition sha1Final :: "Sha1Context \<Rightarrow> bool \<Rightarrow> fault + Sha1Context \<times> u8 list option" where
  "sha1Final c want =
     (let totalSize = o_totalSize c * 8;
          paddingSize = (if o_size c < 56 then 56 - o_size c else 64 + 56 - o_size c)
      in and_then (sha1Update c (take paddingSize padding)) (\<lambda>c.
           let c = c\<lparr>o_buffer := st32 (o_buffer c) 14 (HTONL (ucast (drop_bit 32 totalSize)))\<rparr>;
               c = c\<lparr>o_buffer := st32 (o_buffer c) 15 (HTONL (ucast totalSize))\<rparr>;
               c = sha1ProcessBlock c;
               c = c\<lparr>o_h := map HTONL (o_h c)\<rparr>
           in Inr (c, if want then Some (words_mem (o_h c)) else None)))"

section \<open>Correctness\<close>

lemma processBlock_step_eq: "processBlock_step = circ_round"
proof (rule ext, rule ext)
  fix x t
  obtain w :: "u32 list" and a b c d e :: u32 where x: "x = (w, a, b, c, d, e)"
    by (metis prod_cases6)
  have n: "(n :: nat) AND 31 = n mod 32" for n
    using take_bit_eq_mask [of 5 n] by (simp add: take_bit_eq_mod mask_eq_exp_minus_1)
  have r: "ROL32 y 1 = rol32 1 y" "ROL32 y 5 = rol32 5 y" "ROL32 y 30 = rol32 30 y" for y
    unfolding ROL32_def rol32_def n by simp_all
  have m: "MASK j = j mod 16" for j by (simp add: MASK_def nat_and_15)
  have f: "CH b c d = Ch b c d" "MAJ b c d = Maj b c d" "PARITY b c d = Parity b c d"
    by (simp_all only: CH_def MAJ_def PARITY_def Parity_def bit_tricks)
  show "processBlock_step x t = circ_round x t"
    unfolding x circ_round_eq processBlock_step_def split r Let_def f m mod_add_left_eq
    by (simp add: circ_update_def sha_round_def ft_def Kt_def k_const_def ac_simps)
qed

lemma processBlock_compress:
  assumes "length (o_h c) = 5"
  shows "hash_of (o_h (sha1ProcessBlock c)) =
      sha_compress (hash_of (o_h c)) (block_words (o_buffer c))"
    "length (o_h (sha1ProcessBlock c)) = 5" "length (o_buffer (sha1ProcessBlock c)) = 64"
    "o_size (sha1ProcessBlock c) = o_size c" "o_totalSize (sha1ProcessBlock c) = o_totalSize c"
  using circ_compress [of "block_words (o_buffer c)" "hash_of (o_h c)"]
    circ_length [of "block_words (o_buffer c)" 80 "hash_of (o_h c)"]
  by (simp_all add: sha1ProcessBlock_def processBlock_step_eq HTONL_def [abs_def]
      swapped_words split_beta)

definition o_rep :: "Sha1Context \<Rightarrow> absorber \<Rightarrow> bool" where
  "o_rep c x \<longleftrightarrow> length (o_h c) = 5 \<and> hash_of (o_h c) = fst x \<and> starts (o_buffer c) (snd x) \<and>
     o_size c = length (snd x)"

lemma update_loop_absorb:
  assumes "o_rep c x" "length bs < f"
  shows "\<exists>c'. update_loop f c bs = Inr c' \<and> o_rep c' (absorb x bs) \<and>
    o_totalSize c' = o_totalSize c + word_of_nat (length bs)"
  using assms
proof (induction f arbitrary: c x bs)
  case (Suc f)
  obtain h buf where x: "x = (h, buf)" by (cases x)
  show ?case
  proof (cases bs)
    case Nil
    with Suc.prems show ?thesis by simp
  next
    case (Cons d ds)
    from Suc.prems(1) x have r: "length (o_h c) = 5" "hash_of (o_h c) = h"
      "starts (o_buffer c) buf" "o_size c = length buf" "length buf < 64"
      by (auto simp: o_rep_def starts_def)
    show ?thesis
    proof (cases "length buf + length bs < 64")
      case True
      let ?c = "c\<lparr>o_buffer := memcpy (o_buffer c) (length buf) bs,
        o_size := length buf + length bs, o_totalSize := o_totalSize c + word_of_nat (length bs)\<rparr>"
      have "update_loop (Suc f) c bs = Inr ?c"
        using True r Cons by (simp add: Let_def min_def)
      moreover have "o_rep ?c (absorb x bs)"
        using True r starts_memcpy [OF r(3) True] x by (simp add: o_rep_def absorb_short)
      ultimately show ?thesis by auto
    next
      case False
      let ?n = "64 - length buf"
      let ?c1 = "c\<lparr>o_buffer := memcpy (o_buffer c) (length buf) (take ?n bs), o_size := 64,
        o_totalSize := o_totalSize c + word_of_nat ?n\<rparr>"
      let ?c2 = "(sha1ProcessBlock ?c1)\<lparr>o_size := 0\<rparr>"
      let ?y = "(sha_compress h (block_words (buf @ take ?n bs)), [])"
      have n: "min (length bs) ?n = ?n" using False by simp
      have "update_loop (Suc f) c bs = update_loop f ?c2 (drop ?n bs)"
        using r(4,5) n unfolding Cons by (simp add: Let_def)
      moreover have "o_rep ?c2 ?y"
        using starts_fill [OF r(3), of "take ?n bs"] False r processBlock_compress [of ?c1]
        by (simp add: o_rep_def starts_Nil)
      moreover have "absorb x bs = absorb ?y (drop ?n bs)"
        unfolding x using False r(5) by (intro absorb_block) simp_all
      moreover have "o_totalSize ?c2 = o_totalSize c + word_of_nat ?n"
        by (simp add: processBlock_compress(5) r)
      moreover have "length (drop ?n bs) < f" using Suc.prems(2) False r(5) by simp
      moreover have "word_of_nat ?n + word_of_nat (length (drop ?n bs)) =
          (word_of_nat (length bs) :: 64 word)"
        using False by (simp flip: of_nat_add)
      ultimately show ?thesis using Suc.IH [of ?c2 ?y "drop ?n bs"] by (simp add: add.assoc)
    qed
  qed
qed simp

text \<open>Padding up to the length field.\<close>

definition o_holds :: "fault + Sha1Context \<Rightarrow> u8 list \<Rightarrow> bool" where
  "o_holds r m \<longleftrightarrow> (\<exists>c. r = Inr c \<and> o_rep c (absorb (H0, []) m) \<and>
     o_totalSize c = word_of_nat (length m))"

definition o_update :: "fault + Sha1Context \<Rightarrow> u8 list \<Rightarrow> fault + Sha1Context" where
  "o_update r bs = and_then r (\<lambda>c. sha1Update c bs)"

definition o_digest :: "fault + Sha1Context \<Rightarrow> fault + u8 list" where
  "o_digest r = and_then r (\<lambda>c. and_then (sha1Final c True) (\<lambda>(_, d). Inr (the d)))"

lemma o_holds_init: "length (o_buffer c) = 64 \<Longrightarrow> o_holds (Inr (sha1Init c)) []"
  by (simp add: o_holds_def sha1Init_def o_rep_def hash_of_def H0_def starts_Nil)

lemma o_holds_update: "o_holds r m \<Longrightarrow> o_holds (o_update r bs) (m @ bs)"
  unfolding o_holds_def o_update_def sha1Update_def
  by (elim exE conjE) (use update_loop_absorb in \<open>fastforce simp: of_nat_add\<close>)

lemma length_field:
  "bytes_le (HTONL (ucast (drop_bit 32 (w :: 64 word)))) @ bytes_le (HTONL (ucast w)) = be64 w"
proof -
  have u: "(ucast (drop_bit k (ucast v :: u32)) :: u8) = ucast (drop_bit k v)" if "k \<le> 24"
    for v :: "64 word" and k
    using that by (intro bit_word_eqI) (auto simp: bit_simps)
  show ?thesis
    by (simp add: HTONL_def bytes_le_bswap bytes_be_def be64_def u drop_bit_drop_bit)
      (simp add: bit_word_eqI bit_simps bit_eq_iff)
qed

lemma st32_length_field:
  assumes "starts mem buf" "length buf = 56"
  shows "st32 (st32 mem 14 a) 15 b = buf @ bytes_le a @ bytes_le b"
  using assms by (auto simp: starts_def st32_def memcpy_def)

lemma sha1Final_SHA1:
  assumes "o_rep c (absorb (H0, []) m)" "o_totalSize c = word_of_nat (length m)"
  shows "\<exists>c'. sha1Final c True = Inr (c', Some (SHA1 m)) \<and> length (o_buffer c') = 64"
proof -
  let ?x = "absorb (H0, []) m" and ?f = "pad_front (length m)"
    and ?t = "word_of_nat (8 * length m) :: 64 word"
  let ?p = "if o_size c < 56 then 56 - o_size c else 64 + 56 - o_size c"
  have "o_size c = length m mod 64" using assms(1) absorb_length [of "(H0, [])" m]
    by (simp add: o_rep_def)
  then have p: "?p = length ?f" by (simp add: length_pad_front)
  have "length ?f \<le> 64" unfolding length_pad_front by (auto; arith)
  then have f: "take ?p padding = ?f"
    unfolding p by (simp add: padding_def pad_front_def take_Cons')
  obtain c1 where c1: "sha1Update c ?f = Inr c1" "o_rep c1 (absorb ?x ?f)"
    using update_loop_absorb [OF assms(1), of ?f "Suc (length ?f)"] by (auto simp: sha1Update_def)
  obtain h buf where hb: "absorb ?x ?f = (h, buf)" by (cases "absorb ?x ?f")
  note l = SHA1_from_front [OF hb]
  let ?m = "st32 (st32 (o_buffer c1) 14 (HTONL (ucast (drop_bit 32 ?t)))) 15 (HTONL (ucast ?t))"
  have c: "length (o_h c1) = 5" "hash_of (o_h c1) = h" "starts (o_buffer c1) buf"
    using c1(2) hb by (simp_all add: o_rep_def)
  have m: "?m = buf @ be64 ?t" unfolding st32_length_field [OF c(3) l(1)] length_field ..
  have t: "o_totalSize c * 8 = ?t" by (simp add: assms(2))
  have d: "words_mem (map HTONL st) = digest_bytes (hash_of st)" if "length st = 5" for st
    using that by (simp add: words_mem_def HTONL_def bytes_le_bswap comp_def
      digest_bytes_list_of list_of_hash_of)
  show ?thesis
    unfolding sha1Final_def Let_def f c1(1) and_then_Inr t
    using processBlock_compress [of "c1\<lparr>o_buffer := ?m\<rparr>"] c m l(2) by (simp add: d)
qed

text \<open>A context in memory that no one has initialised.\<close>

definition o_fresh :: Sha1Context where
  "o_fresh = \<lparr>o_h = replicate 5 0, o_buffer = replicate 64 0xAA, o_size = 0, o_totalSize = 0\<rparr>"

interpretation oryx: incremental_hash "Inr (sha1Init o_fresh)" o_update o_digest o_holds
  "2 ^ 61" "2 ^ 61"
proof
  show "o_holds (Inr (sha1Init o_fresh)) []" by (rule o_holds_init) (simp add: o_fresh_def)
  show "o_holds r m \<Longrightarrow> o_holds (o_update r bs) (m @ bs)" for r m bs by (rule o_holds_update)
  show "o_holds r m \<Longrightarrow> o_digest r = Inr (SHA1 m)" for r m
    using sha1Final_SHA1 by (fastforce simp: o_holds_def o_digest_def)
qed

lemma o_update_simps: "o_update (Inl e) bs = Inl e" "o_update (Inr c) bs = sha1Update c bs"
  by (simp_all add: o_update_def)

lemma o_update_Inl: "foldl o_update (Inl e) ps = Inl e"
  by (induction ps) (simp_all add: o_update_simps)

lemma o_update_run: "foldl o_update (Inr c) ps = run_res sha1Update c ps"
proof (induction ps arbitrary: c)
  case (Cons p ps)
  then show ?case by (cases "sha1Update c p") (simp_all add: o_update_simps o_update_Inl)
qed simp

text \<open>
  C4. \<^verbatim>\<open>oryx_sha1.c\<close> computes SHA-1: whatever the memory of the context held, and in whatever
  pieces a message is passed, every update returns, and the digest that \<open>sha1Final\<close> copies out
  is the one that FIPS 180-4 defines.
\<close>

theorem oryx_sha1_correct:
  assumes "length (o_buffer c) = 64" "length (concat ps) < 2 ^ 61"
  shows "\<exists>c1 c2. run_res sha1Update (sha1Init c) ps = Inr c1 \<and>
    sha1Final c1 True = Inr (c2, Some (SHA1 (concat ps)))"
proof -
  have "o_holds (foldl o_update (Inr (sha1Init c)) ps) ([] @ concat ps)"
    by (rule oryx.holds_concat [OF o_holds_init [OF assms(1)]]) (use assms(2) in simp_all)
  then obtain c1 where "run_res sha1Update (sha1Init c) ps = Inr c1"
    "o_rep c1 (absorb (H0, []) (concat ps))" "o_totalSize c1 = word_of_nat (length (concat ps))"
    by (auto simp: o_holds_def o_update_run)
  with sha1Final_SHA1 show ?thesis by blast
qed

lemma oryx_sha1_correct_witness:
  "\<exists>c1 c2. run_res sha1Update (sha1Init o_fresh) [[1, 2], [], [3]] = Inr c1 \<and>
    sha1Final c1 True = Inr (c2, Some (SHA1 (concat [[1, 2], [], [3]])))"
  by (rule oryx_sha1_correct) (simp_all add: o_fresh_def)

end
