(* ===== verification/Sha1_Pd.thy ===== *)
theory Sha1_Pd
  imports Sha1_Rounds
begin

text \<open>
  \<^verbatim>\<open>pd_sha1.c\<close>: Steve Reid's implementation. Its block function is unrolled into 80 macro
  calls whose registers change roles, and it works in place on the block it is given, because
  \<^verbatim>\<open>SHA1HANDSOFF\<close> is not defined: whole blocks inside a piece are transformed, and
  overwritten, in the memory of the caller.
\<close>

unbundle bit_operations_syntax

record SHA1_CTX =
  p_state :: "u32 list"
  p_count :: "u32 \<times> u32"
  p_buffer :: "u8 list"

section \<open>The block function\<close>

definition rol :: "u32 \<Rightarrow> nat \<Rightarrow> u32" where
  "rol value bits = push_bit bits value OR drop_bit (32 - bits) value"

text \<open>\<^verbatim>\<open>blk0\<close> and \<^verbatim>\<open>blk\<close> change the block, and their value is the word they store.\<close>

definition blk0 :: "u32 list \<Rightarrow> nat \<Rightarrow> u32 list" where
  "blk0 block i = block[i := (rol (block ! i) 24 AND 0xFF00FF00) OR (rol (block ! i) 8 AND 0x00FF00FF)]"

definition blk :: "u32 list \<Rightarrow> nat \<Rightarrow> u32 list" where
  "blk block i = block[i AND 15 := rol (block ! ((i + 13) AND 15) XOR block ! ((i + 8) AND 15)
     XOR block ! ((i + 2) AND 15) XOR block ! (i AND 15)) 1]"

text \<open>
  The macros \<^verbatim>\<open>R0\<close> to \<^verbatim>\<open>R4\<close>, on the five registers \<^verbatim>\<open>a\<close> to \<^verbatim>\<open>e\<close>, numbered 0 to 4.
\<close>

definition R_macro :: "nat \<Rightarrow> u32 list \<Rightarrow> u32 list \<Rightarrow> nat \<Rightarrow> nat \<Rightarrow> nat \<Rightarrow> nat \<Rightarrow> nat \<Rightarrow> nat
    \<Rightarrow> u32 list \<times> u32 list" where
  "R_macro k block r v w x y z i =
     (let block' = (if k = 0 then blk0 block i else blk block i);
          value = (if k = 0 then block' ! i else block' ! (i AND 15));
          sum = (if k = 0 \<or> k = 1
                 then ((r ! w AND (r ! x XOR r ! y)) XOR r ! y) + value + 0x5A827999
                 else if k = 2 then (r ! w XOR r ! x XOR r ! y) + value + 0x6ED9EBA1
                 else if k = 3
                 then (((r ! w OR r ! x) AND r ! y) OR (r ! w AND r ! x)) + value + 0x8F1BBCDC
                 else (r ! w XOR r ! x XOR r ! y) + value + 0xCA62C1D6);
          r1 = r[z := r ! z + (sum + rol (r ! v) 5)];
          r2 = r1[w := rol (r1 ! w) 30]
      in (block', r2))"

text \<open>The calls of the unrolled loop: the macro, its five registers and the round.\<close>

definition R_calls :: "(nat \<times> nat \<times> nat \<times> nat \<times> nat \<times> nat \<times> nat) list" where
  "R_calls = [
     (0,0,1,2,3,4,0), (0,4,0,1,2,3,1), (0,3,4,0,1,2,2), (0,2,3,4,0,1,3),
     (0,1,2,3,4,0,4), (0,0,1,2,3,4,5), (0,4,0,1,2,3,6), (0,3,4,0,1,2,7),
     (0,2,3,4,0,1,8), (0,1,2,3,4,0,9), (0,0,1,2,3,4,10), (0,4,0,1,2,3,11),
     (0,3,4,0,1,2,12), (0,2,3,4,0,1,13), (0,1,2,3,4,0,14), (0,0,1,2,3,4,15),
     (1,4,0,1,2,3,16), (1,3,4,0,1,2,17), (1,2,3,4,0,1,18), (1,1,2,3,4,0,19),
     (2,0,1,2,3,4,20), (2,4,0,1,2,3,21), (2,3,4,0,1,2,22), (2,2,3,4,0,1,23),
     (2,1,2,3,4,0,24), (2,0,1,2,3,4,25), (2,4,0,1,2,3,26), (2,3,4,0,1,2,27),
     (2,2,3,4,0,1,28), (2,1,2,3,4,0,29), (2,0,1,2,3,4,30), (2,4,0,1,2,3,31),
     (2,3,4,0,1,2,32), (2,2,3,4,0,1,33), (2,1,2,3,4,0,34), (2,0,1,2,3,4,35),
     (2,4,0,1,2,3,36), (2,3,4,0,1,2,37), (2,2,3,4,0,1,38), (2,1,2,3,4,0,39),
     (3,0,1,2,3,4,40), (3,4,0,1,2,3,41), (3,3,4,0,1,2,42), (3,2,3,4,0,1,43),
     (3,1,2,3,4,0,44), (3,0,1,2,3,4,45), (3,4,0,1,2,3,46), (3,3,4,0,1,2,47),
     (3,2,3,4,0,1,48), (3,1,2,3,4,0,49), (3,0,1,2,3,4,50), (3,4,0,1,2,3,51),
     (3,3,4,0,1,2,52), (3,2,3,4,0,1,53), (3,1,2,3,4,0,54), (3,0,1,2,3,4,55),
     (3,4,0,1,2,3,56), (3,3,4,0,1,2,57), (3,2,3,4,0,1,58), (3,1,2,3,4,0,59),
     (4,0,1,2,3,4,60), (4,4,0,1,2,3,61), (4,3,4,0,1,2,62), (4,2,3,4,0,1,63),
     (4,1,2,3,4,0,64), (4,0,1,2,3,4,65), (4,4,0,1,2,3,66), (4,3,4,0,1,2,67),
     (4,2,3,4,0,1,68), (4,1,2,3,4,0,69), (4,0,1,2,3,4,70), (4,4,0,1,2,3,71),
     (4,3,4,0,1,2,72), (4,2,3,4,0,1,73), (4,1,2,3,4,0,74), (4,0,1,2,3,4,75),
     (4,4,0,1,2,3,76), (4,3,4,0,1,2,77), (4,2,3,4,0,1,78), (4,1,2,3,4,0,79)]"

definition R_call :: "u32 list \<times> u32 list \<Rightarrow> nat \<times> nat \<times> nat \<times> nat \<times> nat \<times> nat \<times> nat
    \<Rightarrow> u32 list \<times> u32 list" where
  "R_call s call = (case s of (block, r) \<Rightarrow> case call of (k, v, w, x, y, z, i) \<Rightarrow>
     R_macro k block r v w x y z i)"

text \<open>The new state, and what is in the memory of the block afterwards.\<close>

definition SHA1_Transform :: "u32 list \<Rightarrow> u8 list \<Rightarrow> u32 list \<times> u8 list" where
  "SHA1_Transform state buffer =
     (case foldl R_call (mem_words buffer, state) R_calls of
        (block, r) \<Rightarrow> (map2 (+) state r, words_mem block))"

section \<open>The context\<close>

definition SHA1_Init :: "SHA1_CTX \<Rightarrow> SHA1_CTX" where
  "SHA1_Init c = c\<lparr>p_state := [0x67452301, 0xEFCDAB89, 0x98BADCFE, 0x10325476, 0xC3D2E1F0],
     p_count := (0, 0)\<rparr>"

text \<open>
  The loop over the whole blocks of a piece: the state, the memory of these blocks
  afterwards, and the bytes after them.
\<close>

function transform_blocks :: "u32 list \<Rightarrow> u8 list \<Rightarrow> u32 list \<times> u8 list \<times> u8 list" where
  "transform_blocks st rest =
     (if length rest > 63 then
        (case SHA1_Transform st (take 64 rest) of (st', b) \<Rightarrow>
           (case transform_blocks st' (drop 64 rest) of (st'', bs, rest') \<Rightarrow> (st'', b @ bs, rest')))
      else (st, [], rest))"
  by pat_completeness auto

termination transform_blocks
  by (relation "measure (\<lambda>(st, rest). length rest)") auto

declare transform_blocks.simps [simp del]

text \<open>
  The counter is that of the message in bits, as a low and a high word; the length of the
  piece counts as a signed 32-bit value in the second addition.
\<close>

definition add_count :: "u32 \<times> u32 \<Rightarrow> u32 \<Rightarrow> u32 \<times> u32" where
  "add_count cnt len = (case cnt of (c0, c1) \<Rightarrow>
     let c0' = c0 + push_bit 3 len;
         c1' = (if c0' < push_bit 3 len then c1 + 1 else c1)
     in (c0', c1' + signed_drop_bit 29 len))"

text \<open>\<open>SHA1_Update\<close>: the context, and the memory of the piece afterwards.\<close>

definition SHA1_Update :: "SHA1_CTX \<Rightarrow> u8 list \<Rightarrow> SHA1_CTX \<times> u8 list" where
  "SHA1_Update c bs =
     (let len = length bs;
          j = unat (drop_bit 3 (fst (p_count c)) AND 63);
          c = c\<lparr>p_count := add_count (p_count c) (word_of_nat len)\<rparr>
      in if j + len > 63 then
           (let i = 64 - j in
            case SHA1_Transform (p_state c) (memcpy (p_buffer c) j (take i bs)) of (st, buf) \<Rightarrow>
            case transform_blocks st (drop i bs) of (st', mem, rest) \<Rightarrow>
              (c\<lparr>p_state := st', p_buffer := memcpy buf 0 rest\<rparr>, take i bs @ mem @ rest))
         else (c\<lparr>p_buffer := memcpy (p_buffer c) j bs\<rparr>, bs))"

text \<open>
  \<open>SHA1_Final\<close>: a byte 200 (octal), then zeros until the counter is at bit 448 of a block;
  the fuel of 64 zeros is proved to be enough.
\<close>

fun final_zeros :: "nat \<Rightarrow> SHA1_CTX \<Rightarrow> fault + SHA1_CTX" where
  "final_zeros f c =
     (if fst (p_count c) AND 504 = 448 then Inr c
      else case f of 0 \<Rightarrow> Inl OutOfFuel | Suc f' \<Rightarrow> final_zeros f' (fst (SHA1_Update c [0])))"

declare final_zeros.simps [simp del]

definition finalcount :: "u32 \<times> u32 \<Rightarrow> u8 list" where
  "finalcount cnt = map (\<lambda>i. ucast (drop_bit ((3 - (i AND 3)) * 8)
     (if i \<ge> 4 then fst cnt else snd cnt) AND 255)) [0, 1, 2, 3, 4, 5, 6, 7]"

definition SHA1_Final :: "SHA1_CTX \<Rightarrow> fault + SHA1_CTX \<times> u8 list" where
  "SHA1_Final c =
     (let fc = finalcount (p_count c) in
      and_then (final_zeros 64 (fst (SHA1_Update c [0x80]))) (\<lambda>c.
        let c = fst (SHA1_Update c fc);
            digest = map (\<lambda>i. ucast (drop_bit ((3 - (i AND 3)) * 8) (p_state c ! (i div 4)) AND 255))
                       [0..<20]
        in Inr (c\<lparr>p_buffer := replicate 64 0, p_state := replicate 5 0, p_count := (0, 0)\<rparr>, digest)))"

section \<open>Correctness of the block function\<close>

text \<open>The table of calls is the rotation of the roles.\<close>

definition call_at :: "nat \<Rightarrow> nat \<times> nat \<times> nat \<times> nat \<times> nat \<times> nat \<times> nat" where
  "call_at t = (if t < 16 then 0 else if t < 20 then 1 else if t < 40 then 2
     else if t < 60 then 3 else 4, (4 * t) mod 5, (1 + 4 * t) mod 5, (2 + 4 * t) mod 5,
     (3 + 4 * t) mod 5, (4 + 4 * t) mod 5, t)"

lemma R_calls_roles: "R_calls = map call_at [0..<80]"
  by code_simp

text \<open>
  Before round \<open>t\<close> the registers play their roles, and the block holds the words of the
  circular buffer, of which those from \<open>t\<close> on have not been swapped yet.
\<close>

definition pd_sim :: "u32 list \<Rightarrow> nat \<Rightarrow> u32 list \<times> u32 list \<Rightarrow> u32 list \<times> hash5 \<Rightarrow> bool" where
  "pd_sim raw t s x \<longleftrightarrow> (case s of (block, r) \<Rightarrow> case x of (w, v) \<Rightarrow>
     length r = 5 \<and> length block = 16 \<and> length w = 16 \<and> roles t r = v \<and>
     (t \<le> 16 \<longrightarrow> w = map bswap raw) \<and> (\<forall>i < 16. block ! i = (if i < t then w ! i else raw ! i)))"

lemma rol_eq: "rol x n = rol32 n x"
  by (simp add: rol_def rol32_def)

lemma blk_eq: "16 \<le> t \<Longrightarrow> blk block t = circ_update t block"
  by (simp add: blk_def circ_update_def rol_eq nat_and_15)

lemma blk0_eq: "blk0 block t = block[t := bswap (block ! t)]"
  by (simp add: blk0_def rol_eq bswap_forms)

lemma R_call_sim:
  assumes "pd_sim raw t (block, r) (w, v)" "t < 80" "length raw = 16"
  shows "pd_sim raw (Suc t) (R_call (block, r) (call_at t)) (circ_round (w, v) t)"
proof -
  obtain a b c d e where v: "v = (a, b, c, d, e)" by (metis prod_cases5)
  from assms(1) v have s: "length r = 5" "length block = 16" "length w = 16"
    "roles t r = (a, b, c, d, e)" "t \<le> 16 \<longrightarrow> w = map bswap raw"
    "\<forall>i < 16. block ! i = (if i < t then w ! i else raw ! i)" by (simp_all add: pd_sim_def)
  note regs = call_registers [OF s(1,4)]
  let ?block = "if t < 16 then blk0 block t else blk block t" and ?w = "circ_update t w"
  have full: "block = w" if "16 \<le> t" using s that by (intro nth_equalityI) auto
  have b: "length ?block = 16" "length ?w = 16" "t < 16 \<longrightarrow> ?w = map bswap raw"
    "\<forall>i < 16. ?block ! i = (if i < Suc t then ?w ! i else raw ! i)"
    using s assms(3) full
    by (auto simp: blk0_eq blk_eq circ_update_def nth_list_update less_Suc_eq)
  have val: "(if t < 16 then ?block ! t else ?block ! (t AND 15)) = ?w ! (t mod 16)"
    using b(4) by (auto simp: nat_and_15)
  have m: "((b AND (c XOR d)) XOR d) = Ch b c d" "(((b OR c) AND d) OR (b AND c)) = Maj b c d"
    "b XOR c XOR d = Parity b c d" by (simp_all add: bit_tricks Parity_def)
  let ?x = "e + (ft t b c d + ?w ! (t mod 16) + Kt t + rol a 5)"
  have "R_call (block, r) (call_at t) =
      (?block, r[(4 + 4 * t) mod 5 := ?x, (1 + 4 * t) mod 5 := rol b 30])"
    unfolding R_call_def call_at_def split R_macro_def Let_def regs m
    using val regs(2,6) s(1)
    by (cases "t < 16") (simp_all add: ft_def Kt_def del: One_nat_def plus_1_eq_Suc)
  moreover have "roles (Suc t) (r[(4 + 4 * t) mod 5 := ?x, (1 + 4 * t) mod 5 := rol b 30]) =
      (?x, a, rol b 30, c, d)"
    using roles_step [OF s(1,4)] by blast
  moreover have "circ_round (w, v) t = (?w, ?x, a, rol b 30, c, d)"
    by (simp add: circ_round_eq v sha_round_def rol_eq ac_simps)
  ultimately show ?thesis using b s(1) by (simp add: pd_sim_def)
qed

lemma R_calls_sim:
  assumes "length r = 5" "length raw = 16" "t \<le> 80"
  shows "pd_sim raw t (foldl R_call (raw, r) (map call_at [0..<t]))
    (foldl circ_round (map bswap raw, hash_of r) [0..<t])"
  using assms(3)
proof (induction t)
  case 0
  with assms show ?case by (simp add: pd_sim_def roles_0)
next
  case (Suc t)
  then have ih: "pd_sim raw t (foldl R_call (raw, r) (map call_at [0..<t]))
    (foldl circ_round (map bswap raw, hash_of r) [0..<t])" by simp
  obtain block r' where a: "foldl R_call (raw, r) (map call_at [0..<t]) = (block, r')" by fastforce
  obtain w v where b: "foldl circ_round (map bswap raw, hash_of r) [0..<t] = (w, v)" by (rule prod.exhaust)
  from R_call_sim [OF ih [unfolded a b]] Suc.prems assms(2) show ?case by (simp add: a b)
qed

lemma Transform_compress:
  assumes "length st = 5" "SHA1_Transform st buf = (st', buf')"
  shows "hash_of st' = sha_compress (hash_of st) (block_words buf)" "length st' = 5"
    "length buf' = 64"
proof -
  obtain block r where f: "foldl R_call (mem_words buf, st) R_calls = (block, r)" by fastforce
  obtain w v where c: "foldl circ_round (block_words buf, hash_of st) [0..<80] = (w, v)" by (rule prod.exhaust)
  have "pd_sim (mem_words buf) 80 (block, r) (w, v)"
    using R_calls_sim [of st "mem_words buf" 80] assms(1) f c
    by (simp add: R_calls_roles swapped_words)
  then have r: "length r = 5" "hash_of r = v" "length block = 16"
    by (simp_all add: pd_sim_def roles_0)
  have e: "st' = map2 (+) st r" "buf' = words_mem block"
    using assms(2) f by (simp_all add: SHA1_Transform_def)
  show "hash_of st' = sha_compress (hash_of st) (block_words buf)" "length st' = 5" "length buf' = 64"
    using circ_compress [of "block_words buf" "hash_of st"] c r assms(1)
    by (simp_all add: e map2_add5)
qed

section \<open>Correctness of the context\<close>

lemma transform_blocks_absorb:
  assumes "length st = 5" "transform_blocks st bs = (st', mem, rest)"
  shows "absorb (hash_of st, []) bs = (hash_of st', rest) \<and> length st' = 5 \<and> length rest < 64"
  using assms
proof (induction st bs arbitrary: mem rule: transform_blocks.induct)
  case (1 st bs)
  show ?case
  proof (cases "length bs > 63")
    case False
    with "1.prems" show ?thesis
      by (auto simp: transform_blocks.simps [of st bs] absorb_short)
  next
    case True
    obtain u b where u: "SHA1_Transform st (take 64 bs) = (u, b)" by fastforce
    obtain u' m' r' where t: "transform_blocks u (drop 64 bs) = (u', m', r')" by (metis prod_cases3)
    note c = Transform_compress [OF "1.prems"(1) u]
    have "st' = u'" "rest = r'" using "1.prems"(2) True u t
      by (simp_all add: transform_blocks.simps [of st bs])
    with "1.IH" [OF True u [symmetric] c(2)] t
    have "absorb (hash_of u, []) (drop 64 bs) = (hash_of st', rest) \<and> length st' = 5 \<and> length rest < 64"
      by blast
    moreover have "absorb (hash_of st, []) bs = absorb (hash_of u, []) (drop 64 bs)"
      using absorb_block [of "[]" bs "hash_of st"] True c(1) by simp
    ultimately show ?thesis by simp
  qed
qed

lemma signed_shift:
  assumes "len < 2 ^ 31"
  shows "signed_drop_bit 29 (word_of_nat len :: u32) = word_of_nat (len div 2 ^ 29)"
proof -
  let ?w = "word_of_nat len :: u32"
  have u: "unat ?w = len" using assms by (simp add: unat_u32)
  have "bit (unat ?w) 31 \<longleftrightarrow> bit ?w 31" by (simp only: bit_unsigned_iff) simp
  then have "\<not> bit ?w 31" using assms unfolding u by (simp add: bit_iff_odd)
  then have "signed_drop_bit 29 ?w = drop_bit 29 ?w"
    by (intro bit_word_eqI) (auto simp: bit_simps dest: u32_bitD)
  also have "\<dots> = word_of_nat (len div 2 ^ 29)"
    using assms by (intro word_unat_eq_iff [THEN iffD2])
      (simp add: drop_bit_eq_div unat_div u unat_u32)
  finally show ?thesis .
qed

lemma add_count_of:
  assumes "len < 2 ^ 31"
  shows "add_count (count_of n) (word_of_nat len) = count_of (n + len)"
proof -
  have p: "push_bit 3 (word_of_nat len :: u32) = word_of_nat (8 * len)"
    by (simp add: push_bit_eq_mult)
  have c: "(word_of_nat (8 * n) + word_of_nat (8 * len) :: u32) = word_of_nat (8 * n + 8 * len)"
    by simp
  have e: "8 * (n + len) = 8 * n + 8 * len" "8 * len div 2 ^ 32 = len div 2 ^ 29" by simp_all
  show ?thesis
    unfolding add_count_def count_of_def split Let_def p c signed_shift [OF assms] carry_word e
    by simp
qed

lemma count_position: "unat (drop_bit 3 (fst (count_of n)) AND 63) = n mod 64"
proof -
  have m: "(63 :: u32) = mask 6" by (simp add: mask_eq_exp_minus_1)
  have "unat (drop_bit 3 (fst (count_of n)) AND 63) = (8 * n mod 2 ^ 32) div 8 mod 64"
    unfolding m take_bit_eq_mask [symmetric]
    by (simp add: unsigned_take_bit_eq count_of_def drop_bit_eq_div unat_div unat_mod unat_u32 take_bit_eq_mod
      del: of_nat_mult)
  also have "8 * n mod 2 ^ 32 = 8 * (n mod 2 ^ 29)"
    using mult_mod_right [of 8 n "2 ^ 29"] by simp
  also have "8 * (n mod 2 ^ 29) div 8 mod 64 = n mod 2 ^ 29 mod 64" by simp
  also have "\<dots> = n mod 64" by (simp add: mod_mod_cancel)
  finally show ?thesis .
qed

definition p_rep :: "SHA1_CTX \<Rightarrow> nat \<Rightarrow> absorber \<Rightarrow> bool" where
  "p_rep c n x \<longleftrightarrow> length (p_state c) = 5 \<and> hash_of (p_state c) = fst x \<and>
     starts (p_buffer c) (snd x) \<and> p_count c = count_of n \<and> length (snd x) = n mod 64"

lemma Update_absorb:
  assumes "p_rep c n x" "length bs < 2 ^ 31"
  shows "p_rep (fst (SHA1_Update c bs)) (n + length bs) (absorb x bs)"
proof -
  obtain h buf where x: "x = (h, buf)" by (cases x)
  with assms(1) have r: "length (p_state c) = 5" "hash_of (p_state c) = h"
    "starts (p_buffer c) buf" "p_count c = count_of n" "length buf = n mod 64" "length buf < 64"
    by (auto simp: p_rep_def starts_def)
  have j: "unat (drop_bit 3 (fst (p_count c)) AND 63) = length buf"
    unfolding r(4) count_position r(5) ..
  have cnt: "add_count (p_count c) (word_of_nat (length bs)) = count_of (n + length bs)"
    unfolding r(4) by (rule add_count_of [OF assms(2)])
  have len: "length (snd (absorb x bs)) = (n + length bs) mod 64"
    using absorb_length [of x bs] r x by (simp add: mod_add_left_eq)
  show ?thesis
  proof (cases "length buf + length bs < 64")
    case True
    then have "SHA1_Update c bs =
      (c\<lparr>p_count := count_of (n + length bs), p_buffer := memcpy (p_buffer c) (length buf) bs\<rparr>, bs)"
      unfolding SHA1_Update_def Let_def j cnt by simp
    moreover have "absorb x bs = (h, buf @ bs)" unfolding x using True by (rule absorb_short)
    ultimately show ?thesis using r(1,2) len starts_memcpy [OF r(3) True] by (simp add: p_rep_def)
  next
    case False
    let ?i = "64 - length buf"
    obtain st b where t: "SHA1_Transform (p_state c) (memcpy (p_buffer c) (length buf) (take ?i bs)) = (st, b)"
      by fastforce
    obtain st' mem rest where tb: "transform_blocks st (drop ?i bs) = (st', mem, rest)"
      by (metis prod_cases3)
    have "memcpy (p_buffer c) (length buf) (take ?i bs) = buf @ take ?i bs"
      using False r(6) by (intro starts_fill [OF r(3)]) simp
    with Transform_compress [OF r(1) t] r(2)
    have st: "hash_of st = sha_compress h (block_words (buf @ take ?i bs))" "length st = 5"
      "length b = 64" by simp_all
    have "absorb x bs = (hash_of st', rest) \<and> length st' = 5 \<and> length rest < 64"
      using transform_blocks_absorb [OF st(2) tb] absorb_block [OF r(6), of bs h] False
      by (simp add: x st(1))
    moreover from this st(3) have "starts (memcpy b 0 rest) rest"
      using starts_memcpy [OF starts_Nil, of b rest] by simp
    moreover have "SHA1_Update c bs =
      (c\<lparr>p_count := count_of (n + length bs), p_state := st', p_buffer := memcpy b 0 rest\<rparr>,
       take ?i bs @ mem @ rest)"
      unfolding SHA1_Update_def Let_def j cnt using False t tb by simp
    ultimately show ?thesis using len by (simp add: p_rep_def)
  qed
qed

lemma count_448: "fst (count_of n) AND 504 = 448 \<longleftrightarrow> n mod 64 = 56"
proof -
  let ?c = "fst (count_of n)"
  have e: "(504 :: u32) = push_bit 3 (mask 6)" "(63 :: u32) = mask 6"
    by (simp_all add: mask_eq_exp_minus_1)
  have "?c AND 504 = push_bit 3 (drop_bit 3 ?c AND 63)"
    unfolding e by (intro bit_word_eqI) (auto simp: bit_simps simp del: mask_numeral)
  moreover have "(448 :: u32) = push_bit 3 56" by simp
  ultimately have "?c AND 504 = 448 \<longleftrightarrow>
      push_bit 3 (drop_bit 3 ?c AND 63) = (push_bit 3 56 :: u32)" by simp
  also have "\<dots> \<longleftrightarrow> 8 * unat (drop_bit 3 ?c AND 63) = unat (push_bit 3 56 :: u32)"
    using count_position [of n]
    by (simp add: word_unat_eq_iff push_bit_eq_mult unat_word_ariths)
  also have "\<dots> \<longleftrightarrow> n mod 64 = 56" unfolding count_position by auto
  finally show ?thesis .
qed

lemma final_zeros_run:
  assumes "p_rep c n x" "z = (120 - n mod 64) mod 64" "z \<le> f"
  shows "\<exists>c'. final_zeros f c = Inr c' \<and> p_rep c' (n + z) (absorb x (replicate z 0))"
  using assms
proof (induction z arbitrary: c n x f)
  case 0
  then have "n mod 64 = 56" using zeros_mod [of "n mod 64"] by (auto split: if_splits)
  with 0 show ?case by (simp add: final_zeros.simps [of f] p_rep_def count_448)
next
  case (Suc z)
  have ne: "n mod 64 \<noteq> 56" using Suc.prems(2) by auto
  obtain f' where f: "f = Suc f'" using Suc.prems by (cases f) auto
  have "z = (120 - Suc n mod 64) mod 64"
    using zeros_step [of "n mod 64"] Suc.prems(2) by (simp add: mod_Suc_eq)
  from Suc.IH [OF _ this, of "fst (SHA1_Update c [0])" "feed x 0" f']
    Update_absorb [OF Suc.prems(1), of "[0]"] Suc.prems(1,3) f ne
  show ?case by (simp add: final_zeros.simps [of "Suc f'"] p_rep_def count_448)
qed

lemma ucast_255: "(ucast (w AND 255) :: u8) = ucast (w :: u32)"
proof -
  have e: "(255 :: u32) = mask 8" by (simp add: mask_eq_exp_minus_1)
  show ?thesis unfolding e by (intro bit_word_eqI) (auto simp: bit_simps simp del: mask_numeral)
qed

lemma finalcount_be64: "n < 2 ^ 61 \<Longrightarrow> finalcount (count_of n) = be64 (word_of_nat (8 * n))"
  unfolding count_be64 [symmetric] finalcount_def ucast_255 by (simp add: bytes_be_def)

lemma digest_loop:
  assumes "length st = 5"
  shows "map (\<lambda>i. ucast (drop_bit ((3 - (i AND 3)) * 8) (st ! (i div 4)) AND 255)) [0..<20] =
    digest_bytes (hash_of st)"
proof -
  have i: "[0..<20] = [0, 1, 2, 3, 4, 5, 6, 7, 8, 9, 10, 11, 12, 13, 14, 15, 16, 17, 18, 19]"
    by (simp add: upt_conv_Cons)
  show ?thesis unfolding i ucast_255 by (simp add: digest_bytes_def hash_of_def bytes_be_def)
qed

lemma SHA1_Final_SHA1:
  assumes "p_rep c (length m) (absorb (H0, []) m)" "length m < 2 ^ 61"
  shows "\<exists>c'. SHA1_Final c = Inr (c', SHA1 m)"
proof -
  let ?n = "length m" and ?x = "absorb (H0, []) m"
  let ?z = "(119 - ?n mod 64) mod 64"
  have "p_rep (fst (SHA1_Update c [0x80])) (?n + 1) (feed ?x 0x80)"
    using Update_absorb [OF assms(1), of "[0x80]"] by simp
  moreover have "?z = (120 - (?n + 1) mod 64) mod 64"
  proof (cases "?n mod 64 = 63")
    case False
    moreover have "?n mod 64 < 64" by simp
    ultimately have "(?n + 1) mod 64 = ?n mod 64 + 1" by (simp add: mod_Suc)
    then show ?thesis by simp
  qed (simp add: mod_Suc)
  ultimately obtain c1 where c1: "final_zeros 64 (fst (SHA1_Update c [0x80])) = Inr c1"
    "p_rep c1 (?n + 1 + ?z) (absorb (feed ?x 0x80) (replicate ?z 0))"
    using final_zeros_run [of "fst (SHA1_Update c [0x80])" "?n + 1" "feed ?x 0x80" ?z 64] by auto
  let ?fc = "be64 (word_of_nat (8 * ?n))"
  from Update_absorb [OF c1(2), of ?fc]
  have "p_rep (fst (SHA1_Update c1 ?fc)) (?n + 1 + ?z + 8) (absorb ?x (sha_padding ?n))"
    by (simp add: sha_padding_def)
  then have "length (p_state (fst (SHA1_Update c1 ?fc))) = 5"
    "digest_bytes (hash_of (p_state (fst (SHA1_Update c1 ?fc)))) = SHA1 m"
    by (simp_all add: p_rep_def SHA1_absorb)
  moreover have "finalcount (p_count c) = ?fc"
    using assms finalcount_be64 by (simp add: p_rep_def)
  ultimately show ?thesis by (simp add: SHA1_Final_def Let_def c1(1) digest_loop)
qed

definition p_fresh :: SHA1_CTX where
  "p_fresh = \<lparr>p_state = replicate 5 0, p_count = (7, 7), p_buffer = replicate 64 0xAA\<rparr>"

definition p_holds :: "SHA1_CTX \<Rightarrow> u8 list \<Rightarrow> bool" where
  "p_holds c m \<longleftrightarrow> p_rep c (length m) (absorb (H0, []) m)"

definition p_update :: "SHA1_CTX \<Rightarrow> u8 list \<Rightarrow> SHA1_CTX" where
  "p_update c bs = fst (SHA1_Update c bs)"

definition p_digest :: "SHA1_CTX \<Rightarrow> fault + u8 list" where
  "p_digest c = and_then (SHA1_Final c) (\<lambda>(_, d). Inr d)"

lemma p_holds_init: "length (p_buffer c) = 64 \<Longrightarrow> p_holds (SHA1_Init c) []"
  by (simp add: p_holds_def SHA1_Init_def p_rep_def hash_of_def H0_def starts_Nil count_of_def)

lemma p_holds_update:
  "p_holds c m \<Longrightarrow> length bs < 2 ^ 31 \<Longrightarrow> p_holds (fst (SHA1_Update c bs)) (m @ bs)"
  using Update_absorb [of c "length m" "absorb (H0, []) m" bs] by (simp add: p_holds_def)

interpretation pd: incremental_hash "SHA1_Init p_fresh" p_update p_digest p_holds
  "2 ^ 61" "2 ^ 31"
proof
  show "p_holds (SHA1_Init p_fresh) []" by (rule p_holds_init) (simp add: p_fresh_def)
  show "p_holds c m \<Longrightarrow> length bs < 2 ^ 31 \<Longrightarrow> p_holds (p_update c bs) (m @ bs)" for c m bs
    by (simp add: p_update_def p_holds_update)
  show "p_holds c m \<Longrightarrow> length m < 2 ^ 61 \<Longrightarrow> p_digest c = Inr (SHA1 m)" for c m
    using SHA1_Final_SHA1 by (fastforce simp: p_holds_def p_digest_def)
qed

text \<open>
  C5. \<^verbatim>\<open>pd_sha1.c\<close> computes SHA-1: whatever the memory of the context held, and in whatever
  pieces of less than 2 ^ 31 bytes a message is passed, the unrolled block function and the
  in-place schedule give the digest that FIPS 180-4 defines.
\<close>

theorem pd_sha1_correct:
  assumes "length (p_buffer c) = 64" "length (concat ps) < 2 ^ 61" "\<forall>p \<in> set ps. length p < 2 ^ 31"
  shows "\<exists>c'. SHA1_Final (foldl (\<lambda>c p. fst (SHA1_Update c p)) (SHA1_Init c) ps) =
    Inr (c', SHA1 (concat ps))"
proof -
  have "p_holds (foldl p_update (SHA1_Init c) ps) ([] @ concat ps)"
    by (rule pd.holds_pieces [OF p_holds_init [OF assms(1)]]) (use assms in simp_all)
  then show ?thesis using SHA1_Final_SHA1 assms(2) by (simp add: p_holds_def p_update_def [abs_def])
qed

lemma pd_sha1_correct_witness:
  "\<exists>c'. SHA1_Final (foldl (\<lambda>c p. fst (SHA1_Update c p)) (SHA1_Init p_fresh) [[1, 2], [], [3]]) =
    Inr (c', SHA1 (concat [[1, 2], [], [3]]))"
  by (rule pd_sha1_correct) (simp_all add: p_fresh_def)

text \<open>
  The memory of the piece is what it was only as far as no whole block lies inside it: the
  blocks after the first block boundary are replaced by the last 16 words of their schedules.
\<close>

lemma Update_keeps_short:
  assumes "p_rep c n x" "length (snd x) + length bs < 128"
  shows "snd (SHA1_Update c bs) = bs"
proof -
  have j: "unat (drop_bit 3 (fst (p_count c)) AND 63) = length (snd x)" "length (snd x) < 64"
    using assms(1) count_position [of n] by (simp_all add: p_rep_def)
  then have "\<not> length (drop (64 - length (snd x)) bs) > 63" using assms(2) by (simp; linarith)
  then have "transform_blocks st (drop (64 - length (snd x)) bs) =
      (st, [], drop (64 - length (snd x)) bs)" for st
    by (subst transform_blocks.simps) simp
  then show ?thesis by (simp add: SHA1_Update_def Let_def j(1) split_beta)
qed

lemma Update_overwrites:
  assumes "p_rep c n x" "snd x = []" "length bs = 128"
  shows "\<exists>st st' mem. SHA1_Transform st (drop 64 bs) = (st', mem) \<and>
    snd (SHA1_Update c bs) = take 64 bs @ mem"
proof -
  have j: "unat (drop_bit 3 (fst (p_count c)) AND 63) = 0"
    using assms(1,2) count_position [of n] by (simp add: p_rep_def)
  obtain st b where t: "SHA1_Transform (p_state c) (memcpy (p_buffer c) 0 (take 64 bs)) = (st, b)"
    by fastforce
  obtain block r where f: "foldl R_call (mem_words (drop 64 bs), st) R_calls = (block, r)"
    by fastforce
  have tr: "SHA1_Transform st (drop 64 bs) = (map2 (+) st r, words_mem block)"
    by (simp add: SHA1_Transform_def f)
  have "transform_blocks st (drop 64 bs) = (map2 (+) st r, words_mem block, [])"
    using assms(3) tr by (subst transform_blocks.simps) (simp add: transform_blocks.simps [of _ "[]"])
  then have "snd (SHA1_Update c bs) = take 64 bs @ words_mem block"
    using assms(3) by (simp add: SHA1_Update_def Let_def j t)
  with tr show ?thesis by blast
qed

end
