(* ===== verification/Sha1_Rfc.thy ===== *)
theory Sha1_Rfc
  imports Sha1_Rounds
begin

text \<open>
  \<^verbatim>\<open>rfc_sha1.c\<close>: the implementation of RFC 3174, with its error codes. Pointers that the
  code compares with null are options.
\<close>

unbundle bit_operations_syntax

datatype sha_code = shaSuccess | shaNull | shaInputTooLong | shaStateError

text \<open>\<open>Corrupted\<close> holds a code as an integer.\<close>

definition code_num :: "sha_code \<Rightarrow> int" where
  "code_num c = (case c of shaSuccess \<Rightarrow> 0 | shaNull \<Rightarrow> 1 | shaInputTooLong \<Rightarrow> 2 | shaStateError \<Rightarrow> 3)"

record SHA1Ctx =
  Intermediate_Hash :: "u32 list"
  Length_Low :: u32
  Length_High :: u32
  Message_Block_Index :: nat
  Message_Block :: "u8 list"
  Computed :: int
  Corrupted :: int

definition SHA1CircularShift :: "nat \<Rightarrow> u32 \<Rightarrow> u32" where
  "SHA1CircularShift bits word = push_bit bits word OR drop_bit (32 - bits) word"

definition SHA1Reset :: "SHA1Ctx option \<Rightarrow> SHA1Ctx option \<times> int" where
  "SHA1Reset context = (case context of
     None \<Rightarrow> (None, code_num shaNull)
   | Some c \<Rightarrow> (Some (c\<lparr>Length_Low := 0, Length_High := 0, Message_Block_Index := 0,
       Intermediate_Hash := [0x67452301, 0xEFCDAB89, 0x98BADCFE, 0x10325476, 0xC3D2E1F0],
       Computed := 0, Corrupted := 0\<rparr>), code_num shaSuccess))"

section \<open>The block function\<close>

text \<open>
  The word sequence is built from its first 16 words on; every word is written before it is
  read.
\<close>

definition first_words :: "u8 list \<Rightarrow> u32 list" where
  "first_words blk = map (\<lambda>t. push_bit 24 (ucast (blk ! (t * 4))) OR push_bit 16 (ucast (blk ! (t * 4 + 1)))
     OR push_bit 8 (ucast (blk ! (t * 4 + 2))) OR ucast (blk ! (t * 4 + 3))) [0..<16]"

definition word_sequence :: "u32 list \<Rightarrow> u32 list" where
  "word_sequence W16 = foldl (\<lambda>W t. W @
     [SHA1CircularShift 1 (W ! (t - 3) XOR W ! (t - 8) XOR W ! (t - 14) XOR W ! (t - 16))]) W16 [16..<80]"

definition rfc_round :: "u32 list \<Rightarrow> (u32 \<Rightarrow> u32 \<Rightarrow> u32 \<Rightarrow> u32) \<Rightarrow> u32 \<Rightarrow> hash5 \<Rightarrow> nat \<Rightarrow> hash5" where
  "rfc_round W f K v t = (case v of (A, B, C, D, E) \<Rightarrow>
     let temp = SHA1CircularShift 5 A + f B C D + E + W ! t + K
     in (temp, A, SHA1CircularShift 30 B, C, D))"

definition SHA1ProcessMessageBlock :: "SHA1Ctx \<Rightarrow> SHA1Ctx" where
  "SHA1ProcessMessageBlock c =
     (let W = word_sequence (first_words (Message_Block c));
          h = hash_of (Intermediate_Hash c);
          v = foldl (rfc_round W (\<lambda>B C D. (B AND C) OR (NOT B AND D)) 0x5A827999) h [0..<20];
          v = foldl (rfc_round W (\<lambda>B C D. B XOR C XOR D) 0x6ED9EBA1) v [20..<40];
          v = foldl (rfc_round W (\<lambda>B C D. (B AND C) OR (B AND D) OR (C AND D)) 0x8F1BBCDC) v [40..<60];
          v = foldl (rfc_round W (\<lambda>B C D. B XOR C XOR D) 0xCA62C1D6) v [60..<80]
      in c\<lparr>Intermediate_Hash := list_of (add5 h v), Message_Block_Index := 0\<rparr>)"

section \<open>Input\<close>

definition store_byte :: "SHA1Ctx \<Rightarrow> u8 \<Rightarrow> SHA1Ctx" where
  "store_byte c b = c\<lparr>Message_Block := (Message_Block c)[Message_Block_Index c := b],
     Message_Block_Index := Message_Block_Index c + 1\<rparr>"

definition input_byte :: "SHA1Ctx \<Rightarrow> u8 \<Rightarrow> SHA1Ctx" where
  "input_byte c b =
     (let c = store_byte c b;
          c = c\<lparr>Length_Low := Length_Low c + 8\<rparr>;
          c = (if Length_Low c = 0 then
                 let c = c\<lparr>Length_High := Length_High c + 1\<rparr>
                 in if Length_High c = 0 then c\<lparr>Corrupted := 1\<rparr> else c
               else c)
      in if Message_Block_Index c = 64 then SHA1ProcessMessageBlock c else c)"

fun input_loop :: "SHA1Ctx \<Rightarrow> u8 list \<Rightarrow> SHA1Ctx" where
  "input_loop c [] = c"
| "input_loop c (b # bs) = (if Corrupted c \<noteq> 0 then c else input_loop (input_byte c b) bs)"

definition SHA1Input :: "SHA1Ctx option \<Rightarrow> u8 list option \<Rightarrow> nat \<Rightarrow> SHA1Ctx option \<times> int" where
  "SHA1Input context message_array len =
     (if len = 0 then (context, code_num shaSuccess)
      else case (context, message_array) of
        (Some c, Some bs) \<Rightarrow>
          if Computed c \<noteq> 0 then
            (Some (c\<lparr>Corrupted := code_num shaStateError\<rparr>), code_num shaStateError)
          else if Corrupted c \<noteq> 0 then (Some c, Corrupted c)
          else (Some (input_loop c (take len bs)), code_num shaSuccess)
      | _ \<Rightarrow> (context, code_num shaNull))"

section \<open>Padding and the result\<close>

text \<open>The loops that store zeros up to an index.\<close>

definition zeros_to :: "nat \<Rightarrow> SHA1Ctx \<Rightarrow> SHA1Ctx" where
  "zeros_to e c = foldl (\<lambda>c _. store_byte c 0) c [Message_Block_Index c..<e]"

definition SHA1PadMessage :: "SHA1Ctx \<Rightarrow> SHA1Ctx" where
  "SHA1PadMessage c =
     (let c = (if Message_Block_Index c > 55
               then zeros_to 56 (SHA1ProcessMessageBlock (zeros_to 64 (store_byte c 0x80)))
               else zeros_to 56 (store_byte c 0x80));
          m = (Message_Block c)
            [56 := ucast (drop_bit 24 (Length_High c)), 57 := ucast (drop_bit 16 (Length_High c)),
             58 := ucast (drop_bit 8 (Length_High c)), 59 := ucast (Length_High c),
             60 := ucast (drop_bit 24 (Length_Low c)), 61 := ucast (drop_bit 16 (Length_Low c)),
             62 := ucast (drop_bit 8 (Length_Low c)), 63 := ucast (Length_Low c)]
      in SHA1ProcessMessageBlock (c\<lparr>Message_Block := m\<rparr>))"

text \<open>The flag says whether the caller passes an array for the digest.\<close>

definition SHA1Result :: "SHA1Ctx option \<Rightarrow> bool \<Rightarrow> SHA1Ctx option \<times> u8 list option \<times> int" where
  "SHA1Result context out =
     (case context of
        None \<Rightarrow> (None, None, code_num shaNull)
      | Some c \<Rightarrow>
          if \<not> out then (Some c, None, code_num shaNull)
          else if Corrupted c \<noteq> 0 then (Some c, None, Corrupted c)
          else
            let c = (if Computed c = 0
                     then (SHA1PadMessage c)\<lparr>Message_Block := replicate 64 0, Length_Low := 0,
                            Length_High := 0, Computed := 1\<rparr>
                     else c)
            in (Some c,
                Some (map (\<lambda>i. ucast (drop_bit (8 * (3 - (i AND 3))) (Intermediate_Hash c ! (i div 4))))
                  [0..<20]),
                code_num shaSuccess))"

section \<open>Correctness\<close>

lemma first_words_eq: "first_words blk = block_words blk"
  by (simp add: first_words_def block_words_def be_word_def mult.commute)

lemma shift_eq: "SHA1CircularShift = rol32"
  by (intro ext) (simp add: SHA1CircularShift_def rol32_def)

lemma word_sequence_prefix:
  assumes "length W = 16"
  shows "foldl (\<lambda>W t. W @
     [SHA1CircularShift 1 (W ! (t - 3) XOR W ! (t - 8) XOR W ! (t - 14) XOR W ! (t - 16))]) W [16..<16 + n] =
    expand n W"
proof (induction n)
  case (Suc n)
  have l: "length (expand n W) = 16 + n" using assms by (simp add: expand_length)
  have u: "[16..<16 + Suc n] = [16..<16 + n] @ [16 + n]"
    unfolding add_Suc_right by (rule upt_Suc_append) simp
  show ?case unfolding u foldl_append Suc by (simp add: expand_snoc Let_def shift_eq l del: expand.simps)
qed simp

lemma rfc_round_sha:
  "ft t = f \<Longrightarrow> Kt t = K \<Longrightarrow> rfc_round W f K v t = sha_round t (W ! t) v"
  by (cases v) (simp add: rfc_round_def sha_round_def shift_eq)

lemma rfc_rounds:
  assumes "\<And>t. i \<le> t \<Longrightarrow> t < j \<Longrightarrow> ft t = f \<and> Kt t = K"
  shows "foldl (rfc_round W f K) v [i..<j] = foldl (\<lambda>v t. sha_round t (W ! t) v) v [i..<j]"
  using assms by (intro foldl_cong) (auto simp: rfc_round_sha)

lemma sequence_split: "[0..<80] = [0..<20] @ [20..<40] @ [40..<60] @ [60..<80]"
  by code_simp

lemma process_compress:
  "hash_of (Intermediate_Hash (SHA1ProcessMessageBlock c)) =
     sha_compress (hash_of (Intermediate_Hash c)) (block_words (Message_Block c))"
proof -
  let ?W = "expand 64 (block_words (Message_Block c))"
  have W: "word_sequence (first_words (Message_Block c)) = ?W"
  proof -
    have "(16 :: nat) + 64 = 80" by simp
    with word_sequence_prefix [of "block_words (Message_Block c)" 64] show ?thesis
      unfolding word_sequence_def first_words_eq by (simp only: length_mem_words)
  qed
  have f: "(\<lambda>B C D. (B AND C) OR (NOT B AND D)) = Ch" "(\<lambda>B C D. B XOR C XOR D) = Parity"
    "(\<lambda>B C D. (B AND C) OR (B AND D) OR (C AND D)) = Maj"
    by (intro ext; simp add: bit_tricks Parity_def)+
  have r: "foldl (rfc_round ?W Ch 0x5A827999) v [0..<20] =
      foldl (\<lambda>v t. sha_round t (?W ! t) v) v [0..<20]"
    "foldl (rfc_round ?W Parity 0x6ED9EBA1) v [20..<40] =
      foldl (\<lambda>v t. sha_round t (?W ! t) v) v [20..<40]"
    "foldl (rfc_round ?W Maj 0x8F1BBCDC) v [40..<60] =
      foldl (\<lambda>v t. sha_round t (?W ! t) v) v [40..<60]"
    "foldl (rfc_round ?W Parity 0xCA62C1D6) v [60..<80] =
      foldl (\<lambda>v t. sha_round t (?W ! t) v) v [60..<80]" for v
    by (rule rfc_rounds; auto simp: ft_def Kt_def)+
  show ?thesis
    unfolding SHA1ProcessMessageBlock_def W Let_def f r sha_compress_def sequence_split foldl_append
    by (simp del: upt_rec_numeral)
qed

text \<open>The block filled up to the index with the given bytes.\<close>

definition r_at :: "SHA1Ctx \<Rightarrow> hash5 \<Rightarrow> u8 list \<Rightarrow> bool" where
  "r_at c h buf \<longleftrightarrow> length (Intermediate_Hash c) = 5 \<and> hash_of (Intermediate_Hash c) = h \<and>
     length (Message_Block c) = 64 \<and> Message_Block_Index c = length buf \<and> length buf \<le> 64 \<and>
     take (length buf) (Message_Block c) = buf"

lemma r_at_store: "r_at c h buf \<Longrightarrow> length buf < 64 \<Longrightarrow> r_at (store_byte c b) h (buf @ [b])"
  by (auto simp: r_at_def store_byte_def take_Suc_conv_app_nth)

lemma r_at_zeros:
  assumes "r_at c h buf" "length buf \<le> e" "e \<le> 64"
  shows "r_at (zeros_to e c) h (buf @ replicate (e - length buf) 0)"
proof -
  have "r_at (foldl (\<lambda>c _. store_byte c 0) c is) h (buf @ replicate (length is) 0)"
    if "length buf + length is \<le> 64" for "is" :: "nat list"
    using that
  proof (induction "is" rule: rev_induct)
    case (snoc i "is")
    then show ?case
      using r_at_store [of "foldl (\<lambda>c _. store_byte c 0) c is" h "buf @ replicate (length is) 0" 0]
      by (simp add: replicate_append_same)
  qed (simp add: assms(1))
  from this [of "[length buf..<e]"] assms show ?thesis
    by (simp add: zeros_to_def r_at_def)
qed

lemma r_at_process:
  assumes "r_at c h buf" "length buf = 64"
  shows "r_at (SHA1ProcessMessageBlock c) (sha_compress h (block_words buf)) []"
proof -
  have "Message_Block c = buf" using assms by (auto simp: r_at_def)
  moreover have "length (Intermediate_Hash (SHA1ProcessMessageBlock c)) = 5"
    "Message_Block (SHA1ProcessMessageBlock c) = Message_Block c"
    "Message_Block_Index (SHA1ProcessMessageBlock c) = 0"
    by (simp_all add: SHA1ProcessMessageBlock_def Let_def)
  ultimately show ?thesis using assms process_compress [of c] by (simp add: r_at_def)
qed

text \<open>The fields that the block and its padding do not touch.\<close>

definition lengths :: "SHA1Ctx \<Rightarrow> u32 \<times> u32 \<times> int \<times> int" where
  "lengths c = (Length_Low c, Length_High c, Computed c, Corrupted c)"

lemma lengths_simps [simp]:
  "lengths (store_byte c b) = lengths c" "lengths (SHA1ProcessMessageBlock c) = lengths c"
  by (simp_all add: lengths_def store_byte_def SHA1ProcessMessageBlock_def Let_def)

lemma lengths_zeros [simp]: "lengths (zeros_to e c) = lengths c"
proof -
  have "lengths (foldl (\<lambda>c _. store_byte c 0) c is) = lengths c" for "is" :: "nat list"
    by (induction "is" rule: rev_induct) simp_all
  then show ?thesis by (simp add: zeros_to_def)
qed

definition r_rep :: "SHA1Ctx \<Rightarrow> nat \<Rightarrow> absorber \<Rightarrow> bool" where
  "r_rep c n x \<longleftrightarrow> r_at c (fst x) (snd x) \<and> length (snd x) < 64 \<and>
     lengths c = (fst (count_of n), snd (count_of n), 0, 0)"

lemma input_byte_feed:
  assumes "r_rep c n x" "n + 1 < 2 ^ 61"
  shows "r_rep (input_byte c b) (n + 1) (feed x b)"
proof -
  obtain h buf where x: "x = (h, buf)" by (cases x)
  let ?c = "store_byte c b"
  let ?l = "fst (count_of (n + 1))" and ?h = "snd (count_of (n + 1))"
  let ?d = "?c\<lparr>Length_Low := ?l, Length_High := ?h\<rparr>"
  from assms(1) x have r: "r_at c h buf" "length buf < 64" "Length_Low c = fst (count_of n)"
    "Length_High c = snd (count_of n)" "Computed c = 0" "Corrupted c = 0"
    by (simp_all add: r_rep_def lengths_def)
  have e: "input_byte c b = (if length buf = 63 then SHA1ProcessMessageBlock ?d else ?d)"
  proof -
    have i: "Message_Block_Index ?c = length buf + 1" "Length_Low ?c + 8 = ?l"
      "Length_High ?c = snd (count_of n)"
      using r unfolding count_step(1) by (simp_all add: store_byte_def r_at_def)
    show ?thesis
      unfolding input_byte_def Let_def using i count_step(2,3) [OF assms(2)] assms(2)
      by (cases c) (auto simp: store_byte_def)
  qed
  have d: "r_at ?d h (buf @ [b])" using r_at_store [OF r(1,2), of b] by (simp add: r_at_def)
  have l: "lengths ?d = (?l, ?h, 0, 0)" using r(5,6) by (simp add: lengths_def store_byte_def)
  show ?thesis
  proof (cases "length buf = 63")
    case True
    with r_at_process [OF d] l show ?thesis by (simp add: e x feed_def r_rep_def)
  next
    case False
    with d l r(2) show ?thesis by (simp add: e x feed_def r_rep_def)
  qed
qed

lemma input_loop_absorb:
  "r_rep c n x \<Longrightarrow> n + length bs < 2 ^ 61 \<Longrightarrow> r_rep (input_loop c bs) (n + length bs) (absorb x bs)"
proof (induction bs arbitrary: c n x)
  case (Cons b bs)
  have "Corrupted c = 0" using Cons.prems(1) by (simp add: r_rep_def lengths_def)
  with Cons.IH [OF input_byte_feed [OF Cons.prems(1)], of b] Cons.prems(2) show ?case by simp
qed simp

lemma pad_front_blocks:
  assumes "r_at c h buf" "length buf < 64" "length buf = n mod 64"
  shows "\<exists>h' buf'. absorb (h, buf) (pad_front n) = (h', buf') \<and>
    r_at (if Message_Block_Index c > 55
          then zeros_to 56 (SHA1ProcessMessageBlock (zeros_to 64 (store_byte c 0x80)))
          else zeros_to 56 (store_byte c 0x80)) h' buf'"
proof -
  have i: "Message_Block_Index c = length buf" using assms(1) by (simp add: r_at_def)
  let ?c1 = "store_byte c 0x80"
  have c1: "r_at ?c1 h (buf @ [0x80])" by (rule r_at_store [OF assms(1,2)])
  have z: "(119 - length buf) mod 64 = (if length buf < 56 then 55 - length buf else 119 - length buf)"
    by (rule zeros_mod_119 [OF assms(2)])
  show ?thesis
  proof (cases "length buf > 55")
    case False
    then have "absorb (h, buf) (pad_front n) = (h, buf @ pad_front n)"
      by (intro absorb_short) (simp add: pad_front_def assms(3) [symmetric] z)
    moreover have "r_at (zeros_to 56 ?c1) h ((buf @ [0x80]) @ replicate (56 - length (buf @ [0x80])) 0)"
      using False by (intro r_at_zeros [OF c1]) simp_all
    ultimately show ?thesis using False i by (auto simp: pad_front_def assms(3) [symmetric] z)
  next
    case True
    let ?r = "replicate (63 - length buf) 0 :: u8 list"
    let ?b = "buf @ 0x80 # ?r"
    let ?h = "sha_compress h (block_words ?b)"
    have "r_at (zeros_to 64 ?c1) h ((buf @ [0x80]) @ replicate (64 - length (buf @ [0x80])) 0)"
      using assms(2) by (intro r_at_zeros [OF c1]) simp_all
    then have "r_at (zeros_to 64 ?c1) h ?b" by simp
    from r_at_process [OF this] assms(2)
    have "r_at (SHA1ProcessMessageBlock (zeros_to 64 ?c1)) ?h []" by simp
    from r_at_zeros [OF this, of 56]
    have f: "r_at (zeros_to 56 (SHA1ProcessMessageBlock (zeros_to 64 ?c1))) ?h (replicate 56 0)" by simp
    have "119 - length buf = (63 - length buf) + 56" using assms(2) by simp
    then have "replicate (119 - length buf) 0 = ?r @ replicate 56 (0 :: u8)"
      by (simp only: replicate_add)
    then have "pad_front n = (0x80 # ?r) @ replicate 56 0"
      using True by (simp add: pad_front_def assms(3) [symmetric] z)
    moreover have "absorb (h, buf) (0x80 # ?r) = (?h, [])"
      using assms(2) by (intro absorb_fill) simp_all
    moreover have "absorb (?h, []) (replicate 56 0) = (?h, replicate 56 0)"
      using absorb_short [of "[]" "replicate 56 0" ?h] by simp
    ultimately have "absorb (h, buf) (pad_front n) = (?h, replicate 56 0)" by (simp only: foldl_append)
    with f True i show ?thesis by auto
  qed
qed

lemma last_eight:
  assumes "length mb = 64"
  shows "mb[56 := a, 57 := b, 58 := c, 59 := d, 60 := e, 61 := f, 62 := g, 63 := h] =
    take 56 mb @ [a, b, c, d, e, f, g, h]"
proof -
  have eight: "length ys = 8 \<Longrightarrow> \<exists>x0 x1 x2 x3 x4 x5 x6 x7. ys = [x0, x1, x2, x3, x4, x5, x6, x7]"
    for ys :: "'a list"
    by (auto simp: numeral_eq_Suc length_Suc_conv)
  have "length (drop 56 mb) = 8" using assms by simp
  then obtain x0 x1 x2 x3 x4 x5 x6 x7 where "drop 56 mb = [x0, x1, x2, x3, x4, x5, x6, x7]"
    using eight by blast
  then have "mb = take 56 mb @ [x0, x1, x2, x3, x4, x5, x6, x7]" by (metis append_take_drop_id)
  moreover have "length (take 56 mb) = 56" using assms by simp
  ultimately obtain p where "mb = p @ [x0, x1, x2, x3, x4, x5, x6, x7]" "length p = 56" by metis
  then show ?thesis by (simp add: list_update_append)
qed

lemma PadMessage_SHA1:
  assumes "r_rep c (length m) (absorb (H0, []) m)" "length m < 2 ^ 61"
  shows "length (Intermediate_Hash (SHA1PadMessage c)) = 5"
    "digest_bytes (hash_of (Intermediate_Hash (SHA1PadMessage c))) = SHA1 m"
    "Corrupted (SHA1PadMessage c) = 0"
proof -
  let ?x = "absorb (H0, []) m" and ?n = "length m"
  define c1 where "c1 = (if Message_Block_Index c > 55
    then zeros_to 56 (SHA1ProcessMessageBlock (zeros_to 64 (store_byte c 0x80)))
    else zeros_to 56 (store_byte c 0x80))"
  obtain h buf where x: "?x = (h, buf)" by (cases ?x)
  from assms(1) x have r: "r_at c h buf" "length buf < 64"
    "lengths c = (fst (count_of ?n), snd (count_of ?n), 0, 0)" by (simp_all add: r_rep_def)
  have "length buf = ?n mod 64" using absorb_length [of "(H0, [])" m] x by simp
  from pad_front_blocks [OF r(1,2) this] obtain h' buf'
    where p: "absorb ?x (pad_front ?n) = (h', buf')" and c: "r_at c1 h' buf'"
    unfolding x c1_def by blast
  note l = SHA1_from_front [OF p]
  let ?w = "be64 (word_of_nat (8 * ?n))"
  have "lengths c1 = lengths c" by (simp add: c1_def)
  then have cnt: "Length_Low c1 = fst (count_of ?n)" "Length_High c1 = snd (count_of ?n)"
    and z: "Corrupted c1 = 0"
    unfolding r(3) by (simp_all add: lengths_def)
  let ?m = "take 56 (Message_Block c1) @ bytes_be (Length_High c1) @ bytes_be (Length_Low c1)"
  have m: "?m = buf' @ ?w"
    using c l(1) unfolding cnt count_be64 [OF assms(2)] by (simp add: r_at_def)
  have e: "SHA1PadMessage c = SHA1ProcessMessageBlock (c1\<lparr>Message_Block := ?m\<rparr>)"
    using c by (simp add: SHA1PadMessage_def Let_def c1_def [symmetric] last_eight r_at_def bytes_be_def)
  show "length (Intermediate_Hash (SHA1PadMessage c)) = 5"
    "Corrupted (SHA1PadMessage c) = 0"
    unfolding e by (simp_all add: SHA1ProcessMessageBlock_def Let_def z)
  have "hash_of (Intermediate_Hash c1) = h'" using c by (simp add: r_at_def)
  with l(2) show "digest_bytes (hash_of (Intermediate_Hash (SHA1PadMessage c))) = SHA1 m"
    unfolding e process_compress m by simp
qed

section \<open>Results and errors\<close>

lemma result_loop:
  assumes "length st = 5"
  shows "map (\<lambda>i. ucast (drop_bit (8 * (3 - (i AND 3))) (st ! (i div 4)))) [0..<20] =
    digest_bytes (hash_of st)"
proof -
  have i: "[0..<20] = [0, 1, 2, 3, 4, 5, 6, 7, 8, 9, 10, 11, 12, 13, 14, 15, 16, 17, 18, 19]"
    by (simp add: upt_conv_Cons)
  show ?thesis unfolding i by (simp add: digest_bytes_def hash_of_def bytes_be_def)
qed

definition r_holds :: "SHA1Ctx \<Rightarrow> u8 list \<Rightarrow> bool" where
  "r_holds c m \<longleftrightarrow> r_rep c (length m) (absorb (H0, []) m)"

lemma Result_SHA1:
  assumes "r_holds c m" "length m < 2 ^ 61"
  shows "\<exists>c'. SHA1Result (Some c) True = (Some c', Some (SHA1 m), code_num shaSuccess) \<and>
    Computed c' = 1 \<and> Corrupted c' = 0 \<and> length (Message_Block c') = 64 \<and>
    SHA1Result (Some c') True = (Some c', Some (SHA1 m), code_num shaSuccess)"
proof -
  have z: "Corrupted c = 0" "Computed c = 0"
    using assms(1) by (simp_all add: r_holds_def r_rep_def lengths_def)
  let ?c = "(SHA1PadMessage c)\<lparr>Message_Block := replicate 64 0, Length_Low := 0,
    Length_High := 0, Computed := 1\<rparr>"
  note p = PadMessage_SHA1 [OF assms [unfolded r_holds_def]]
  show ?thesis using p z by (simp add: SHA1Result_def result_loop)
qed

definition r_update :: "SHA1Ctx \<Rightarrow> u8 list \<Rightarrow> SHA1Ctx" where
  "r_update c bs = the (fst (SHA1Input (Some c) (Some bs) (length bs)))"

definition r_digest :: "SHA1Ctx \<Rightarrow> fault + u8 list" where
  "r_digest c = (case SHA1Result (Some c) True of
     (_, Some d, _) \<Rightarrow> Inr d
   | (_, None, _) \<Rightarrow> Inl NullPointer)"

definition r_start :: "SHA1Ctx \<Rightarrow> SHA1Ctx" where
  "r_start c = the (fst (SHA1Reset (Some c)))"

definition r_fresh :: SHA1Ctx where
  "r_fresh = \<lparr>Intermediate_Hash = replicate 5 0, Length_Low = 7, Length_High = 7,
     Message_Block_Index = 70, Message_Block = replicate 64 0xAA, Computed = 5, Corrupted = 5\<rparr>"

lemma r_holds_start: "length (Message_Block c) = 64 \<Longrightarrow> r_holds (r_start c) []"
  by (simp add: r_holds_def r_start_def SHA1Reset_def r_rep_def r_at_def lengths_def count_of_def
      hash_of_def H0_def)

lemma Input_holds:
  assumes "r_holds c m" "length m + length bs < 2 ^ 61"
  shows "SHA1Input (Some c) (Some bs) (length bs) = (Some (input_loop c bs), code_num shaSuccess)"
    "r_holds (input_loop c bs) (m @ bs)"
proof -
  have "Computed c = 0" "Corrupted c = 0" using assms(1) by (simp_all add: r_holds_def r_rep_def lengths_def)
  then show "SHA1Input (Some c) (Some bs) (length bs) = (Some (input_loop c bs), code_num shaSuccess)"
    by (cases bs) (simp_all add: SHA1Input_def)
  show "r_holds (input_loop c bs) (m @ bs)"
    using input_loop_absorb [of c "length m" "absorb (H0, []) m" bs] assms by (simp add: r_holds_def)
qed

interpretation rfc: incremental_hash "r_start r_fresh" r_update r_digest r_holds "2 ^ 61" "2 ^ 61"
proof
  show "r_holds (r_start r_fresh) []" by (rule r_holds_start) (simp add: r_fresh_def)
  show "r_holds c m \<Longrightarrow> length m + length bs < 2 ^ 61 \<Longrightarrow> r_holds (r_update c bs) (m @ bs)" for c m bs
    by (simp add: r_update_def Input_holds)
  show "r_holds c m \<Longrightarrow> length m < 2 ^ 61 \<Longrightarrow> r_digest c = Inr (SHA1 m)" for c m
    using Result_SHA1 by (fastforce simp: r_digest_def)
qed

text \<open>
  C6. \<^verbatim>\<open>rfc_sha1.c\<close> computes SHA-1: after a reset, and in whatever pieces a message of less than
  2 ^ 61 bytes is put in, \<open>SHA1Result\<close> succeeds with the digest that FIPS 180-4 defines, and
  returns the same digest when it is called again.
\<close>

theorem rfc_sha1_correct:
  assumes "length (Message_Block c) = 64" "length (concat ps) < 2 ^ 61"
  shows "\<exists>c'. SHA1Result (Some (foldl r_update (r_start c) ps)) True =
      (Some c', Some (SHA1 (concat ps)), code_num shaSuccess) \<and>
    SHA1Result (Some c') True = (Some c', Some (SHA1 (concat ps)), code_num shaSuccess)"
proof -
  have "r_holds (foldl r_update (r_start c) ps) ([] @ concat ps)"
    by (rule rfc.holds_concat [OF r_holds_start [OF assms(1)]]) (use assms(2) in simp_all)
  then show ?thesis using Result_SHA1 assms(2) by fastforce
qed

lemma rfc_sha1_correct_witness:
  "\<exists>c'. SHA1Result (Some (foldl r_update (r_start r_fresh) [[1, 2], [], [3]])) True =
      (Some c', Some (SHA1 (concat [[1, 2], [], [3]])), code_num shaSuccess) \<and>
    SHA1Result (Some c') True = (Some c', Some (SHA1 (concat [[1, 2], [], [3]])), code_num shaSuccess)"
  by (rule rfc_sha1_correct) (simp_all add: r_fresh_def)

text \<open>
  Input after a result is refused: \<open>SHA1Input\<close> returns \<open>shaStateError\<close>, and from then on
  neither another input nor a result succeeds, until the context is reset.
\<close>

theorem rfc_input_after_result:
  assumes "SHA1Result (Some c) True = (Some c', Some d, code_num shaSuccess)" "0 < len"
  shows "\<exists>c''. SHA1Input (Some c') (Some bs) len = (Some c'', code_num shaStateError) \<and>
    SHA1Input (Some c'') (Some bs') len = (Some c'', code_num shaStateError) \<and>
    SHA1Result (Some c'') True = (Some c'', None, code_num shaStateError) \<and>
    Corrupted (r_start c'') = 0 \<and> Computed (r_start c'') = 0"
proof -
  have "Computed c' \<noteq> 0"
    using assms(1) by (auto simp: SHA1Result_def code_num_def split: if_splits)
  with assms(2) show ?thesis
    by (simp add: SHA1Input_def SHA1Result_def code_num_def r_start_def SHA1Reset_def)
qed

lemma rfc_input_after_result_witness:
  "\<exists>c' c''. SHA1Result (Some (r_start r_fresh)) True = (Some c', Some (SHA1 []), code_num shaSuccess) \<and>
    SHA1Input (Some c') (Some [1]) 1 = (Some c'', code_num shaStateError) \<and>
    SHA1Input (Some c'') (Some [2]) 1 = (Some c'', code_num shaStateError) \<and>
    SHA1Result (Some c'') True = (Some c'', None, code_num shaStateError) \<and>
    Corrupted (r_start c'') = 0 \<and> Computed (r_start c'') = 0"
proof -
  have "r_holds (r_start r_fresh) []" by (rule r_holds_start) (simp add: r_fresh_def)
  from Result_SHA1 [OF this] obtain c'
    where "SHA1Result (Some (r_start r_fresh)) True = (Some c', Some (SHA1 []), code_num shaSuccess)"
    by auto
  with rfc_input_after_result [OF this, of 1 "[1]" "[2]"] show ?thesis by auto
qed

text \<open>
  The input that overflows the length counter marks the context as corrupted with the number
  of \<open>shaNull\<close>, and still returns \<open>shaSuccess\<close>; no call ever returns \<open>shaInputTooLong\<close>.
\<close>

lemma rfc_too_long:
  assumes "Length_Low c = 0xfffffff8" "Length_High c = 0xffffffff" "Computed c = 0" "Corrupted c = 0"
  shows "\<exists>c'. SHA1Input (Some c) (Some [b]) 1 = (Some c', code_num shaSuccess) \<and>
    SHA1Result (Some c') True = (Some c', None, code_num shaNull)"
proof -
  have "Corrupted (input_byte c b) = 1"
    using assms by (simp add: input_byte_def store_byte_def Let_def SHA1ProcessMessageBlock_def)
  then show ?thesis using assms by (simp add: SHA1Input_def SHA1Result_def code_num_def)
qed

end
