(* ===== verification/Sha1_Gladman.thy ===== *)
theory Sha1_Gladman
  imports Sha1_Rounds
begin

text \<open>
  \<^verbatim>\<open>sha1.c\<close> and \<^verbatim>\<open>libsha1.h\<close>: Brian Gladman's implementation, which swaps whole words after
  the bytes have been copied, unrolls its block function into cycles of five rounds, and pads
  by masking a word. The byte-order macros of the file select the little-endian branch.
\<close>

unbundle bit_operations_syntax

record sha1_ctx =
  gl_count :: "u32 \<times> u32"
  gl_hash :: "u32 list"
  gl_wbuf :: "u32 list"

definition SHA1_BLOCK_SIZE :: nat where "SHA1_BLOCK_SIZE = 64"
definition SHA1_MASK :: u32 where "SHA1_MASK = 63"

definition rotl32 :: "u32 \<Rightarrow> nat \<Rightarrow> u32" where
  "rotl32 x n = push_bit n x OR drop_bit (32 - n) x"

definition rotr32 :: "u32 \<Rightarrow> nat \<Rightarrow> u32" where
  "rotr32 x n = drop_bit n x OR push_bit (32 - n) x"

definition bswap_32 :: "u32 \<Rightarrow> u32" where
  "bswap_32 x = (rotr32 x 24 AND 0x00ff00ff) OR (rotr32 x 8 AND 0xff00ff00)"

definition bsw_32 :: "u32 list \<Rightarrow> nat \<Rightarrow> u32 list" where
  "bsw_32 p n = map bswap_32 (take n p) @ drop n p"

definition ch :: "u32 \<Rightarrow> u32 \<Rightarrow> u32 \<Rightarrow> u32" where "ch x y z = z XOR (x AND (y XOR z))"
definition parity :: "u32 \<Rightarrow> u32 \<Rightarrow> u32 \<Rightarrow> u32" where "parity x y z = x XOR y XOR z"
definition maj :: "u32 \<Rightarrow> u32 \<Rightarrow> u32 \<Rightarrow> u32" where "maj x y z = (x AND y) OR (z AND (x XOR y))"

section \<open>The block function\<close>

text \<open>
  A cycle is the function and constant of its phase (numbered 0 to 3), the five registers,
  and the word it takes; from word 16 on taking a word replaces it in the circular buffer.
\<close>

type_synonym cycle = "nat \<times> nat \<times> nat \<times> nat \<times> nat \<times> nat \<times> nat"

definition phase_f :: "nat \<Rightarrow> u32 \<Rightarrow> u32 \<Rightarrow> u32 \<Rightarrow> u32" where
  "phase_f p = (if p = 0 then ch else if p = 2 then maj else parity)"

definition phase_k :: "nat \<Rightarrow> u32" where
  "phase_k p = (if p = 0 then 0x5a827999 else if p = 1 then 0x6ed9eba1
     else if p = 2 then 0x8f1bbcdc else 0xca62c1d6)"

definition hf :: "u32 list \<Rightarrow> nat \<Rightarrow> u32 list" where
  "hf w i = (if i < 16 then w
     else w[i AND 15 := rotl32 (w ! ((i + 13) AND 15) XOR w ! ((i + 8) AND 15)
            XOR w ! ((i + 2) AND 15) XOR w ! (i AND 15)) 1])"

definition one_cycle :: "u32 list \<times> u32 list \<Rightarrow> cycle \<Rightarrow> u32 list \<times> u32 list" where
  "one_cycle s cyc = (case s of (w, v) \<Rightarrow> case cyc of (p, a, b, c, d, e, i) \<Rightarrow>
     let w = hf w i;
         v = v[e := v ! e + (rotr32 (v ! a) 27 + phase_f p (v ! b) (v ! c) (v ! d) + phase_k p
                             + w ! (i AND 15))];
         v = v[b := rotr32 (v ! b) 2]
     in (w, v))"

definition five_cycle :: "nat \<Rightarrow> nat \<Rightarrow> cycle list" where
  "five_cycle p i = [(p, 0, 1, 2, 3, 4, i), (p, 4, 0, 1, 2, 3, i + 1), (p, 3, 4, 0, 1, 2, i + 2),
     (p, 2, 3, 4, 0, 1, i + 3), (p, 1, 2, 3, 4, 0, i + 4)]"

definition cycles :: "cycle list" where
  "cycles = five_cycle 0 0 @ five_cycle 0 5 @ five_cycle 0 10 @
     [(0, 0, 1, 2, 3, 4, 15), (0, 4, 0, 1, 2, 3, 16), (0, 3, 4, 0, 1, 2, 17),
      (0, 2, 3, 4, 0, 1, 18), (0, 1, 2, 3, 4, 0, 19)] @
     five_cycle 1 20 @ five_cycle 1 25 @ five_cycle 1 30 @ five_cycle 1 35 @
     five_cycle 2 40 @ five_cycle 2 45 @ five_cycle 2 50 @ five_cycle 2 55 @
     five_cycle 3 60 @ five_cycle 3 65 @ five_cycle 3 70 @ five_cycle 3 75"

definition sha1_compile :: "sha1_ctx \<Rightarrow> sha1_ctx" where
  "sha1_compile c =
     (case foldl one_cycle (gl_wbuf c, gl_hash c) cycles of
        (w, v) \<Rightarrow> c\<lparr>gl_wbuf := w, gl_hash := map2 (+) (gl_hash c) v\<rparr>)"

section \<open>The context\<close>

definition sha1_begin :: "sha1_ctx \<Rightarrow> sha1_ctx" where
  "sha1_begin c = c\<lparr>gl_count := (0, 0),
     gl_hash := [0x67452301, 0xefcdab89, 0x98badcfe, 0x10325476, 0xc3d2e1f0]\<rparr>"

text \<open>Copying bytes into the buffer of words.\<close>

definition wbuf_copy :: "u32 list \<Rightarrow> nat \<Rightarrow> u8 list \<Rightarrow> u32 list" where
  "wbuf_copy w pos bs = mem_words (memcpy (words_mem w) pos bs)"

text \<open>One round of the loop of \<open>sha1_hash\<close>: a block is filled up and compiled.\<close>

definition hash_block :: "sha1_ctx \<Rightarrow> nat \<Rightarrow> u8 list \<Rightarrow> sha1_ctx" where
  "hash_block c pos bs = sha1_compile (c\<lparr>gl_wbuf := bsw_32 (wbuf_copy (gl_wbuf c) pos bs) 16\<rparr>)"

text \<open>The rounds after the first one, in which the position is 0, and the final copy.\<close>

function hash_rounds :: "sha1_ctx \<Rightarrow> u8 list \<Rightarrow> sha1_ctx" where
  "hash_rounds c bs =
     (if length bs \<ge> SHA1_BLOCK_SIZE then hash_rounds (hash_block c 0 (take 64 bs)) (drop 64 bs)
      else c\<lparr>gl_wbuf := wbuf_copy (gl_wbuf c) 0 bs\<rparr>)"
  by pat_completeness auto

termination hash_rounds
  by (relation "measure (\<lambda>(c, bs). length bs)") (auto simp: SHA1_BLOCK_SIZE_def)

declare hash_rounds.simps [simp del]

definition sha1_hash :: "u8 list \<Rightarrow> sha1_ctx \<Rightarrow> sha1_ctx" where
  "sha1_hash bs c =
     (let len = word_of_nat (length bs) :: u32;
          pos = unat (fst (gl_count c) AND SHA1_MASK);
          space = SHA1_BLOCK_SIZE - pos;
          c0 = fst (gl_count c) + len;
          c = c\<lparr>gl_count := (c0, if c0 < len then snd (gl_count c) + 1 else snd (gl_count c))\<rparr>
      in if length bs \<ge> space then hash_rounds (hash_block c pos (take space bs)) (drop space bs)
         else c\<lparr>gl_wbuf := wbuf_copy (gl_wbuf c) pos bs\<rparr>)"

definition zero_words :: "u32 list \<Rightarrow> nat \<Rightarrow> u32 list" where
  "zero_words w i = foldl (\<lambda>w j. w[j := 0]) w [i..<14]"

text \<open>
  The parts of \<open>sha1_end\<close>: the last words of the message swapped and padded, the block that is
  compiled where the length field does not fit (with the index of the next word), and the rest.
\<close>

definition pad_words :: "u32 list \<Rightarrow> nat \<Rightarrow> u32 list" where
  "pad_words w i =
     (let w = bsw_32 w ((i + 3) div 4);
          w = w[i div 4 := w ! (i div 4) AND push_bit (8 * (3 - (i AND 3))) 0xffffff80]
      in w[i div 4 := w ! (i div 4) OR push_bit (8 * (3 - (i AND 3))) 0x00000080])"

definition end_block :: "sha1_ctx \<Rightarrow> nat \<Rightarrow> sha1_ctx \<times> nat" where
  "end_block c i =
     (if i > SHA1_BLOCK_SIZE - 9 then
        (sha1_compile (if i < 60 then c\<lparr>gl_wbuf := (gl_wbuf c)[15 := 0]\<rparr> else c), 0)
      else (c, i div 4 + 1))"

definition sha1_end :: "sha1_ctx \<Rightarrow> sha1_ctx \<times> u8 list" where
  "sha1_end c =
     (let i = unat (fst (gl_count c) AND SHA1_MASK);
          (c, j) = end_block (c\<lparr>gl_wbuf := pad_words (gl_wbuf c) i\<rparr>) i;
          w = zero_words (gl_wbuf c) j;
          w = w[14 := push_bit 3 (snd (gl_count c)) OR drop_bit 29 (fst (gl_count c))];
          w = w[15 := push_bit 3 (fst (gl_count c))];
          c = sha1_compile (c\<lparr>gl_wbuf := w\<rparr>)
      in (c, map (\<lambda>i. ucast (drop_bit (8 * (3 - (i AND 3))) (gl_hash c ! (i div 4)))) [0..<20]))"

definition sha1_whole :: "sha1_ctx \<Rightarrow> u8 list \<Rightarrow> u8 list" where
  "sha1_whole cx bs = snd (sha1_end (sha1_hash bs (sha1_begin cx)))"

section \<open>Correctness of the block function\<close>

definition cycle_at :: "nat \<Rightarrow> cycle" where
  "cycle_at t = (t div 20, (4 * t) mod 5, (1 + 4 * t) mod 5, (2 + 4 * t) mod 5, (3 + 4 * t) mod 5,
     (4 + 4 * t) mod 5, t)"

lemma cycles_roles: "cycles = map cycle_at [0..<80]"
  by code_simp

lemma rot_eq: "rotl32 x 1 = rol32 1 x" "rotr32 x 27 = rol32 5 x" "rotr32 x 2 = rol32 30 x"
    "rotr32 x 24 = rol32 8 x" "rotr32 x 8 = rol32 24 x"
  by (simp_all add: rotl32_def rotr32_def rol32_def or.commute)

lemma hf_eq: "hf w t = circ_update t w"
  unfolding hf_def circ_update_def rot_eq nat_and_15 ..

lemma phase_eq:
  assumes "t < 80"
  shows "phase_f (t div 20) x y z = ft t x y z" "phase_k (t div 20) = Kt t"
proof -
  have f: "ch x y z = Ch x y z" "maj x y z = Maj x y z" "parity x y z = Parity x y z"
    by (simp_all only: ch_def maj_def parity_def Parity_def bit_tricks)
  have "t div 20 = (if t < 20 then 0 else if t < 40 then 1 else if t < 60 then 2 else 3)"
    using assms by (auto; arith)
  then show "phase_f (t div 20) x y z = ft t x y z" "phase_k (t div 20) = Kt t"
    by (simp_all add: phase_f_def ft_def f phase_k_def Kt_def)
qed

definition gl_sim :: "nat \<Rightarrow> u32 list \<times> u32 list \<Rightarrow> u32 list \<times> hash5 \<Rightarrow> bool" where
  "gl_sim t s x \<longleftrightarrow> fst s = fst x \<and> length (snd s) = 5 \<and> roles t (snd s) = snd x"

lemma one_cycle_sim:
  assumes "gl_sim t s x" "t < 80"
  shows "gl_sim (Suc t) (one_cycle s (cycle_at t)) (circ_round x t)"
proof -
  obtain w v where s: "s = (w, v)" by (rule prod.exhaust)
  obtain a b c d e where x: "x = (w, a, b, c, d, e)"
    using assms(1) by (cases x) (auto simp: gl_sim_def s)
  have v: "length v = 5" "roles t v = (a, b, c, d, e)" using assms(1) by (simp_all add: gl_sim_def s x)
  note regs = call_registers [OF v]
  let ?w = "circ_update t w"
  let ?x = "e + (rol32 5 a + ft t b c d + Kt t + ?w ! (t mod 16))"
  have "one_cycle s (cycle_at t) =
      (?w, v[(4 + 4 * t) mod 5 := ?x, (1 + 4 * t) mod 5 := rol32 30 b])"
    unfolding one_cycle_def s cycle_at_def split Let_def hf_eq regs rot_eq nat_and_15
      phase_eq [OF assms(2)]
    using regs(2,6) by simp
  moreover have "roles (Suc t) (v[(4 + 4 * t) mod 5 := ?x, (1 + 4 * t) mod 5 := rol32 30 b]) =
      (?x, a, rol32 30 b, c, d)"
    using roles_step [OF v] by blast
  moreover have "circ_round x t = (?w, ?x, a, rol32 30 b, c, d)"
    unfolding x circ_round_eq by (simp add: sha_round_def ac_simps)
  ultimately show ?thesis using v(1) by (simp add: gl_sim_def)
qed

lemma cycles_sim:
  assumes "length v = 5" "t \<le> 80"
  shows "gl_sim t (foldl one_cycle (w, v) (map cycle_at [0..<t]))
    (foldl circ_round (w, hash_of v) [0..<t])"
  using assms(2)
proof (induction t)
  case (Suc t)
  then show ?case using one_cycle_sim by simp
qed (simp add: gl_sim_def roles_0 assms(1))

lemma compile_compress:
  assumes "length (gl_hash c) = 5" "length (gl_wbuf c) = 16"
  shows "hash_of (gl_hash (sha1_compile c)) = sha_compress (hash_of (gl_hash c)) (gl_wbuf c)"
    "length (gl_hash (sha1_compile c)) = 5" "length (gl_wbuf (sha1_compile c)) = 16"
    "gl_count (sha1_compile c) = gl_count c"
proof -
  obtain w v where f: "foldl one_cycle (gl_wbuf c, gl_hash c) cycles = (w, v)" by (rule prod.exhaust)
  have "gl_sim 80 (w, v) (foldl circ_round (gl_wbuf c, hash_of (gl_hash c)) [0..<80])"
    using cycles_sim [of "gl_hash c" 80 "gl_wbuf c"] assms(1) f by (simp add: cycles_roles)
  then have r: "length v = 5" "hash_of v = snd (foldl circ_round (gl_wbuf c, hash_of (gl_hash c)) [0..<80])"
    "w = fst (foldl circ_round (gl_wbuf c, hash_of (gl_hash c)) [0..<80])"
    by (simp_all add: gl_sim_def roles_0)
  show "hash_of (gl_hash (sha1_compile c)) = sha_compress (hash_of (gl_hash c)) (gl_wbuf c)"
    "length (gl_hash (sha1_compile c)) = 5" "length (gl_wbuf (sha1_compile c)) = 16"
    "gl_count (sha1_compile c) = gl_count c"
    using circ_compress [OF assms(2), of "hash_of (gl_hash c)"]
      circ_length [OF assms(2), of 80 "hash_of (gl_hash c)"] r assms(1)
    by (simp_all add: sha1_compile_def f map2_add5)
qed

section \<open>Correctness of the context\<close>

definition gl_rep :: "sha1_ctx \<Rightarrow> absorber \<Rightarrow> bool" where
  "gl_rep c x \<longleftrightarrow> length (gl_hash c) = 5 \<and> length (gl_wbuf c) = 16 \<and> hash_of (gl_hash c) = fst x \<and>
     starts (words_mem (gl_wbuf c)) (snd x)"

lemma bswap_eq: "bswap_32 x = bswap x"
  using bswap_forms(1) [of x] by (simp add: bswap_32_def rot_eq or.commute)

lemma bsw_nth:
  "i < length p \<Longrightarrow> bsw_32 p n ! i = (if i < n then bswap (p ! i) else p ! i)"
  "length (bsw_32 p n) = length p"
  by (auto simp: bsw_32_def nth_append bswap_eq)

lemma bsw_all: "length p \<le> n \<Longrightarrow> bsw_32 p n = map bswap p"
  by (simp add: bsw_32_def bswap_eq)

lemma length_memcpy: "off + length bs \<le> length mem \<Longrightarrow> length (memcpy mem off bs) = length mem"
  by (simp add: memcpy_def)

lemma hash_block_compress:
  assumes "gl_rep c (h, buf)" "length buf + length bs = 64"
  shows "gl_rep (hash_block c (length buf) bs) (sha_compress h (block_words (buf @ bs)), [])"
    "gl_count (hash_block c (length buf) bs) = gl_count c"
proof -
  have r: "length (gl_hash c) = 5" "length (gl_wbuf c) = 16" "hash_of (gl_hash c) = h"
    "starts (words_mem (gl_wbuf c)) buf" using assms(1) by (simp_all add: gl_rep_def)
  have "memcpy (words_mem (gl_wbuf c)) (length buf) bs = buf @ bs"
    by (rule starts_fill [OF r(4) assms(2)])
  then have b: "bsw_32 (wbuf_copy (gl_wbuf c) (length buf) bs) 16 = block_words (buf @ bs)"
    by (simp add: wbuf_copy_def bsw_all swapped_words)
  show "gl_rep (hash_block c (length buf) bs) (sha_compress h (block_words (buf @ bs)), [])"
    "gl_count (hash_block c (length buf) bs) = gl_count c"
    using compile_compress [of "c\<lparr>gl_wbuf := block_words (buf @ bs)\<rparr>"] r
    by (simp_all add: hash_block_def b gl_rep_def starts_Nil)
qed

lemma wbuf_copy_rep:
  assumes "gl_rep c (h, buf)" "length buf + length bs < 64"
  shows "gl_rep (c\<lparr>gl_wbuf := wbuf_copy (gl_wbuf c) (length buf) bs\<rparr>) (h, buf @ bs)"
proof -
  have r: "length (gl_wbuf c) = 16" "starts (words_mem (gl_wbuf c)) buf"
    using assms(1) by (simp_all add: gl_rep_def)
  show ?thesis using assms(1) starts_memcpy [OF r(2) assms(2)] r(1) assms(2)
    by (simp add: gl_rep_def wbuf_copy_def words_mem_inverse length_memcpy)
qed

lemma hash_rounds_absorb:
  assumes "gl_rep c (h, [])"
  shows "gl_rep (hash_rounds c bs) (absorb (h, []) bs) \<and> gl_count (hash_rounds c bs) = gl_count c"
  using assms
proof (induction c bs arbitrary: h rule: hash_rounds.induct)
  case (1 c bs)
  show ?case
  proof (cases "length bs \<ge> SHA1_BLOCK_SIZE")
    case False
    with "1.prems" wbuf_copy_rep [of c h "[]" bs] show ?thesis
      by (simp add: hash_rounds.simps [of c bs] SHA1_BLOCK_SIZE_def absorb_short)
  next
    case True
    with hash_block_compress [OF "1.prems", of "take 64 bs"]
    have "gl_rep (hash_block c 0 (take 64 bs)) (sha_compress h (block_words (take 64 bs)), [])"
      "gl_count (hash_block c 0 (take 64 bs)) = gl_count c" by (simp_all add: SHA1_BLOCK_SIZE_def)
    with "1.IH" [OF True this(1)] True absorb_block [of "[]" bs h] show ?thesis
      by (simp add: hash_rounds.simps [of c bs] SHA1_BLOCK_SIZE_def)
  qed
qed

text \<open>The counter: the length of the message in bytes, as a low and a high word.\<close>

definition bytes_of :: "nat \<Rightarrow> u32 \<times> u32" where
  "bytes_of n = (word_of_nat n, word_of_nat (n div 2 ^ 32))"

lemma count_pos: "unat (word_of_nat n AND SHA1_MASK) = n mod 64"
proof -
  have m: "SHA1_MASK = mask 6" by (simp add: SHA1_MASK_def mask_eq_exp_minus_1)
  have "unat (word_of_nat n AND SHA1_MASK) = n mod 2 ^ 32 mod 64"
    unfolding m take_bit_eq_mask [symmetric] unsigned_take_bit_eq unat_u32
    by (simp add: take_bit_eq_mod)
  then show ?thesis by (simp add: mod_mod_cancel)
qed

definition gl_holds :: "sha1_ctx \<Rightarrow> u8 list \<Rightarrow> bool" where
  "gl_holds c m \<longleftrightarrow> gl_rep c (absorb (H0, []) m) \<and> gl_count c = bytes_of (length m)"

lemma gl_holds_begin: "length (gl_wbuf c) = 16 \<Longrightarrow> gl_holds (sha1_begin c) []"
  by (simp add: gl_holds_def sha1_begin_def gl_rep_def hash_of_def H0_def starts_Nil bytes_of_def)

lemma gl_holds_hash:
  assumes "gl_holds c m" "length bs < 2 ^ 32"
  shows "gl_holds (sha1_hash bs c) (m @ bs)"
proof -
  let ?n = "length m" and ?l = "length bs"
  obtain h buf where x: "absorb (H0, []) m = (h, buf)" by (rule prod.exhaust)
  have r: "gl_rep c (h, buf)" "gl_count c = bytes_of ?n"
    using assms(1) by (simp_all add: gl_holds_def x)
  have b: "length buf = ?n mod 64" using absorb_length [of "(H0, [])" m] by (simp add: x)
  have l: "(word_of_nat ?n + word_of_nat ?l :: u32) = word_of_nat (?n + ?l)" by simp
  have z: "?l div 2 ^ 32 = 0" using assms(2) by simp
  let ?c = "c\<lparr>gl_count := bytes_of (?n + ?l)\<rparr>"
  have e: "sha1_hash bs c = (if ?l \<ge> 64 - length buf
      then hash_rounds (hash_block ?c (length buf) (take (64 - length buf) bs))
             (drop (64 - length buf) bs)
      else ?c\<lparr>gl_wbuf := wbuf_copy (gl_wbuf ?c) (length buf) bs\<rparr>)"
    unfolding sha1_hash_def Let_def r(2) bytes_of_def fst_conv snd_conv l count_pos carry_word
      SHA1_BLOCK_SIZE_def b z by simp
  have rc: "gl_rep ?c (h, buf)" using r(1) by (simp add: gl_rep_def)
  have "gl_rep (sha1_hash bs c) (absorb (h, buf) bs) \<and> gl_count (sha1_hash bs c) = bytes_of (?n + ?l)"
  proof (cases "?l \<ge> 64 - length buf")
    case False
    with wbuf_copy_rep [OF rc, of bs] show ?thesis by (simp add: e absorb_short)
  next
    case True
    let ?i = "64 - length buf"
    have lb: "length buf < 64" by (simp add: b)
    with True have "length buf + length (take ?i bs) = 64" by simp
    note hb = hash_block_compress [OF rc this]
    have "gl_rep (sha1_hash bs c)
        (absorb (sha_compress h (block_words (buf @ take ?i bs)), []) (drop ?i bs)) \<and>
      gl_count (sha1_hash bs c) = bytes_of (?n + ?l)"
      using hash_rounds_absorb [OF hb(1), of "drop ?i bs"] hb(2) True by (simp add: e)
    then show ?thesis using absorb_block [OF lb, of bs h] True by simp
  qed
  then show ?thesis by (simp add: gl_holds_def x)
qed

section \<open>The end of the message\<close>

text \<open>
  The masked word: the message bytes below position \<open>i\<close>, then a byte \<open>0x80\<close> and zeros,
  whatever the rest of the word held. Where \<open>i\<close> is the first byte of the word, the word has
  not been swapped, but only its top bit survives the mask, and that bit is set anyway.
\<close>

definition padded :: "u8 list \<Rightarrow> u8 list" where
  "padded buf = buf @ 0x80 # replicate (63 - length buf) 0"

lemma padded_nth:
  "j < 64 \<Longrightarrow> length buf < 64 \<Longrightarrow>
   padded buf ! j = (if j < length buf then buf ! j else if j = length buf then 0x80 else 0)"
  by (auto simp: padded_def nth_append nth_Cons')

lemma mask_ff80_bits:
  "bit (0xffffff80 :: u32) n \<longleftrightarrow> 7 \<le> n \<and> n < 32" "bit (0x80 :: u32) n \<longleftrightarrow> n = 7"
  "bit (0x80 :: u8) n \<longleftrightarrow> n = 7"
proof -
  have e: "(\<forall>n < 32. bit (0xffffff80 :: u32) n \<longleftrightarrow> 7 \<le> n) \<and> (\<forall>n < 32. bit (0x80 :: u32) n \<longleftrightarrow> n = 7)
    \<and> (\<forall>n < 8. bit (0x80 :: u8) n \<longleftrightarrow> n = 7)"
    by (simp add: All_less_Suc numeral_eq_Suc del: of_nat_Suc)
  have f: "\<not> bit (w :: u32) n" if "\<not> n < 32" for w using that u32_bitD by blast
  have g: "\<not> bit (w :: u8) n" if "\<not> n < 8" for w using that u8_bitD by blast
  show "bit (0xffffff80 :: u32) n \<longleftrightarrow> 7 \<le> n \<and> n < 32" "bit (0x80 :: u32) n \<longleftrightarrow> n = 7"
    using e f by (cases "n < 32"; auto)+
  show "bit (0x80 :: u8) n \<longleftrightarrow> n = 7" using e g by (cases "n < 8") auto
qed

lemma masked_word:
  fixes x :: u32 and b0 b1 b2 :: u8
  defines "m s y \<equiv> (y AND push_bit (8 * (3 - s)) 0xffffff80) OR push_bit (8 * (3 - s)) 0x00000080"
  shows "m 0 x = be_word [0x80, 0, 0, 0] 0"
    "m 1 (be_word [b0, u, v, w] 0) = be_word [b0, 0x80, 0, 0] 0"
    "m 2 (be_word [b0, b1, v, w] 0) = be_word [b0, b1, 0x80, 0] 0"
    "m 3 (be_word [b0, b1, b2, w] 0) = be_word [b0, b1, b2, 0x80] 0"
proof -
  have c: "bit (ucast (v :: u8) :: u32) k \<longleftrightarrow> k < 8 \<and> bit v k" for v k
    by (auto simp: bit_simps dest: u8_bitD)
  have "bit (m 0 x) n = bit (be_word [0x80, 0, 0, 0] 0) n \<and>
    bit (m 1 (be_word [b0, u, v, w] 0)) n = bit (be_word [b0, 0x80, 0, 0] 0) n \<and>
    bit (m 2 (be_word [b0, b1, v, w] 0)) n = bit (be_word [b0, b1, 0x80, 0] 0) n \<and>
    bit (m 3 (be_word [b0, b1, b2, w] 0)) n = bit (be_word [b0, b1, b2, 0x80] 0) n" for n
  proof -
    consider "n < 8" | "8 \<le> n" "n < 16" | "16 \<le> n" "n < 24" | "24 \<le> n" "n < 32" | "32 \<le> n"
      by linarith
    then show ?thesis
      by cases (auto simp: m_def be_word_def bit_simps c mask_ff80_bits simp del: bit_numeral_word_iff
        push_bit_numeral dest: u32_bitD u8_bitD)
  qed
  then show "m 0 x = be_word [0x80, 0, 0, 0] 0"
    "m 1 (be_word [b0, u, v, w] 0) = be_word [b0, 0x80, 0, 0] 0"
    "m 2 (be_word [b0, b1, v, w] 0) = be_word [b0, b1, 0x80, 0] 0"
    "m 3 (be_word [b0, b1, b2, w] 0) = be_word [b0, b1, b2, 0x80] 0"
    by (auto intro: bit_word_eqI)
qed

lemma be_word_four:
  "be_word xs k = be_word [xs ! (4 * k), xs ! (4 * k + 1), xs ! (4 * k + 2), xs ! (4 * k + 3)] 0"
  by (simp add: be_word_def)

lemma be_word_cong:
  assumes "\<And>j. j < 4 \<Longrightarrow> xs ! (4 * k + j) = ys ! (4 * k + j)"
  shows "be_word xs k = be_word ys k"
  using assms [of 0] assms [of 1] assms [of 2] assms [of 3] by (simp add: be_word_def)

lemma pad_words_padded:
  assumes "length w = 16" "starts (words_mem w) buf"
  shows "length (pad_words w (length buf)) = 16"
    "k \<le> length buf div 4 \<Longrightarrow> pad_words w (length buf) ! k = be_word (padded buf) k"
proof -
  define i where "i = length buf"
  define s where "s = 8 * (3 - i mod 4)"
  define w1 where "w1 = bsw_32 w ((i + 3) div 4)"
  define w2 where "w2 = w1[i div 4 := w1 ! (i div 4) AND push_bit s 0xffffff80]"
  define w3 where "w3 = w2[i div 4 := w2 ! (i div 4) OR push_bit s 0x00000080]"
  have e: "pad_words w (length buf) = w3"
    by (simp only: pad_words_def w3_def w2_def w1_def s_def i_def Let_def nat_and_3)
  have i: "i < 64" "take i (words_mem w) = buf" using assms(2) by (simp_all add: starts_def i_def)
  have b: "words_mem w ! j = padded buf ! j" if "j < i" for j
  proof -
    have "words_mem w ! j = take i (words_mem w) ! j" using that by simp
    with that i show ?thesis by (simp add: padded_nth i_def)
  qed
  have w1: "w1 ! k = be_word (words_mem w) k" if "k < (i + 3) div 4" for k
    using that i(1) ld32_words_mem [of k w] bswap_ld32 [of "words_mem w" k]
    by (simp add: w1_def bsw_nth assms(1))
  have l: "length w1 = 16" "i div 4 < 16" using i(1) by (simp_all add: w1_def bsw_nth assms(1))
  show "length (pad_words w (length buf)) = 16" by (simp add: e w3_def w2_def l)
  assume "k \<le> length buf div 4"
  then have k: "k \<le> i div 4" by (simp only: i_def)
  have "w3 ! k = be_word (padded buf) k"
  proof (cases "k < i div 4")
    case True
    then have "w3 ! k = be_word (words_mem w) k" by (simp add: w3_def w2_def w1)
    also have "\<dots> = be_word (padded buf) k" using True by (intro be_word_cong b) simp
    finally show ?thesis .
  next
    case False
    with k have ke: "k = i div 4" by simp
    have p: "padded buf ! (4 * k + j) =
        (if j < i mod 4 then words_mem w ! (4 * k + j) else if j = i mod 4 then 0x80 else 0)"
      if "j < 4" for j
    proof -
      have "i = 4 * k + i mod 4" by (simp add: ke)
      then have "4 * k + j < i \<longleftrightarrow> j < i mod 4" "4 * k + j = i \<longleftrightarrow> j = i mod 4" "4 * k + j < 64"
        using that i(1) l(2) ke by linarith+
      with padded_nth [of "4 * k + j" buf] b [of "4 * k + j"] i show ?thesis by (simp add: i_def)
    qed
    note ps = p [of 0] p [of 1] p [of 2] p [of 3]
    have w3: "w3 ! k = (w1 ! k AND push_bit s 0xffffff80) OR push_bit s 0x00000080"
      by (simp add: w3_def w2_def ke l)
    let ?b = "\<lambda>j. words_mem w ! (4 * k + j)"
    have W: "w1 ! k = be_word [?b 0, ?b 1, ?b 2, ?b 3] 0" if "i mod 4 \<noteq> 0"
    proof -
      have "k < (i + 3) div 4" using that unfolding ke by presburger
      then show ?thesis using w1 [of k] be_word_four [of "words_mem w" k] by simp
    qed
    have P: "be_word (padded buf) k = be_word [padded buf ! (4 * k + 0), padded buf ! (4 * k + 1),
        padded buf ! (4 * k + 2), padded buf ! (4 * k + 3)] 0"
      using be_word_four [of "padded buf" k] by simp
    have "i mod 4 < 4" by simp
    then consider "i mod 4 = 0" | "i mod 4 = 1" | "i mod 4 = 2" | "i mod 4 = 3" by linarith
    then show ?thesis
    proof cases
      case 1
      have "be_word (padded buf) k = be_word [0x80, 0, 0, 0] 0" unfolding P using ps by (simp add: 1)
      then show ?thesis unfolding w3 s_def 1 using masked_word(1) by (simp only:)
    next
      case 2
      then have "be_word (padded buf) k = be_word [?b 0, 0x80, 0, 0] 0" unfolding P using ps by simp
      moreover have "w1 ! k = be_word [?b 0, ?b 1, ?b 2, ?b 3] 0" by (rule W) (simp add: 2)
      ultimately show ?thesis unfolding w3 s_def 2 using masked_word(2) by (simp only:)
    next
      case 3
      then have "be_word (padded buf) k = be_word [?b 0, ?b 1, 0x80, 0] 0" unfolding P using ps by simp
      moreover have "w1 ! k = be_word [?b 0, ?b 1, ?b 2, ?b 3] 0" by (rule W) (simp add: 3)
      ultimately show ?thesis unfolding w3 s_def 3 using masked_word(3) by (simp only:)
    next
      case 4
      then have "be_word (padded buf) k = be_word [?b 0, ?b 1, ?b 2, 0x80] 0" unfolding P using ps by simp
      moreover have "w1 ! k = be_word [?b 0, ?b 1, ?b 2, ?b 3] 0" by (rule W) (simp add: 4)
      ultimately show ?thesis unfolding w3 s_def 4 using masked_word(4) by (simp only:)
    qed
  qed
  then show "pad_words w (length buf) ! k = be_word (padded buf) k" by (simp only: e)
qed

lemma zero_words_nth:
  "length (zero_words w i) = length w"
  "k < length w \<Longrightarrow> zero_words w i ! k = (if i \<le> k \<and> k < 14 then 0 else w ! k)"
proof -
  have "length (foldl (\<lambda>w j. w[j := 0]) w [i..<n]) = length w \<and> (k < length w \<longrightarrow>
      foldl (\<lambda>w j. w[j := 0]) w [i..<n] ! k = (if i \<le> k \<and> k < n then 0 else w ! k))" for n k
    by (induction n) (auto simp: nth_list_update less_Suc_eq)
  then show "length (zero_words w i) = length w"
    "k < length w \<Longrightarrow> zero_words w i ! k = (if i \<le> k \<and> k < 14 then 0 else w ! k)"
    unfolding zero_words_def by blast+
qed

lemma padded_rest:
  assumes "length buf < 64" "length buf div 4 < k" "k < 16"
  shows "be_word (padded buf) k = 0"
proof -
  have "padded buf ! (4 * k + j) = 0" if "j < 4" for j
  proof -
    have "length buf < 4 * k" "4 * k + j < 64" using assms(2,3) that by linarith+
    then show ?thesis using assms(1) by (simp add: padded_nth)
  qed
  from this [of 0] this [of 1] this [of 2] this [of 3] show ?thesis by (simp add: be_word_def)
qed

lemma be_word_bytes_be: "be_word (bytes_be w) 0 = w"
proof -
  have "bswap (bswap w) = w" by (rule bit_word_eqI) (auto simp: bit_bswap)
  then show ?thesis by (simp flip: bytes_le_bswap add: bswap_def [of "bswap w", symmetric])
qed

text \<open>The block of the length field.\<close>

lemma length_block_nth:
  assumes "length b = 56"
  shows "block_words (b @ bytes_be u @ bytes_be v) =
    map (be_word b) [0..<14] @ [u, v]"
proof -
  let ?x = "b @ bytes_be u @ bytes_be v"
  have "be_word ?x k = be_word b k" if "k < 14" for k
    using that assms by (intro be_word_cong) (simp add: nth_append)
  moreover have "be_word ?x 14 = be_word (bytes_be u) 0" "be_word ?x 15 = be_word (bytes_be v) 0"
    using assms by (simp_all add: be_word_def nth_append numeral_2_eq_2)
  moreover have "[0..<16] = [0..<14] @ [14, 15 :: nat]" by (simp add: upt_rec)
  ultimately show ?thesis by (simp add: block_words_def be_word_bytes_be del: upt_rec_numeral)
qed

lemma length_words:
  "push_bit 3 (snd (bytes_of n)) OR drop_bit 29 (fst (bytes_of n)) = snd (count_of n)"
  "push_bit 3 (fst (bytes_of n)) = fst (count_of n)"
proof -
  have d: "n div 2 ^ 32 = drop_bit 32 n" "8 * n div 2 ^ 32 = drop_bit 29 n"
    by (simp_all add: drop_bit_eq_div)
  show "push_bit 3 (snd (bytes_of n)) OR drop_bit 29 (fst (bytes_of n)) = snd (count_of n)"
    unfolding bytes_of_def count_of_def snd_conv fst_conv d
    by (rule bit_word_eqI) (auto simp: bit_simps bit_of_nat_iff_bit)
  show "push_bit 3 (fst (bytes_of n)) = fst (count_of n)"
    by (simp add: bytes_of_def count_of_def push_bit_eq_mult)
qed

lemma digest_bytes_loop:
  assumes "length h = 5"
  shows "map (\<lambda>i. ucast (drop_bit (8 * (3 - (i AND 3))) (h ! (i div 4)))) [0..<20] =
    digest_bytes (hash_of h)"
proof -
  have u: "[0..<20] = [0, 1, 2, 3, 4, 5, 6, 7, 8, 9, 10, 11, 12, 13, 14, 15, 16, 17, 18, 19 :: nat]"
    by (simp add: upt_rec)
  show ?thesis unfolding u nat_and_3
    by (simp add: digest_bytes_def hash_of_def bytes_be_def)
qed

text \<open>The block before the one of the length field, where there is one.\<close>

lemma end_block_front:
  assumes "gl_rep c (h, buf)"
  defines "f \<equiv> 0x80 # replicate ((119 - length buf) mod 64) (0 :: u8)"
  shows "\<exists>g b. absorb (h, buf) f = (g, b) \<and> length b = 56 \<and>
    (case end_block (c\<lparr>gl_wbuf := pad_words (gl_wbuf c) (length buf)\<rparr>) (length buf) of (c', j) \<Rightarrow>
       length (gl_hash c') = 5 \<and> hash_of (gl_hash c') = g \<and> length (gl_wbuf c') = 16 \<and>
       gl_count c' = gl_count c \<and> take 14 (zero_words (gl_wbuf c') j) = map (be_word b) [0..<14])"
proof -
  have r: "length (gl_hash c) = 5" "hash_of (gl_hash c) = h" "length (gl_wbuf c) = 16"
    "starts (words_mem (gl_wbuf c)) buf" "length buf < 64"
    using assms(1) by (auto simp: gl_rep_def starts_def)
  let ?w = "pad_words (gl_wbuf c) (length buf)" and ?c = "c\<lparr>gl_wbuf := pad_words (gl_wbuf c) (length buf)\<rparr>"
  note w = pad_words_padded [OF r(3,4)]
  show ?thesis
  proof (cases "length buf > 55")
    case False
    let ?b = "buf @ f"
    have f: "f = 0x80 # replicate (55 - length buf) 0" 
      using False zeros_mod_119 [OF r(5)] by (simp add: f_def)
    then have l: "length ?b = 56" using False by simp
    have "take 14 (zero_words ?w (length buf div 4 + 1)) ! k = be_word ?b k" if "k < 14" for k
    proof -
      have "be_word (padded buf) k = be_word ?b k"
        using that False by (intro be_word_cong) (auto simp: padded_def f nth_append nth_Cons')
      with that w False padded_rest [OF r(5), of k] show ?thesis by (simp add: zero_words_nth)
    qed
    then have "take 14 (zero_words ?w (length buf div 4 + 1)) = map (be_word ?b) [0..<14]"
      using w(1) by (intro nth_equalityI) (simp_all add: zero_words_nth)
    moreover have "absorb (h, buf) f = (h, ?b)" using l False by (intro absorb_short) simp
    ultimately show ?thesis using False l r w(1)
      by (simp add: end_block_def SHA1_BLOCK_SIZE_def del: split_paired_Ex)
  next
    case True
    let ?c' = "if length buf < 60 then ?c\<lparr>gl_wbuf := ?w[15 := 0]\<rparr> else ?c"
    let ?z = "replicate 56 (0 :: u8)" and ?g = "sha_compress h (block_words (padded buf))"
    have n: "gl_wbuf ?c' ! k = be_word (padded buf) k" if "k < 16" for k
    proof (cases "k \<le> length buf div 4")
      case True
      moreover have "k \<noteq> 15" if "length buf < 60" using True that by linarith
      ultimately show ?thesis using w by simp
    next
      case False
      then have "k = 15" "length buf < 60" using \<open>length buf > 55\<close> that by linarith+
      then show ?thesis using w(1) padded_rest [OF r(5), of 15] False by simp
    qed
    have lc: "length (gl_wbuf ?c') = 16" using w(1) by simp
    have b: "gl_wbuf ?c' = block_words (padded buf)"
    proof (rule nth_equalityI)
      fix i
      assume "i < length (gl_wbuf ?c')"
      then have i: "i < 16" by (simp only: lc)
      then show "gl_wbuf ?c' ! i = block_words (padded buf) ! i"
        unfolding n [OF i] by (simp add: block_words_def del: upt_rec_numeral)
    qed (simp only: lc length_mem_words)
    have c': "gl_hash ?c' = gl_hash c" "gl_count ?c' = gl_count c" by simp_all
    have f: "f = 0x80 # replicate (63 - length buf) 0 @ ?z"
    proof -
      have "(119 - length buf) mod 64 = (63 - length buf) + 56" 
        using True r(5) zeros_mod_119 [OF r(5)] by simp
      then show ?thesis by (simp only: f_def replicate_add)
    qed
    have "absorb (h, buf) (0x80 # replicate (63 - length buf) 0) = (?g, [])"
      using absorb_fill [of buf "0x80 # replicate (63 - length buf) 0" h] r(5) by (simp add: padded_def)
    then have "absorb (h, buf) f = (?g, ?z)"
      unfolding f using absorb_short [of "[]" ?z ?g]
      by (simp only: append_Cons [symmetric] foldl_append) simp
    moreover have "be_word ?z k = 0" if "k < 14" for k using that by (simp add: be_word_def)
    moreover have "take 14 (zero_words v 0) = map (be_word ?z) [0..<14]" if "length v = 16" for v
      using that calculation(2) by (intro nth_equalityI) (simp_all add: zero_words_nth)
    moreover have "end_block ?c (length buf) = (sha1_compile ?c', 0)"
      using True by (simp add: end_block_def SHA1_BLOCK_SIZE_def)
    moreover note lc
    ultimately show ?thesis
      using compile_compress [of ?c'] r(1,2) unfolding b c' by (simp del: split_paired_Ex)
  qed
qed

lemma take_14: "length w = 16 \<Longrightarrow> w[14 := u, 15 := v] = take 14 w @ [u, v]"
  by (rule nth_equalityI) (auto simp: nth_list_update nth_append less_Suc_eq numeral_eq_Suc)

lemma sha1_end_SHA1:
  assumes "gl_holds c m" "length m < 2 ^ 61"
  shows "\<exists>c'. sha1_end c = (c', SHA1 m) \<and> length (gl_wbuf c') = 16"
proof -
  let ?n = "length m"
  obtain h buf where x: "absorb (H0, []) m = (h, buf)" by (rule prod.exhaust)
  have r: "gl_rep c (h, buf)" "gl_count c = bytes_of ?n" using assms(1) by (simp_all add: gl_holds_def x)
  have b: "?n mod 64 = length buf" using absorb_length [of "(H0, [])" m] by (simp add: x)
  have p: "unat (fst (gl_count c) AND SHA1_MASK) = length buf"
    unfolding r(2) bytes_of_def fst_conv count_pos by (rule b)
  let ?c = "c\<lparr>gl_wbuf := pad_words (gl_wbuf c) (length buf)\<rparr>"
  obtain c' j where e: "end_block ?c (length buf) = (c', j)" by (rule prod.exhaust)
  obtain g b56 where f: "absorb (absorb (H0, []) m) (pad_front ?n) = (g, b56)" "length b56 = 56"
      "length (gl_hash c') = 5" "hash_of (gl_hash c') = g" "length (gl_wbuf c') = 16"
      "gl_count c' = bytes_of ?n" "take 14 (zero_words (gl_wbuf c') j) = map (be_word b56) [0..<14]"
    using end_block_front [OF r(1)] unfolding e pad_front_def b x split r(2) by blast
  let ?w = "block_words (b56 @ be64 (word_of_nat (8 * ?n)))"
  have w: "(zero_words (gl_wbuf c') j)[14 := snd (count_of ?n), 15 := fst (count_of ?n)] = ?w"
    unfolding count_be64 [OF assms(2), symmetric] length_block_nth [OF f(2)] f(7) [symmetric]
    by (rule take_14) (simp add: zero_words_nth f(5))
  let ?f = "sha1_compile (c'\<lparr>gl_wbuf := ?w\<rparr>)"
  have "length (gl_hash ?f) = 5"
    using compile_compress(2) [of "c'\<lparr>gl_wbuf := ?w\<rparr>"] f(3) by simp
  then have "sha1_end c = (?f, digest_bytes (hash_of (gl_hash ?f)))"
    unfolding sha1_end_def Let_def p e split f(6) length_words w by (simp only: digest_bytes_loop)
  moreover have "hash_of (gl_hash ?f) = sha_compress g ?w"
    using compile_compress(1) [of "c'\<lparr>gl_wbuf := ?w\<rparr>"] f(3,4) by simp
  moreover have "length (gl_wbuf ?f) = 16"
    using compile_compress(3) [of "c'\<lparr>gl_wbuf := ?w\<rparr>"] f(3) by simp
  ultimately show ?thesis using SHA1_from_front(2) [OF f(1)] by simp
qed

text \<open>A context in memory that no one has initialised.\<close>

definition gl_fresh :: sha1_ctx where
  "gl_fresh = \<lparr>gl_count = (7, 8), gl_hash = replicate 5 0, gl_wbuf = replicate 16 0xAAAAAAAA\<rparr>"

definition gl_digest :: "sha1_ctx \<Rightarrow> fault + u8 list" where
  "gl_digest c = Inr (snd (sha1_end c))"

interpretation gladman: incremental_hash "sha1_begin gl_fresh" "\<lambda>c bs. sha1_hash bs c" gl_digest
  gl_holds "2 ^ 61" "2 ^ 32"
proof
  show "gl_holds (sha1_begin gl_fresh) []" by (rule gl_holds_begin) (simp add: gl_fresh_def)
  show "gl_holds c m \<Longrightarrow> length bs < 2 ^ 32 \<Longrightarrow> gl_holds (sha1_hash bs c) (m @ bs)" for c m bs
    by (rule gl_holds_hash)
  show "gl_holds c m \<Longrightarrow> length m < 2 ^ 61 \<Longrightarrow> gl_digest c = Inr (SHA1 m)" for c m
    using sha1_end_SHA1 [of c m] by (auto simp: gl_digest_def)
qed

text \<open>
  C7. \<^verbatim>\<open>sha1.c\<close> computes SHA-1: whatever the memory of the context held, and in whatever pieces
  of less than 2 ^ 32 bytes a message is passed, the digest is the one that FIPS 180-4 defines,
  although the last words are masked in place over what the buffer held before.
\<close>

theorem gladman_sha1_correct:
  assumes "length (gl_wbuf c) = 16" "length (concat ps) < 2 ^ 61" "\<forall>p \<in> set ps. length p < 2 ^ 32"
  shows "\<exists>c'. sha1_end (foldl (\<lambda>c bs. sha1_hash bs c) (sha1_begin c) ps) = (c', SHA1 (concat ps))"
  using sha1_end_SHA1 gladman.holds_pieces [OF gl_holds_begin [OF assms(1)], of ps] assms(2,3)
  by fastforce

lemma gladman_sha1_correct_witness:
  "\<exists>c'. sha1_end (foldl (\<lambda>c bs. sha1_hash bs c) (sha1_begin gl_fresh) [[1, 2], [], [3]]) =
    (c', SHA1 (concat [[1, 2], [], [3]]))"
  by (rule gladman_sha1_correct) (simp_all add: gl_fresh_def)

end
