(* ===== verification/Sha1_Test.thy ===== *)
theory Sha1_Test
  imports Sha1_Google Sha1_Oryx Sha1_Pd Sha1_Rfc Sha1_Gladman
begin

text \<open>
  \<^verbatim>\<open>main.c\<close> of \<^verbatim>\<open>src/sha1-test\<close>: the application that is built with one of the five
  implementations and compares the digests of its two test strings, once fed byte by byte
  and once in one block, with what it expects. The five builds are the five constructors of
  a datatype; the context of a build is the memory of the local variable \<^verbatim>\<open>ctx\<close>.
\<close>

section \<open>The test vectors\<close>

text \<open>The bytes of the two strings and of their digests, four bytes of a digest as one word.\<close>

definition t1 :: "u8 list" where "t1 = []"

definition t1_output :: "u8 list" where
  "t1_output = concat (map bytes_be [0xda39a3ee, 0x5e6b4b0d, 0x3255bfef, 0x95601890, 0xafd80709]) @ [0]"

definition t2 :: "u8 list" where
  "t2 = [0x31, 0x32, 0x33, 0x34, 0x35, 0x36, 0x37, 0x38, 0x39, 0x30]"

definition t2_output :: "u8 list" where
  "t2_output = concat (map bytes_be [0x01b307ac, 0xba4f54f5, 0x5aafc33b, 0xb06bbbf6, 0xca803e9a]) @ [0]"

section \<open>The two runs of a test\<close>

text \<open>The context and the array of the digest, which the RFC variant leaves alone on an error.\<close>

definition SHA1_DIGEST_SIZE :: nat where "SHA1_DIGEST_SIZE = 20"

text \<open>\<open>memcmp\<close> of the digest with what the test expects gives zero.\<close>

definition same_digest :: "u8 list \<Rightarrow> u8 list \<Rightarrow> bool" where
  "same_digest d e \<longleftrightarrow> take SHA1_DIGEST_SIZE d = take SHA1_DIGEST_SIZE e"

datatype 'c run_state = RunState (ctx: 'c) (sdata: "u8 list") (dgst: "u8 list")

text \<open>What the two runs have in common: the comparison after each of them.\<close>

definition test_runs :: "('c run_state \<Rightarrow> fault + 'c run_state) \<Rightarrow> ('c run_state \<Rightarrow> fault + 'c run_state) \<Rightarrow>
    'c run_state \<Rightarrow> u8 list \<Rightarrow> fault + 'c run_state \<times> bool" where
  "test_runs bytes block s e =
     and_then (bytes s) (\<lambda>s.
       if same_digest (dgst s) e
       then and_then (block s) (\<lambda>s. Inr (s, same_digest (dgst s) e))
       else Inr (s, False))"

definition oryx_final :: "u8 list \<Rightarrow> u8 list \<Rightarrow> Sha1Context \<Rightarrow> fault + Sha1Context run_state" where
  "oryx_final dat old c = and_then (sha1Final c True) (\<lambda>(c, d).
     Inr (RunState c dat (case d of Some d \<Rightarrow> d | None \<Rightarrow> old)))"

definition oryx_bytes :: "Sha1Context run_state \<Rightarrow> fault + Sha1Context run_state" where
  "oryx_bytes s =
     and_then (run_res (\<lambda>c b. sha1Update c [b]) (sha1Init (ctx s)) (sdata s)) (oryx_final (sdata s) (dgst s))"

definition oryx_block :: "Sha1Context run_state \<Rightarrow> fault + Sha1Context run_state" where
  "oryx_block s = and_then (sha1Update (sha1Init (ctx s)) (sdata s)) (oryx_final (sdata s) (dgst s))"

definition google_final :: "u8 list \<Rightarrow> sha1nfo \<Rightarrow> fault + sha1nfo run_state" where
  "google_final dat c = and_then (sha1_result c) (\<lambda>(c, d). Inr (RunState c dat d))"

definition google_bytes :: "sha1nfo run_state \<Rightarrow> fault + sha1nfo run_state" where
  "google_bytes s = google_final (sdata s) (foldl sha1_writebyte (sha1_init (ctx s)) (sdata s))"

text \<open>
  The second run of this build drops the returned pointer and reads through the first one:
  both point to the state of the context.
\<close>

definition google_block :: "sha1nfo run_state \<Rightarrow> fault + sha1nfo run_state" where
  "google_block s = and_then (sha1_result (sha1_write (sha1_init (ctx s)) (sdata s)))
     (\<lambda>(c, _). Inr (RunState c (sdata s) (words_mem (g_state c))))"

definition pd_final :: "u8 list \<Rightarrow> SHA1_CTX \<Rightarrow> fault + SHA1_CTX run_state" where
  "pd_final dat c = and_then (SHA1_Final c) (\<lambda>(c, d). Inr (RunState c dat d))"

definition pd_bytes :: "SHA1_CTX run_state \<Rightarrow> fault + SHA1_CTX run_state" where
  "pd_bytes s =
     (case foldl (\<lambda>(c, mem) b. case SHA1_Update c [b] of (c, m) \<Rightarrow> (c, mem @ m))
        (SHA1_Init (ctx s), []) (sdata s) of (c, mem) \<Rightarrow> pd_final mem c)"

definition pd_block :: "SHA1_CTX run_state \<Rightarrow> fault + SHA1_CTX run_state" where
  "pd_block s = (case SHA1_Update (SHA1_Init (ctx s)) (sdata s) of (c, mem) \<Rightarrow> pd_final mem c)"

definition rfc_final :: "u8 list \<Rightarrow> u8 list \<Rightarrow> SHA1Ctx option \<Rightarrow> fault + SHA1Ctx run_state" where
  "rfc_final dat old r = (case SHA1Result r True of
     (Some c, Some d, _) \<Rightarrow> Inr (RunState c dat d)
   | (Some c, None, _) \<Rightarrow> Inr (RunState c dat old)
   | (None, _) \<Rightarrow> Inl NullPointer)"

definition rfc_bytes :: "SHA1Ctx run_state \<Rightarrow> fault + SHA1Ctx run_state" where
  "rfc_bytes s = rfc_final (sdata s) (dgst s)
     (foldl (\<lambda>r b. fst (SHA1Input r (Some [b]) 1)) (fst (SHA1Reset (Some (ctx s)))) (sdata s))"

definition rfc_block :: "SHA1Ctx run_state \<Rightarrow> fault + SHA1Ctx run_state" where
  "rfc_block s = rfc_final (sdata s) (dgst s)
     (fst (SHA1Input (fst (SHA1Reset (Some (ctx s)))) (Some (sdata s)) (length (sdata s))))"

definition lib_final :: "u8 list \<Rightarrow> sha1_ctx \<Rightarrow> fault + sha1_ctx run_state" where
  "lib_final dat c = (case sha1_end c of (c, d) \<Rightarrow> Inr (RunState c dat d))"

definition lib_bytes :: "sha1_ctx run_state \<Rightarrow> fault + sha1_ctx run_state" where
  "lib_bytes s = lib_final (sdata s) (foldl (\<lambda>c b. sha1_hash [b] c) (sha1_begin (ctx s)) (sdata s))"

definition lib_block :: "sha1_ctx run_state \<Rightarrow> fault + sha1_ctx run_state" where
  "lib_block s = lib_final (sdata s) (sha1_hash (sdata s) (sha1_begin (ctx s)))"

section \<open>The test\<close>

datatype variant =
  ORYX Sha1Context | GOOGLE sha1nfo | PD SHA1_CTX | RFC SHA1Ctx | LIBSHA1 sha1_ctx

definition do_test :: "variant \<Rightarrow> u8 list \<Rightarrow> u8 list \<Rightarrow> u8 list \<Rightarrow> fault + bool" where
  "do_test v mem dat e = (case v of
     ORYX c \<Rightarrow> and_then (test_runs oryx_bytes oryx_block (RunState c dat mem) e) (\<lambda>(_, r). Inr r)
   | GOOGLE c \<Rightarrow> and_then (test_runs google_bytes google_block (RunState c dat mem) e) (\<lambda>(_, r). Inr r)
   | PD c \<Rightarrow> and_then (test_runs pd_bytes pd_block (RunState c dat mem) e) (\<lambda>(_, r). Inr r)
   | RFC c \<Rightarrow> and_then (test_runs rfc_bytes rfc_block (RunState c dat mem) e) (\<lambda>(_, r). Inr r)
   | LIBSHA1 c \<Rightarrow> and_then (test_runs lib_bytes lib_block (RunState c dat mem) e) (\<lambda>(_, r). Inr r))"

text \<open>The application: the results of the two tests, which it only prints.\<close>

definition test_main :: "(nat \<Rightarrow> variant \<times> u8 list) \<Rightarrow> (fault + bool) list" where
  "test_main stack = [do_test (fst (stack 0)) (snd (stack 0)) t1 t1_output,
     do_test (fst (stack 1)) (snd (stack 1)) t2 t2_output]"

text \<open>The arrays of the context have the lengths that their types give them.\<close>

fun ctx_ok :: "variant \<Rightarrow> bool" where
  "ctx_ok (ORYX c) = (length (o_buffer c) = 64)"
| "ctx_ok (GOOGLE c) = (length (g_buffer c) = 64)"
| "ctx_ok (PD c) = (length (p_buffer c) = 64)"
| "ctx_ok (RFC c) = (length (Message_Block c) = 64)"
| "ctx_ok (LIBSHA1 c) = (length (gl_wbuf c) = 16)"

section \<open>What a test shows\<close>

text \<open>
  Both runs of a build leave the digest of the data, and a context that can be used again.
\<close>

lemma test_runs_digest:
  assumes "\<And>s. ok (ctx s) \<Longrightarrow> sdata s = m \<Longrightarrow>
      \<exists>c. bytes s = Inr (RunState c m (SHA1 m)) \<and> ok c"
    and "\<And>s. ok (ctx s) \<Longrightarrow> sdata s = m \<Longrightarrow>
      \<exists>c mem. block s = Inr (RunState c mem (SHA1 m))"
    and "ok c"
  shows "and_then (test_runs bytes block (RunState c m old) e) (\<lambda>(_, r). Inr r) =
    Inr (SHA1 m = take 20 e)"
proof -
  obtain c1 where c1: "bytes (RunState c m old) = Inr (RunState c1 m (SHA1 m))" "ok c1"
    using assms(1) [of "RunState c m old"] assms(3) by auto
  obtain c2 mem where c2: "block (RunState c1 m (SHA1 m)) = Inr (RunState c2 mem (SHA1 m))"
    using assms(2) [of "RunState c1 m (SHA1 m)"] c1(2) by auto
  have e: "SHA1 m = take 20 e \<longleftrightarrow> same_digest (SHA1 m) e"
    by (simp add: same_digest_def SHA1_DIGEST_SIZE_def)
  show ?thesis unfolding e by (simp add: test_runs_def c1(1) c2)
qed

lemma oryx_runs:
  assumes "length (o_buffer (ctx s)) = 64" "length (sdata s) < 2 ^ 61"
  shows "\<exists>c. oryx_bytes s = Inr (RunState c (sdata s) (SHA1 (sdata s))) \<and> length (o_buffer c) = 64"
    "\<exists>c mem. oryx_block s = Inr (RunState c mem (SHA1 (sdata s)))"
proof -
  have f: "\<exists>c'. oryx_final dat old c = Inr (RunState c' dat (SHA1 m)) \<and> length (o_buffer c') = 64"
    if "o_holds (Inr c) m" for dat old c m
    using that sha1Final_SHA1 by (fastforce simp: o_holds_def oryx_final_def)
  note i = o_holds_init [OF assms(1)]
  let ?bs = "map (\<lambda>b. [b]) (sdata s)"
  have "o_holds (foldl o_update (Inr (sha1Init (ctx s))) ?bs) (sdata s)"
    using oryx.holds_concat [OF i, of ?bs] assms(2) by simp
  moreover have "run_res (\<lambda>c b. sha1Update c [b]) c bs = run_res sha1Update c (map (\<lambda>b. [b]) bs)" for c bs
    by (induction bs arbitrary: c) (simp_all add: and_then_def split: sum.splits)
  ultimately obtain c where c: "run_res (\<lambda>c b. sha1Update c [b]) (sha1Init (ctx s)) (sdata s) = Inr c"
    "o_holds (Inr c) (sdata s)" by (auto simp: o_update_run o_holds_def)
  show "\<exists>c. oryx_bytes s = Inr (RunState c (sdata s) (SHA1 (sdata s))) \<and> length (o_buffer c) = 64"
    using f [OF c(2)] by (simp add: oryx_bytes_def c(1))
  have "o_holds (sha1Update (sha1Init (ctx s)) (sdata s)) (sdata s)"
    using o_holds_update [OF i, of "sdata s"] by (simp add: o_update_simps)
  then obtain c where c: "sha1Update (sha1Init (ctx s)) (sdata s) = Inr c" "o_holds (Inr c) (sdata s)"
    by (auto simp: o_holds_def)
  show "\<exists>c mem. oryx_block s = Inr (RunState c mem (SHA1 (sdata s)))"
    using f [OF c(2)] by (fastforce simp: oryx_block_def c(1))
qed

lemma google_runs:
  assumes "length (g_buffer (ctx s)) = 64" "length (sdata s) < 2 ^ 32"
  shows "\<exists>c. google_bytes s = Inr (RunState c (sdata s) (SHA1 (sdata s))) \<and> length (g_buffer c) = 64"
    "\<exists>c mem. google_block s = Inr (RunState c mem (SHA1 (sdata s)))"
proof -
  have h: "g_holds (foldl sha1_writebyte (sha1_init (ctx s)) (sdata s)) (sdata s)"
    using g_holds_write [OF g_holds_init [OF assms(1)], of "sdata s"] by simp
  from sha1_result_SHA1 [OF h assms(2)] obtain c where
    c: "sha1_result (foldl sha1_writebyte (sha1_init (ctx s)) (sdata s)) = Inr (c, SHA1 (sdata s))"
    "length (g_buffer c) = 64" by blast
  then show "\<exists>c. google_bytes s = Inr (RunState c (sdata s) (SHA1 (sdata s))) \<and> length (g_buffer c) = 64"
    by (simp add: google_bytes_def google_final_def)
  have "words_mem (g_state c) = SHA1 (sdata s)"
    using c(1) by (auto simp: sha1_result_def and_then_eq_Inr Let_def)
  then show "\<exists>c mem. google_block s = Inr (RunState c mem (SHA1 (sdata s)))"
    by (simp add: google_block_def sha1_write_def c(1))
qed

lemma pd_runs:
  assumes "length (p_buffer (ctx s)) = 64" "length (sdata s) < 2 ^ 31"
  shows "\<exists>c. pd_bytes s = Inr (RunState c (sdata s) (SHA1 (sdata s))) \<and> length (p_buffer c) = 64"
    "\<exists>c mem. pd_block s = Inr (RunState c mem (SHA1 (sdata s)))"
proof -
  note i = p_holds_init [OF assms(1)]
  have f: "\<exists>c'. pd_final mem c = Inr (RunState c' mem (SHA1 m)) \<and> length (p_buffer c') = 64"
    if h: "p_holds c m" "length m < 2 ^ 61" for mem c m
  proof -
    obtain c' where "SHA1_Final c = Inr (c', SHA1 m)"
      using SHA1_Final_SHA1 [OF h(1) [unfolded p_holds_def] h(2)] by blast
    moreover from this have "length (p_buffer c') = 64"
      by (auto simp: SHA1_Final_def Let_def and_then_eq_Inr)
    ultimately show ?thesis by (simp add: pd_final_def)
  qed
  let ?step = "\<lambda>(c, mem) b. case SHA1_Update c [b] of (c, m) \<Rightarrow> (c, mem @ m)"
  have "\<exists>c. foldl ?step (SHA1_Init (ctx s), []) bs = (c, bs) \<and> p_holds c bs" for bs
  proof (induction bs rule: rev_induct)
    case (snoc b bs)
    then obtain c where c: "foldl ?step (SHA1_Init (ctx s), []) bs = (c, bs)" "p_holds c bs" by blast
    have "length (snd (absorb (H0, []) bs)) < 64" by (rule absorb_bound) simp
    then have "snd (SHA1_Update c [b]) = [b]"
      using c(2) Update_keeps_short by (fastforce simp: p_holds_def)
    moreover have "p_holds (fst (SHA1_Update c [b])) (bs @ [b])"
      by (rule p_holds_update [OF c(2)]) simp
    moreover obtain c' m' where "SHA1_Update c [b] = (c', m')" by (rule prod.exhaust)
    ultimately show ?case by (simp add: c(1))
  qed (use i in simp)
  then obtain c where "foldl ?step (SHA1_Init (ctx s), []) (sdata s) = (c, sdata s)"
    "p_holds c (sdata s)" by blast
  with f [of c "sdata s" "sdata s"] assms(2)
  show "\<exists>c. pd_bytes s = Inr (RunState c (sdata s) (SHA1 (sdata s))) \<and> length (p_buffer c) = 64"
    by (simp add: pd_bytes_def)
  have "p_holds (fst (SHA1_Update (SHA1_Init (ctx s)) (sdata s))) (sdata s)"
    using p_holds_update [OF i assms(2)] by simp
  from f [OF this] assms(2) show "\<exists>c mem. pd_block s = Inr (RunState c mem (SHA1 (sdata s)))"
    by (fastforce simp: pd_block_def split_beta)
qed

lemma rfc_runs:
  assumes "length (Message_Block (ctx s)) = 64" "length (sdata s) < 2 ^ 61"
  shows "\<exists>c. rfc_bytes s = Inr (RunState c (sdata s) (SHA1 (sdata s))) \<and> length (Message_Block c) = 64"
    "\<exists>c mem. rfc_block s = Inr (RunState c mem (SHA1 (sdata s)))"
proof -
  note i = r_holds_start [OF assms(1)]
  have f: "\<exists>c'. rfc_final dat old (Some c) = Inr (RunState c' dat (SHA1 (sdata s))) \<and>
      length (Message_Block c') = 64" if "r_holds c (sdata s)" for dat old c
    using Result_SHA1 [OF that assms(2)] by (auto simp: rfc_final_def)
  have st: "fst (SHA1Reset (Some c)) = Some (r_start c)" for c by (simp add: r_start_def SHA1Reset_def)
  have up: "fst (SHA1Input (Some c) (Some bs) (length bs)) = Some (r_update c bs)" for c bs
    by (simp add: r_update_def SHA1Input_def)
  have "foldl (\<lambda>r b. fst (SHA1Input r (Some [b]) 1)) (Some c) bs =
      Some (foldl r_update c (map (\<lambda>b. [b]) bs))" for c bs
    using up [of _ "[_]"] by (induction bs arbitrary: c) simp_all
  moreover have "r_holds (foldl r_update (r_start (ctx s)) (map (\<lambda>b. [b]) (sdata s))) (sdata s)"
    using rfc.holds_concat [OF i, of "map (\<lambda>b. [b]) (sdata s)"] assms(2) by simp
  ultimately show "\<exists>c. rfc_bytes s = Inr (RunState c (sdata s) (SHA1 (sdata s))) \<and> length (Message_Block c) = 64"
    using f by (simp add: rfc_bytes_def st)
  have "r_holds (r_update (r_start (ctx s)) (sdata s)) (sdata s)"
    using rfc.holds_update [OF i, of "sdata s"] assms(2) by simp
  from f [OF this] show "\<exists>c mem. rfc_block s = Inr (RunState c mem (SHA1 (sdata s)))"
    by (fastforce simp: rfc_block_def st up)
qed

lemma lib_runs:
  assumes "length (gl_wbuf (ctx s)) = 16" "length (sdata s) < 2 ^ 32"
  shows "\<exists>c. lib_bytes s = Inr (RunState c (sdata s) (SHA1 (sdata s))) \<and> length (gl_wbuf c) = 16"
    "\<exists>c mem. lib_block s = Inr (RunState c mem (SHA1 (sdata s)))"
proof -
  note i = gl_holds_begin [OF assms(1)]
  have f: "\<exists>c'. lib_final dat c = Inr (RunState c' dat (SHA1 (sdata s))) \<and> length (gl_wbuf c') = 16"
    if "gl_holds c (sdata s)" for dat c
    using sha1_end_SHA1 [OF that] assms(2) by (auto simp: lib_final_def)
  have "gl_holds (foldl (\<lambda>c b. sha1_hash [b] c) (sha1_begin (ctx s)) (sdata s)) (sdata s)"
    using gladman.holds_concat [OF i, of "map (\<lambda>b. [b]) (sdata s)"] assms(2)
    by (simp add: foldl_map)
  from f [OF this] show "\<exists>c. lib_bytes s = Inr (RunState c (sdata s) (SHA1 (sdata s))) \<and> length (gl_wbuf c) = 16"
    by (simp add: lib_bytes_def)
  have "gl_holds (sha1_hash (sdata s) (sha1_begin (ctx s))) (sdata s)"
    using gladman.holds_update [OF i, of "sdata s"] assms(2) by simp
  from f [OF this] show "\<exists>c mem. lib_block s = Inr (RunState c mem (SHA1 (sdata s)))"
    by (fastforce simp: lib_block_def)
qed

text \<open>
  C20. The five builds of the application agree: whatever the memory of the context and of the
  digest held, the test of data of less than 2 ^ 31 bytes succeeds exactly where the expected
  bytes are the SHA-1 digest of the data, and the second run is not disturbed by the first.
\<close>

theorem do_test_verdict:
  assumes "ctx_ok v" "length dat < 2 ^ 31"
  shows "do_test v mem dat e = Inr (SHA1 dat = take 20 e)"
proof -
  have l: "length dat < 2 ^ 32" "length dat < 2 ^ 61" using assms(2) by simp_all
  show ?thesis
  proof (cases v)
    case (ORYX c)
    show ?thesis unfolding do_test_def ORYX variant.case
      by (rule test_runs_digest [where ok = "\<lambda>c. length (o_buffer c) = 64"])
        (use oryx_runs l assms(1) ORYX in \<open>blast | simp\<close>)+
  next
    case (GOOGLE c)
    show ?thesis unfolding do_test_def GOOGLE variant.case
      by (rule test_runs_digest [where ok = "\<lambda>c. length (g_buffer c) = 64"])
        (use google_runs l assms(1) GOOGLE in \<open>blast | simp\<close>)+
  next
    case (PD c)
    show ?thesis unfolding do_test_def PD variant.case
      by (rule test_runs_digest [where ok = "\<lambda>c. length (p_buffer c) = 64"])
        (use pd_runs assms PD in \<open>blast | simp\<close>)+
  next
    case (RFC c)
    show ?thesis unfolding do_test_def RFC variant.case
      by (rule test_runs_digest [where ok = "\<lambda>c. length (Message_Block c) = 64"])
        (use rfc_runs l assms(1) RFC in \<open>blast | simp\<close>)+
  next
    case (LIBSHA1 c)
    show ?thesis unfolding do_test_def LIBSHA1 variant.case
      by (rule test_runs_digest [where ok = "\<lambda>c. length (gl_wbuf c) = 16"])
        (use lib_runs l assms(1) LIBSHA1 in \<open>blast | simp\<close>)+
  qed
qed

lemma do_test_verdict_witness:
  "do_test (LIBSHA1 gl_fresh) [] t2 (SHA1 t2 @ [0]) = Inr (SHA1 t2 = take 20 (SHA1 t2 @ [0]))"
  by (rule do_test_verdict) (simp_all add: gl_fresh_def t2_def)

end
