(* ===== verification/Decimal.thy ===== *)
theory Decimal
  imports Prelude "HOL-Library.Signed_Division"
begin

text \<open>
  What the applications use of \<^verbatim>\<open>printf\<close> and \<^verbatim>\<open>atoi\<close>: signed decimal numbers, with and
  without a minimal width filled with zeros, and reading them back; and arrays of characters
  into which strings are copied and from which they are read.
\<close>

definition digit :: "nat \<Rightarrow> char" where "digit d = char_of (48 + d)"

text \<open>\<^verbatim>\<open>"%u"\<close>, \<^verbatim>\<open>"%i"\<close>, and \<^verbatim>\<open>"%0wi"\<close>, whose width \<open>w\<close> counts the sign.\<close>

fun dec :: "nat \<Rightarrow> string" where
  "dec n = (if n < 10 then [digit n] else dec (n div 10) @ [digit (n mod 10)])"

declare dec.simps [simp del]

definition fmt_i :: "int \<Rightarrow> string" where
  "fmt_i k = (if k < 0 then CHR ''-'' # dec (nat (- k)) else dec (nat k))"

definition fmt_0i :: "nat \<Rightarrow> int \<Rightarrow> string" where
  "fmt_0i w k =
     (if k < 0 then CHR ''-'' # replicate (w - 1 - length (dec (nat (- k)))) CHR ''0'' @ dec (nat (- k))
      else replicate (w - length (dec (nat k))) CHR ''0'' @ dec (nat k))"

text \<open>\<^verbatim>\<open>atoi\<close>: white space, a sign, and digits; the value is assumed to fit an \<^verbatim>\<open>int\<close>.\<close>

definition digit_val :: "char \<Rightarrow> nat option" where
  "digit_val c = (let n = of_char c :: nat in if 48 \<le> n \<and> n \<le> 57 then Some (n - 48) else None)"

fun decnum :: "nat \<Rightarrow> string \<Rightarrow> nat" where
  "decnum a [] = a"
| "decnum a (c # cs) = (case digit_val c of None \<Rightarrow> a | Some d \<Rightarrow> decnum (10 * a + d) cs)"

definition atoi :: "string \<Rightarrow> int" where
  "atoi s = (let s = dropWhile c_isspace s
     in if s \<noteq> [] \<and> hd s = CHR ''-'' then - int (decnum 0 (tl s))
        else if s \<noteq> [] \<and> hd s = CHR ''+'' then int (decnum 0 (tl s))
        else int (decnum 0 s))"

lemma digit_val_digit [simp]: "d < 10 \<Longrightarrow> digit_val (digit d) = Some d"
  by (simp add: digit_val_def digit_def of_char_of take_bit_eq_mod)

lemma digit_facts:
  assumes "d < 10"
  shows "\<not> c_isspace (digit d)" "digit d \<noteq> CHR ''-''" "digit d \<noteq> CHR ''+''" "digit d \<noteq> CHR ''.''"
proof -
  have n: "(of_char (digit d) :: nat) = 48 + d"
    using assms by (simp add: digit_def of_char_of take_bit_eq_mod)
  then show "\<not> c_isspace (digit d)" using assms by (simp add: c_isspace_def)
  show "digit d \<noteq> CHR ''-''" "digit d \<noteq> CHR ''+''" "digit d \<noteq> CHR ''.''"
    using n by auto
qed

definition all_digits :: "string \<Rightarrow> bool" where
  "all_digits s \<longleftrightarrow> (\<forall>c \<in> set s. \<exists>d < 10. c = digit d)"

lemma all_digits_simps [simp]:
  "all_digits []" "all_digits (s @ t) \<longleftrightarrow> all_digits s \<and> all_digits t"
  "all_digits (c # s) \<longleftrightarrow> (\<exists>d < 10. c = digit d) \<and> all_digits s"
  by (auto simp: all_digits_def)

lemma digit_0: "digit 0 = CHR ''0''"
  by code_simp

lemma all_digits_zeros [simp]: "all_digits (replicate k CHR ''0'')"
proof -
  have "\<exists>d < 10. CHR ''0'' = digit d" by (rule exI [of _ 0]) (simp add: digit_0)
  then show ?thesis by (induction k) simp_all
qed

lemma all_digits_dec: "all_digits (dec n)"
proof (induction n rule: dec.induct)
  case (1 n)
  have "\<exists>d < 10. digit (n mod 10) = digit d" by (rule exI [of _ "n mod 10"]) simp
  with 1 show ?case by (subst dec.simps) auto
qed

lemma decnum_append:
  "all_digits s \<Longrightarrow> decnum a (s @ t) = decnum (decnum a s) t"
  by (induction s arbitrary: a) auto

lemma decnum_zeros: "decnum 0 (replicate k CHR ''0'') = 0"
  by (induction k) (simp_all add: digit_val_def)

lemma dec_nonempty [simp]: "dec n \<noteq> []"
  by (subst dec.simps) simp

lemma decnum_dec: "decnum 0 (dec n) = n"
proof (induction n rule: dec.induct)
  case (1 n)
  show ?case
  proof (cases "n < 10")
    case True
    then show ?thesis by (subst dec.simps) simp
  next
    case False
    then have "decnum 0 (dec n) = decnum (decnum 0 (dec (n div 10))) [digit (n mod 10)]"
      by (subst dec.simps) (simp add: decnum_append [OF all_digits_dec])
    with "1.IH" [OF False] show ?thesis by simp
  qed
qed

lemma length_dec_le: "n < 10 ^ k \<Longrightarrow> 0 < k \<Longrightarrow> length (dec n) \<le> k"
proof (induction k arbitrary: n)
  case (Suc k)
  show ?case
  proof (cases "n < 10")
    case False
    then have "0 < k" using Suc.prems by (cases k) auto
    moreover have "n div 10 < 10 ^ k" using Suc.prems(1) by (simp add: less_mult_imp_div_less)
    ultimately have "length (dec (n div 10)) \<le> k" by (rule Suc.IH [rotated])
    with False show ?thesis by (subst dec.simps) simp
  qed (subst dec.simps, simp)
qed simp

text \<open>Reading back what was printed.\<close>

lemma atoi_all_digits: "all_digits s \<Longrightarrow> s \<noteq> [] \<Longrightarrow> atoi s = int (decnum 0 s)"
  using digit_facts by (cases s) (auto simp: atoi_def Let_def)

lemma atoi_fmt_i: "atoi (fmt_i k) = k"
proof (cases "k < 0")
  case True
  have "\<not> c_isspace CHR ''-''" by (simp add: c_isspace_def)
  with True show ?thesis by (simp add: fmt_i_def atoi_def Let_def decnum_dec)
next
  case False
  then show ?thesis by (simp add: fmt_i_def atoi_all_digits [OF all_digits_dec] decnum_dec)
qed

section \<open>Arrays of characters\<close>

text \<open>
  A character array is the list of its characters. Strings are copied into it and read from
  it at an offset; outside the array there is no defined value.
\<close>

definition mem_write :: "string \<Rightarrow> int \<Rightarrow> string \<Rightarrow> fault + string" where
  "mem_write m off s =
     (if off < 0 \<or> off + int (length s) > int (length m) then Inl OutOfBounds
      else Inr (take (nat off) m @ s @ drop (nat off + length s) m))"

definition mem_string :: "string \<Rightarrow> int \<Rightarrow> fault + string" where
  "mem_string m off =
     (if off < 0 then Inl OutOfBounds
      else (let s = takeWhile (\<lambda>c. c \<noteq> CHR 0x00) (drop (nat off) m)
            in if nat off + length s < length m then Inr s else Inl OutOfBounds))"

lemma mem_write_at:
  assumes "length s \<le> length r"
  shows "mem_write (p @ r) (int (length p)) s = Inr (p @ s @ drop (length s) r)"
  using assms by (simp add: mem_write_def)

lemma mem_string_at:
  assumes "CHR 0x00 \<notin> set s"
  shows "mem_string (p @ s @ CHR 0x00 # r) (int (length p)) = Inr s"
proof -
  have "takeWhile (\<lambda>c. c \<noteq> CHR 0x00) (s @ CHR 0x00 # r) = s" using assms by (induction s) auto
  then show ?thesis by (simp add: mem_string_def)
qed

lemma mem_string_start: "CHR 0x00 \<notin> set s \<Longrightarrow> mem_string (s @ CHR 0x00 # r) 0 = Inr s"
  using mem_string_at [of s "[]"] by simp

end
