(* ===== verification/Demo_Sensor.thy ===== *)
theory Demo_Sensor
  imports Decimal
begin

text \<open>
  The sensor node of the industry demo, \<^verbatim>\<open>src/inria-industry/accel_udp\<close>: the debounced
  detection of the node's orientation (\<^verbatim>\<open>sense.c\<close>), the event messages (\<^verbatim>\<open>evt_handler.c\<close>), and
  the UDP interface (\<^verbatim>\<open>udpif.c\<close>). The socket calls and drivers of RIOT are the arguments of the
  functions that use them; what a function does to the outside is a list of effects.
\<close>

section \<open>The UDP interface\<close>

definition SERVER_PORT :: u16 where "SERVER_PORT = 0xFF01"

record sockaddr6 =
  sin6_family_set :: bool
  sin6_addr :: "u16 list"
  sin6_port :: u16

record udp_node =
  send_socket :: int
  socket_addr :: sockaddr6
  server_socket :: int
  server_addr :: sockaddr6
  n_open :: nat
  n_sendto :: nat

text \<open>The results of the n-th call of the library functions, and RIOT's \<^verbatim>\<open>HTONS\<close>.\<close>

record udp_ext =
  open_result :: "nat \<Rightarrow> int"
  sendto_result :: "nat \<Rightarrow> int"
  bind_result :: "int \<Rightarrow> int"
  htons :: "u16 \<Rightarrow> u16"

datatype udp_eff =
  Sendto int sockaddr6 "u8 list" | Bind int sockaddr6 | Close int | Server_Thread

definition udpif_get_ipv6_address :: "u16 \<Rightarrow> u16 list" where
  "udpif_get_ipv6_address local_addr = [0xfe80, 0, 0, 0, 0, 0x00ff, 0xfe00, local_addr]"

definition init_send_socket :: "udp_ext \<Rightarrow> udp_node \<Rightarrow> udp_node" where
  "init_send_socket X u =
     (let s = open_result X (n_open u);
          u = u\<lparr>send_socket := s, n_open := n_open u + 1\<rparr>
      in if s = -1 then u
         else u\<lparr>socket_addr := \<lparr>sin6_family_set = True, sin6_addr = replicate 8 0, sin6_port = 0\<rparr>\<rparr>)"

definition udpif_send :: "udp_ext \<Rightarrow> u16 \<Rightarrow> u16 \<Rightarrow> u8 list \<Rightarrow> udp_node \<Rightarrow> udp_node \<times> udp_eff list \<times> int"
  where
  "udpif_send X dst_addr port bytes u =
     (let u = (if send_socket u < 0 then init_send_socket X u else u);
          u = u\<lparr>socket_addr := (socket_addr u)\<lparr>sin6_addr := udpif_get_ipv6_address dst_addr,
                                             sin6_port := port\<rparr>\<rparr>;
          sent = sendto_result X (n_sendto u)
      in (u\<lparr>n_sendto := n_sendto u + 1\<rparr>, [Sendto (send_socket u) (socket_addr u) bytes], sent))"

definition udpif_start_server :: "udp_ext \<Rightarrow> u16 \<Rightarrow> udp_node \<Rightarrow> udp_node \<times> udp_eff list" where
  "udpif_start_server X port u =
     (if server_socket u > 0 then (u, [])
      else
        (let s = open_result X (n_open u);
             a = \<lparr>sin6_family_set = True, sin6_addr = replicate 8 0, sin6_port = port\<rparr>
         in (u\<lparr>server_socket := s, n_open := n_open u + 1, server_addr := a\<rparr>,
             Bind s a # (if bind_result X s = -1 then [Close s] else []) @ [Server_Thread])))"

text \<open>
  One round of the server: any datagram is answered with the temperature of the node, in
  thousandths of a degree from the driver.
\<close>

definition UDP_CONTENT :: nat where "UDP_CONTENT = 32"

definition temp_text :: "int \<Rightarrow> string" where
  "temp_text temp =
     (let temp_abs = temp sdiv 1000;
          temp = temp - temp_abs * 1000
      in fmt_i temp_abs @ ''.'' @ fmt_0i 3 temp @ '' '' @ [CHR 0xC2, CHR 0xB0] @ ''C'')"

text \<open>
  The reply is printed into a buffer of \<open>UDP_CONTENT\<close> bytes; as many bytes as the untruncated text
  has are sent, and the 0 behind them.
\<close>

definition server_round :: "udp_node \<Rightarrow> int \<Rightarrow> sockaddr6 \<Rightarrow> int \<Rightarrow> fault + udp_eff list" where
  "server_round u bytes_received src temp =
     (if bytes_received < 0 then Inr []
      else
        (let text = temp_text temp
         in if length text + 1 > UDP_CONTENT then Inl OutOfBounds
            else Inr [Sendto (server_socket u) (src\<lparr>sin6_port := SERVER_PORT\<rparr>)
                   (map of_char (text @ [CHR 0x00]))]))"

definition udpif_shell_server :: "udp_ext \<Rightarrow> string list \<Rightarrow> udp_node \<Rightarrow> udp_node \<times> udp_eff list" where
  "udpif_shell_server X argv u =
     (let port = (if length argv < 2 then SERVER_PORT else word_of_int (atoi (argv ! 1)))
      in udpif_start_server X port u)"

definition udpif_shell_send :: "udp_ext \<Rightarrow> string list \<Rightarrow> udp_node \<Rightarrow> udp_node \<times> udp_eff list" where
  "udpif_shell_send X argv u =
     (if length argv \<noteq> 3 then (u, [])
      else
        (let dst_addr = word_of_int (atoi (argv ! 1)) :: u8 in
         case udpif_send X (ucast dst_addr) SERVER_PORT (map of_char (argv ! 2)) u of
           (u, es, _) \<Rightarrow> (u, es)))"

section \<open>Event messages\<close>

text \<open>The event numbers of \<^verbatim>\<open>events.h\<close>.\<close>

datatype evt = PARENT_SELECT | PARENT_DELETE | DIO_RCVD | DTA_RCVD | ALARM | CONFIRM | WARN
  | DISARMED | EVT_RESET

definition evt_code :: "evt \<Rightarrow> u8" where
  "evt_code e = (case e of PARENT_SELECT \<Rightarrow> 0 | PARENT_DELETE \<Rightarrow> 1 | DIO_RCVD \<Rightarrow> 2 | DTA_RCVD \<Rightarrow> 3
     | ALARM \<Rightarrow> 4 | CONFIRM \<Rightarrow> 5 | WARN \<Rightarrow> 6 | DISARMED \<Rightarrow> 7 | EVT_RESET \<Rightarrow> 8)"

definition RETRANSMISSIONS :: nat where "RETRANSMISSIONS = 1"
definition observers :: "u16 list" where "observers = [1]"

record sensor =
  sense_state :: int
  rep_count :: nat
  sequ_no :: u8
  evt_no :: u8
  led_green :: bool
  led_red :: bool
  udp :: udp_node

definition send_event :: "udp_ext \<Rightarrow> evt \<Rightarrow> sensor \<Rightarrow> sensor \<times> udp_eff list" where
  "send_event X event s =
     (let s = (if event \<noteq> CONFIRM then s\<lparr>evt_no := evt_no s + 1\<rparr> else s);
          cmd = [evt_code event, evt_no s, sequ_no s];
          s = s\<lparr>sequ_no := sequ_no s + 1\<rparr>
      in foldl (\<lambda>(s, es) o1. case udpif_send X o1 SERVER_PORT cmd (udp s) of
                  (u, fs, _) \<Rightarrow> (s\<lparr>udp := u\<rparr>, es @ fs))
           (s, []) (concat (replicate RETRANSMISSIONS observers)))"

definition evt_handler_ok :: "udp_ext \<Rightarrow> sensor \<Rightarrow> sensor \<times> udp_eff list" where
  "evt_handler_ok X s = send_event X CONFIRM (s\<lparr>led_green := True, led_red := False\<rparr>)"

definition evt_handler_warn :: "udp_ext \<Rightarrow> sensor \<Rightarrow> sensor \<times> udp_eff list" where
  "evt_handler_warn X s = send_event X WARN (s\<lparr>led_green := True, led_red := True\<rparr>)"

definition evt_handler_alarm :: "udp_ext \<Rightarrow> sensor \<Rightarrow> sensor \<times> udp_eff list" where
  "evt_handler_alarm X s = send_event X ALARM (s\<lparr>led_green := False, led_red := True\<rparr>)"

section \<open>The detection\<close>

definition AXIS_THRESHOLD :: int where "AXIS_THRESHOLD = 230"
definition REP_LIMIT :: nat where "REP_LIMIT = 1"
definition STATE_NORMAL :: int where "STATE_NORMAL = 0"
definition STATE_DOWN1 :: int where "STATE_DOWN1 = 2"
definition STATE_DOWN2 :: int where "STATE_DOWN2 = 1"

record l3g4200d_data =
  acc_x :: u16
  acc_y :: u16
  acc_z :: u16

text \<open>
  The direction of a sample: the first axis whose magnitude is above the threshold. A
  sample is three signed 16-bit numbers, whose magnitudes are taken as \<^verbatim>\<open>int\<close>.
\<close>

definition direction :: "l3g4200d_data \<Rightarrow> nat" where
  "direction ad =
     (if \<bar>sint (acc_x ad)\<bar> > AXIS_THRESHOLD then 1
      else if \<bar>sint (acc_y ad)\<bar> > AXIS_THRESHOLD then 2
      else if \<bar>sint (acc_z ad)\<bar> > AXIS_THRESHOLD then 3
      else 0)"

definition check_state :: "udp_ext \<Rightarrow> l3g4200d_data \<Rightarrow> sensor \<Rightarrow> sensor \<times> udp_eff list" where
  "check_state X ad s =
     (let dir = direction ad;
          s = (if word_of_int (sense_state s) = (word_of_nat dir :: u32)
               then (if rep_count s < REP_LIMIT then s\<lparr>rep_count := rep_count s + 1\<rparr> else s)
               else s\<lparr>sense_state := int dir, rep_count := 0\<rparr>)
      in if rep_count s = REP_LIMIT then
           (let s = s\<lparr>rep_count := REP_LIMIT + 1\<rparr> in
            if sense_state s - 1 = STATE_NORMAL then evt_handler_ok X s
            else if sense_state s - 1 = STATE_DOWN1 then evt_handler_warn X s
            else if sense_state s - 1 = STATE_DOWN2 then evt_handler_alarm X s
            else (s, []))
         else (s, []))"

text \<open>The sense thread on a sequence of samples.\<close>

fun sensethread :: "udp_ext \<Rightarrow> l3g4200d_data list \<Rightarrow> sensor \<Rightarrow> sensor \<times> udp_eff list" where
  "sensethread X [] s = (s, [])"
| "sensethread X (ad # ads) s =
     (case check_state X ad s of (s, es) \<Rightarrow> case sensethread X ads s of (s, fs) \<Rightarrow> (s, es @ fs))"

text \<open>The thread is started when both drivers could be initialised.\<close>

definition sense_init :: "bool \<Rightarrow> bool \<Rightarrow> bool" where
  "sense_init l3g4200d_failed lps331ap_failed =
     (if l3g4200d_failed then False else if lps331ap_failed then False else True)"

definition udp_start :: udp_node where
  "udp_start = \<lparr>send_socket = -1,
     socket_addr = \<lparr>sin6_family_set = False, sin6_addr = replicate 8 0, sin6_port = 0\<rparr>,
     server_socket = -1,
     server_addr = \<lparr>sin6_family_set = False, sin6_addr = replicate 8 0, sin6_port = 0\<rparr>,
     n_open = 0, n_sendto = 0\<rparr>"

definition sensor_start :: "bool \<Rightarrow> bool \<Rightarrow> sensor" where
  "sensor_start green red = \<lparr>sense_state = -1, rep_count = 0, sequ_no = 0, evt_no = 0,
     led_green = green, led_red = red, udp = udp_start\<rparr>"

end
