(* ===== verification/Demo_Light.thy ===== *)
theory Demo_Light
  imports Demo_Sensor
begin

text \<open>
  The light node of the industry demo, \<^verbatim>\<open>src/inria-industry/light\<close>: the colours for the
  sensor's events and the shell commands (\<^verbatim>\<open>light.c\<close>), and this node's variant of the UDP
  interface, which passes a port through \<^verbatim>\<open>HTONS\<close> and hands received data to a callback
  (\<^verbatim>\<open>udpif.c\<close>).
\<close>

section \<open>The light\<close>

record rgb =
  red :: u8
  green :: u8
  blue :: u8

definition LIGHT_COLOR_OK :: rgb where "LIGHT_COLOR_OK = \<lparr>red = 0, green = 125, blue = 0\<rparr>"
definition LIGHT_COLOR_WARN :: rgb where "LIGHT_COLOR_WARN = \<lparr>red = 0, green = 40, blue = 125\<rparr>"
definition LIGHT_COLOR_ALARM :: rgb where "LIGHT_COLOR_ALARM = \<lparr>red = 125, green = 0, blue = 0\<rparr>"

text \<open>The state of the node is the colour the LED was set to last.\<close>

definition light_set_rgb :: "u8 \<Rightarrow> u8 \<Rightarrow> u8 \<Rightarrow> rgb \<Rightarrow> rgb" where
  "light_set_rgb r g b led = \<lparr>red = r, green = g, blue = b\<rparr>"

definition light_ok :: "rgb \<Rightarrow> rgb" where "light_ok led = LIGHT_COLOR_OK"
definition light_warn :: "rgb \<Rightarrow> rgb" where "light_warn led = LIGHT_COLOR_WARN"
definition light_alarm :: "rgb \<Rightarrow> rgb" where "light_alarm led = LIGHT_COLOR_ALARM"
definition light_off :: "rgb \<Rightarrow> rgb" where "light_off led = \<lparr>red = 0, green = 0, blue = 0\<rparr>"

text \<open>
  Received data: the memory behind the pointer and the length, which is what \<^verbatim>\<open>recvfrom\<close>
  returned.
\<close>

definition light_on_data :: "u16 \<Rightarrow> u8 list \<Rightarrow> int \<Rightarrow> rgb \<Rightarrow> rgb" where
  "light_on_data src bytes len led =
     (if len = 3 then
        (if bytes ! 0 = evt_code CONFIRM then light_ok led
         else if bytes ! 0 = evt_code WARN then light_warn led
         else if bytes ! 0 = evt_code ALARM then light_alarm led
         else led)
      else led)"

definition light_set_shell :: "string list \<Rightarrow> rgb \<Rightarrow> rgb" where
  "light_set_shell argv led =
     (if length argv \<ge> 4
      then light_set_rgb (word_of_int (atoi (argv ! 1))) (word_of_int (atoi (argv ! 2)))
             (word_of_int (atoi (argv ! 3))) led
      else led)"

definition light_off_shell :: "string list \<Rightarrow> rgb \<Rightarrow> rgb" where
  "light_off_shell argv led = light_off led"

definition light_ok_shell :: "string list \<Rightarrow> rgb \<Rightarrow> rgb" where
  "light_ok_shell argv led = light_on_data 99 [evt_code CONFIRM, 12, 33] 3 led"

definition light_warn_shell :: "string list \<Rightarrow> rgb \<Rightarrow> rgb" where
  "light_warn_shell argv led = light_on_data 99 [evt_code WARN, 12, 33] 3 led"

definition light_alarm_shell :: "string list \<Rightarrow> rgb \<Rightarrow> rgb" where
  "light_alarm_shell argv led = light_on_data 99 [evt_code ALARM, 12, 33] 3 led"

section \<open>The UDP interface of the light node\<close>

definition APPLICATION_PORT :: u16 where "APPLICATION_PORT = 2350"

definition light_udpif_send :: "udp_ext \<Rightarrow> u16 \<Rightarrow> u16 \<Rightarrow> u8 list \<Rightarrow> udp_node \<Rightarrow> udp_node \<times> udp_eff list \<times> int"
  where
  "light_udpif_send X dst_addr port bytes u =
     (let u = (if send_socket u < 0 then init_send_socket X u else u);
          u = u\<lparr>socket_addr := (socket_addr u)\<lparr>sin6_addr := udpif_get_ipv6_address dst_addr,
                                             sin6_port := htons X port\<rparr>\<rparr>;
          sent = sendto_result X (n_sendto u)
      in (u\<lparr>n_sendto := n_sendto u + 1\<rparr>, [Sendto (send_socket u) (socket_addr u) bytes], sent))"

text \<open>
  The callback of the server: the one that \<open>main\<close> passes, or the one of the shell command, which
  prints. The node's UDP state is kept with the callback, which is null at first.
\<close>

datatype handler = Light_On_Data | Default_Data_Handler

definition light_start_server :: "udp_ext \<Rightarrow> u16 \<Rightarrow> handler \<Rightarrow> udp_node \<times> handler option
    \<Rightarrow> (udp_node \<times> handler option) \<times> udp_eff list" where
  "light_start_server X port ondata n =
     (case n of (u, h) \<Rightarrow>
      if server_socket u > 0 then ((u, h), [])
      else
        (let s = open_result X (n_open u);
             a = \<lparr>sin6_family_set = True, sin6_addr = replicate 8 0, sin6_port = htons X port\<rparr>
         in ((u\<lparr>server_socket := s, n_open := n_open u + 1, server_addr := a\<rparr>, Some ondata),
             Bind s a # (if bind_result X s = -1 then [Close s] else []) @ [Server_Thread])))"

text \<open>One round of the server: the last byte of the source address names the sender.\<close>

definition light_server_round :: "handler option \<Rightarrow> int \<Rightarrow> u8 list \<Rightarrow> u8 list \<Rightarrow> rgb \<Rightarrow> fault + rgb" where
  "light_server_round h bytes_received buffer src_addr led =
     (if bytes_received < 0 then Inr led
      else and_then (deref h) (\<lambda>h. case h of
        Light_On_Data \<Rightarrow> Inr (light_on_data (ucast (src_addr ! 15)) buffer bytes_received led)
      | Default_Data_Handler \<Rightarrow> Inr led))"

definition light_shell_server :: "udp_ext \<Rightarrow> string list \<Rightarrow> udp_node \<times> handler option
    \<Rightarrow> (udp_node \<times> handler option) \<times> udp_eff list" where
  "light_shell_server X argv n =
     (let port = (if length argv < 2 then APPLICATION_PORT else word_of_int (atoi (argv ! 1)))
      in light_start_server X port Default_Data_Handler n)"

text \<open>The start of the node: its server, and the light, whose LED is initialised after it.\<close>

definition light_main :: "udp_ext \<Rightarrow> udp_node \<Rightarrow> (udp_node \<times> handler option) \<times> udp_eff list" where
  "light_main X u = light_start_server X APPLICATION_PORT Light_On_Data (u, None)"

definition light_shell_send :: "udp_ext \<Rightarrow> string list \<Rightarrow> udp_node \<Rightarrow> udp_node \<times> udp_eff list" where
  "light_shell_send X argv u =
     (if length argv \<noteq> 3 then (u, [])
      else
        (let dst_addr = word_of_int (atoi (argv ! 1)) :: u8 in
         case light_udpif_send X (ucast dst_addr) APPLICATION_PORT (map of_char (argv ! 2)) u of
           (u, es, _) \<Rightarrow> (u, es)))"

end
