(* ===== verification/Debounce.thy ===== *)
theory Debounce
  imports Prelude
begin

text \<open>
  Debounced detection, as the sensor nodes of the demos do it: a direction counts once it has
  been seen some number of times in a row. The specification goes by the maximal runs of equal
  directions; the interface of a detector gives its correctness once for all of them.
\<close>

section \<open>Runs\<close>

function runs :: "'a list \<Rightarrow> 'a list list" where
  "runs [] = []"
| "runs (x # xs) = (x # takeWhile ((=) x) xs) # runs (dropWhile ((=) x) xs)"
  by pat_completeness auto

termination runs
  by (relation "measure length") (auto simp: less_Suc_eq_le length_dropWhile_le)

text \<open>A direction counts once in every run of more than \<open>L\<close> samples.\<close>

definition detections :: "nat \<Rightarrow> 'a list \<Rightarrow> 'a list" where
  "detections L ds = map hd (filter (\<lambda>r. L < length r) (runs ds))"

lemma runs_replicate:
  "0 < n \<Longrightarrow> runs (replicate n x @ ds) = (replicate n x @ takeWhile ((=) x) ds) # runs (dropWhile ((=) x) ds)"
proof (cases n)
  case (Suc m)
  have "takeWhile ((=) x) (replicate m x @ ds) = replicate m x @ takeWhile ((=) x) ds"
    "dropWhile ((=) x) (replicate m x @ ds) = dropWhile ((=) x) ds"
    by (induction m) auto
  with Suc show ?thesis by simp
qed simp

lemma detections_Nil [simp]: "detections L [] = []"
  by (simp add: detections_def)

lemma detections_enough:
  "L < n \<Longrightarrow> detections L (replicate n x @ ds) = x # detections L (dropWhile ((=) x) ds)"
  by (simp add: detections_def runs_replicate)

lemma detections_short:
  "0 < n \<Longrightarrow> n \<le> L \<Longrightarrow> ds = [] \<or> hd ds \<noteq> x \<Longrightarrow> detections L (replicate n x @ ds) = detections L ds"
proof (cases ds)
  case Nil
  assume "0 < n" "n \<le> L"
  with Nil runs_replicate [of n x "[]"] show ?thesis by (simp add: detections_def)
qed (auto simp: detections_def runs_replicate)

section \<open>A detector\<close>

text \<open>
  The detector remembers the last direction and how often it was repeated; the count stays
  above the limit once the direction was detected.
\<close>

definition deb :: "nat \<Rightarrow> (nat \<times> nat) option \<Rightarrow> nat \<Rightarrow> (nat \<times> nat) option \<times> nat list" where
  "deb L lk d =
     (let c = (case lk of None \<Rightarrow> 0 | Some (x, c) \<Rightarrow> if d = x then (if c < L then c + 1 else c) else 0)
      in if c = L then (Some (d, L + 1), [d]) else (Some (d, c), []))"

fun deb_run :: "nat \<Rightarrow> (nat \<times> nat) option \<Rightarrow> nat list \<Rightarrow> nat list" where
  "deb_run L lk [] = []"
| "deb_run L lk (d # ds) = (case deb L lk d of (lk', out) \<Rightarrow> out @ deb_run L lk' ds)"

lemma deb_run_Some:
  assumes "0 < L"
  shows "(c < L \<longrightarrow> deb_run L (Some (x, c)) ds = detections L (replicate (c + 1) x @ ds)) \<and>
    deb_run L (Some (x, L + 1)) ds = detections L (dropWhile ((=) x) ds)"
proof (induction ds arbitrary: x c)
  case Nil
  then show ?case using detections_short [of "c + 1" L "[]" x] by (auto simp: detections_def)
next
  case (Cons d ds)
  have new: "deb_run L (Some (x, c)) (d # ds) = detections L (d # ds)" if "d \<noteq> x" for c
    using that assms Cons.IH [of 0 d] by (simp add: deb_def)
  show ?case
  proof (cases "d = x")
    case False
    with new detections_short [of "c + 1" L "d # ds" x] show ?thesis by simp
  next
    case True
    have r: "replicate (c + 1) x @ x # ds = replicate (c + 2) x @ ds"
      by (simp add: replicate_app_Cons_same)
    have "deb_run L (Some (x, c)) (x # ds) = detections L (replicate (c + 2) x @ ds)" if "c < L"
    proof (cases "c + 1 = L")
      case True
      with that have "deb_run L (Some (x, c)) (x # ds) = x # detections L (dropWhile ((=) x) ds)"
        using Cons.IH [of 0 x] by (simp add: deb_def)
      moreover have "detections L (replicate (c + 2) x @ ds) = x # detections L (dropWhile ((=) x) ds)"
        by (rule detections_enough) (use True in simp)
      ultimately show ?thesis by simp
    next
      case False
      with that show ?thesis using Cons.IH [of "c + 1" x] by (simp add: deb_def)
    qed
    moreover have "deb_run L (Some (x, L + 1)) (x # ds) = detections L (dropWhile ((=) x) (x # ds))"
      using Cons.IH [of 0 x] by (simp add: deb_def)
    ultimately show ?thesis unfolding True r by blast
  qed
qed

lemma deb_run_start:
  assumes "0 < L"
  shows "deb_run L None ds = detections L ds"
proof (cases ds)
  case (Cons d ds')
  with deb_run_Some [OF assms, of 0 d ds'] assms show ?thesis by (simp add: deb_def)
qed simp

section \<open>The interface\<close>

text \<open>What a list of detections sends, with a counter that is passed along.\<close>

fun msgs :: "('c \<Rightarrow> nat \<Rightarrow> 'c \<times> 'o list) \<Rightarrow> 'c \<Rightarrow> nat list \<Rightarrow> 'c \<times> 'o list" where
  "msgs msg c [] = (c, [])"
| "msgs msg c (d # ds) =
     (case msg c d of (c, os) \<Rightarrow> case msgs msg c ds of (c, ps) \<Rightarrow> (c, os @ ps))"

lemma msgs_append:
  "msgs msg c (ds @ es) =
     (case msgs msg c ds of (c, os) \<Rightarrow> case msgs msg c es of (c, ps) \<Rightarrow> (c, os @ ps))"
  by (induction ds arbitrary: c) (simp_all split: prod.splits)

fun outputs :: "('s \<Rightarrow> 'e \<Rightarrow> 's \<times> 'o list) \<Rightarrow> 's \<Rightarrow> 'e list \<Rightarrow> 'o list" where
  "outputs step s [] = []"
| "outputs step s (e # es) = (case step s e of (s, os) \<Rightarrow> os @ outputs step s es)"

text \<open>
  A step of a node takes a sample; without a direction in it nothing happens, otherwise the
  node does what the detector does and sends its messages.
\<close>

locale debounced =
  fixes L :: nat
    and step :: "'s \<Rightarrow> 'e \<Rightarrow> 's \<times> 'o list"
    and sample :: "'e \<Rightarrow> nat option"
    and inv :: "'s \<Rightarrow> bool"
    and look :: "'s \<Rightarrow> (nat \<times> nat) option"
    and ctr :: "'s \<Rightarrow> 'c"
    and msg :: "'c \<Rightarrow> nat \<Rightarrow> 'c \<times> 'o list"
  assumes limit: "0 < L"
    and idle: "inv s \<Longrightarrow> sample e = None \<Longrightarrow>
      \<exists>s'. step s e = (s', []) \<and> inv s' \<and> look s' = look s \<and> ctr s' = ctr s"
    and detect: "inv s \<Longrightarrow> sample e = Some d \<Longrightarrow>
      \<exists>s' os. step s e = (s', os) \<and> inv s' \<and> look s' = fst (deb L (look s) d) \<and>
        (ctr s', os) = msgs msg (ctr s) (snd (deb L (look s) d))"
begin

lemma outputs_run:
  "inv s \<Longrightarrow> outputs step s es = snd (msgs msg (ctr s) (deb_run L (look s) (List.map_filter sample es)))"
proof (induction es arbitrary: s)
  case Nil
  then show ?case by (simp add: map_filter_simps)
next
  case (Cons e es)
  show ?case
  proof (cases "sample e")
    case None
    obtain s' where "step s e = (s', [])" "inv s'" "look s' = look s" "ctr s' = ctr s"
      using idle [OF Cons.prems None] by blast
    with None Cons.IH [of s'] show ?thesis by (simp add: map_filter_simps)
  next
    case (Some d)
    obtain s' os where s': "step s e = (s', os)" "inv s'" "look s' = fst (deb L (look s) d)"
      "(ctr s', os) = msgs msg (ctr s) (snd (deb L (look s) d))"
      using detect [OF Cons.prems Some] by blast
    with Some Cons.IH [of s'] show ?thesis
      by (simp add: map_filter_simps msgs_append split_beta s'(4) [symmetric])
  qed
qed

lemma outputs_detections:
  assumes "inv s" "look s = None"
  shows "outputs step s es = snd (msgs msg (ctr s) (detections L (List.map_filter sample es)))"
  using outputs_run [OF assms(1), of es] by (simp add: assms(2) deb_run_start [OF limit])

end

end
