(* ===== verification/Demo_Props.thy ===== *)
theory Demo_Props
  imports Demo_Light Debounce
begin

text \<open>
  Properties of the industry demo: the sensor's debounced detection against its
  specification by runs of equal directions, the light node under datagrams and shell commands, and
  the text of the temperature that the sensor's server sends.
\<close>

section \<open>The specification of the messages\<close>

text \<open>A direction counts once in every run of at least two samples, unless it is none.\<close>

definition stable_runs :: "nat list \<Rightarrow> nat list" where
  "stable_runs ds = filter (\<lambda>d. d \<noteq> 0) (detections REP_LIMIT ds)"

definition evt_of :: "nat \<Rightarrow> evt" where
  "evt_of d = (if d = 1 then CONFIRM else if d = 2 then ALARM else WARN)"

text \<open>
  The messages for a sequence of directions: the event, the number of the last warning or
  alarm, and the number of the message.
\<close>

fun messages :: "u8 \<Rightarrow> u8 \<Rightarrow> nat list \<Rightarrow> u8 list list" where
  "messages ev sq [] = []"
| "messages ev sq (d # ds) =
     (let ev' = (if evt_of d = CONFIRM then ev else ev + 1)
      in [evt_code (evt_of d), ev', sq] # messages ev' (sq + 1) ds)"

fun payload :: "udp_eff \<Rightarrow> u8 list list" where
  "payload (Sendto s a bs) = [bs]"
| "payload _ = []"

abbreviation payloads :: "udp_eff list \<Rightarrow> u8 list list" where
  "payloads es \<equiv> concat (map payload es)"

section \<open>The node is a detector\<close>

text \<open>The message of one detection, with the two counters of the node.\<close>

definition sensor_msg :: "u8 \<times> u8 \<Rightarrow> nat \<Rightarrow> (u8 \<times> u8) \<times> u8 list list" where
  "sensor_msg c d =
     (if d = 0 then (c, [])
      else (let ev' = (if evt_of d = CONFIRM then fst c else fst c + 1)
            in ((ev', snd c + 1), [[evt_code (evt_of d), ev', snd c]])))"

lemma msgs_messages: "snd (msgs sensor_msg (ev, sq) ds) = messages ev sq (filter (\<lambda>d. d \<noteq> 0) ds)"
  by (induction ds arbitrary: ev sq) (simp_all add: sensor_msg_def Let_def split_beta)

lemma direction_range: "direction ad \<le> 3"
  by (simp add: direction_def)

lemma udpif_send_payload:
  "udpif_send X a p bs u = (u', es, r) \<Longrightarrow> payloads es = [bs]"
  by (auto simp: udpif_send_def Let_def)

lemma send_event_effect:
  "\<exists>u es. send_event X e s =
     (s\<lparr>evt_no := (if e = CONFIRM then evt_no s else evt_no s + 1), sequ_no := sequ_no s + 1,
        udp := u\<rparr>, es) \<and>
     payloads es = [[evt_code e, if e = CONFIRM then evt_no s else evt_no s + 1, sequ_no s]]"
proof -
  obtain u es r where "udpif_send X 1 SERVER_PORT
      [evt_code e, if e = CONFIRM then evt_no s else evt_no s + 1, sequ_no s] (udp s) = (u, es, r)"
    by (rule prod_cases3)
  with udpif_send_payload [OF this] show ?thesis
    by (intro exI [of _ u] exI [of _ es])
      (simp add: send_event_def RETRANSMISSIONS_def observers_def Let_def split: if_splits)
qed

text \<open>What the node remembers; its state is -1 before the first sample.\<close>

definition sensor_step :: "udp_ext \<Rightarrow> sensor \<Rightarrow> l3g4200d_data \<Rightarrow> sensor \<times> u8 list list" where
  "sensor_step X s ad = (case check_state X ad s of (s, es) \<Rightarrow> (s, payloads es))"

definition sensor_inv :: "sensor \<Rightarrow> bool" where
  "sensor_inv s \<longleftrightarrow> sense_state s = -1 \<and> rep_count s = 0 \<or> 0 \<le> sense_state s \<and> sense_state s \<le> 3"

definition sensor_look :: "sensor \<Rightarrow> (nat \<times> nat) option" where
  "sensor_look s = (if sense_state s = -1 then None else Some (nat (sense_state s), rep_count s))"

definition sensor_ctr :: "sensor \<Rightarrow> u8 \<times> u8" where
  "sensor_ctr s = (evt_no s, sequ_no s)"

lemma same_direction:
  assumes "sensor_inv s"
  shows "word_of_int (sense_state s) = (word_of_nat (direction ad) :: u32) \<longleftrightarrow>
    sense_state s = int (direction ad)"
proof -
  have "direction ad = 0 \<or> direction ad = 1 \<or> direction ad = 2 \<or> direction ad = 3"
    using direction_range [of ad] by linarith
  moreover have "sense_state s = -1 \<or> sense_state s = 0 \<or> sense_state s = 1 \<or> sense_state s = 2 \<or>
      sense_state s = 3" using assms by (auto simp: sensor_inv_def)
  ultimately show ?thesis by auto
qed

text \<open>The handler that the detected direction selects.\<close>

definition handler_of :: "udp_ext \<Rightarrow> nat \<Rightarrow> sensor \<Rightarrow> sensor \<times> udp_eff list" where
  "handler_of X d s = (if d = 1 then evt_handler_ok X s else if d = 3 then evt_handler_warn X s
     else if d = 2 then evt_handler_alarm X s else (s, []))"

lemma handler_of_effect:
  assumes "d \<le> 3"
  shows "\<exists>s' es. handler_of X d s = (s', es) \<and> sense_state s' = sense_state s \<and> rep_count s' = rep_count s \<and>
    (sensor_ctr s', payloads es) = sensor_msg (sensor_ctr s) d"
proof -
  consider "d = 0" | "d = 1" | "d = 2" | "d = 3" using assms by linarith
  then show ?thesis
  proof cases
    case 1
    then show ?thesis by (simp add: handler_of_def sensor_msg_def)
  next
    case 2
    with send_event_effect [of X CONFIRM "s\<lparr>led_green := True, led_red := False\<rparr>"] show ?thesis
      by (auto simp: handler_of_def evt_handler_ok_def sensor_msg_def sensor_ctr_def evt_of_def Let_def)
  next
    case 3
    with send_event_effect [of X ALARM "s\<lparr>led_green := False, led_red := True\<rparr>"] show ?thesis
      by (auto simp: handler_of_def evt_handler_alarm_def sensor_msg_def sensor_ctr_def evt_of_def Let_def)
  next
    case 4
    with send_event_effect [of X WARN "s\<lparr>led_green := True, led_red := True\<rparr>"] show ?thesis
      by (auto simp: handler_of_def evt_handler_warn_def sensor_msg_def sensor_ctr_def evt_of_def Let_def)
  qed
qed

lemma check_state_eq:
  fixes s :: sensor and ad :: l3g4200d_data
  assumes "sensor_inv s"
  defines "d \<equiv> direction ad"
  defines "c \<equiv> (if sense_state s = int d then (if rep_count s < REP_LIMIT then rep_count s + 1 else rep_count s)
      else 0)"
  shows "check_state X ad s =
    (if c = REP_LIMIT then handler_of X d (s\<lparr>sense_state := int d, rep_count := REP_LIMIT + 1\<rparr>)
     else (s\<lparr>sense_state := int d, rep_count := c\<rparr>, []))"
proof -
  have t: "(if word_of_int (sense_state s) = (word_of_nat (direction ad) :: u32)
      then (if rep_count s < REP_LIMIT then s\<lparr>rep_count := rep_count s + 1\<rparr> else s)
      else s\<lparr>sense_state := int (direction ad), rep_count := 0\<rparr>) = s\<lparr>sense_state := int d, rep_count := c\<rparr>"
    unfolding same_direction [OF assms(1)] unfolding d_def [symmetric] by (cases s) (simp add: c_def)
  show ?thesis
    unfolding check_state_def Let_def t
    by (simp add: handler_of_def STATE_NORMAL_def STATE_DOWN1_def STATE_DOWN2_def)
qed

interpretation sensor_node: debounced REP_LIMIT "sensor_step X" "\<lambda>ad. Some (direction ad)" sensor_inv
  sensor_look sensor_ctr sensor_msg for X
proof unfold_locales
  show "0 < REP_LIMIT" by (simp add: REP_LIMIT_def)
next
  fix s :: sensor and e d
  assume s: "sensor_inv s" and "Some (direction e) = Some d"
  then have d: "direction e = d" "d \<le> 3" using direction_range [of e] by auto
  define c where "c = (if sense_state s = int d
    then (if rep_count s < REP_LIMIT then rep_count s + 1 else rep_count s) else 0)"
  have look: "deb REP_LIMIT (sensor_look s) d =
      (if c = REP_LIMIT then (Some (d, REP_LIMIT + 1), [d]) else (Some (d, c), []))"
    using s d(2) by (auto simp: deb_def sensor_look_def sensor_inv_def c_def Let_def REP_LIMIT_def)
  have step: "check_state X e s = (if c = REP_LIMIT
      then handler_of X d (s\<lparr>sense_state := int d, rep_count := REP_LIMIT + 1\<rparr>)
      else (s\<lparr>sense_state := int d, rep_count := c\<rparr>, []))"
    using check_state_eq [OF s, of X e] by (simp add: d(1) c_def)
  obtain s' es where h: "handler_of X d (s\<lparr>sense_state := int d, rep_count := REP_LIMIT + 1\<rparr>) = (s', es)"
    "sense_state s' = int d" "rep_count s' = REP_LIMIT + 1"
    "(sensor_ctr s', payloads es) = sensor_msg (sensor_ctr s) d"
    using handler_of_effect [OF d(2), of X "s\<lparr>sense_state := int d, rep_count := REP_LIMIT + 1\<rparr>"]
    by (auto simp: sensor_ctr_def)
  show "\<exists>s' os. sensor_step X s e = (s', os) \<and> sensor_inv s' \<and>
      sensor_look s' = fst (deb REP_LIMIT (sensor_look s) d) \<and>
      (sensor_ctr s', os) = msgs sensor_msg (sensor_ctr s) (snd (deb REP_LIMIT (sensor_look s) d))"
    using d h unfolding sensor_step_def step look
    by (cases "sensor_msg (sensor_ctr s) d")
      (auto simp: sensor_inv_def sensor_look_def sensor_ctr_def)
qed simp

lemma sensethread_outputs: "payloads (snd (sensethread X ads s)) = outputs (sensor_step X) s ads"
  by (induction ads arbitrary: s) (simp_all add: sensor_step_def split_beta)

lemma sensethread_payloads:
  "payloads (snd (sensethread X ads (sensor_start g r))) =
    messages 0 0 (stable_runs (map direction ads))"
proof -
  have "List.map_filter (\<lambda>ad. Some (direction ad)) ads = map direction ads"
    by (induction ads) (simp_all add: map_filter_simps)
  then show ?thesis
    using sensor_node.outputs_detections [of "sensor_start g r" X ads]
    by (simp add: sensethread_outputs stable_runs_def msgs_messages sensor_inv_def sensor_look_def
      sensor_ctr_def sensor_start_def)
qed

text \<open>
  C23. The sensor node sends exactly one message for every run of at least two equal
  directions among its samples, in the order of the runs, and none for single samples or
  samples without a direction: a confirmation, an alarm or a warning for the x, y or z axis,
  with the number of warnings and alarms so far and the number of the message, both modulo
  256.
\<close>

theorem sensor_events_debounced:
  "payloads (snd (sensethread X ads (sensor_start g r))) =
    messages 0 0 (stable_runs (map direction ads))"
  by (rule sensethread_payloads)

section \<open>The light\<close>

text \<open>
  What happens to the light node: the server thread receives a datagram (the result of the call,
  the buffer and the source address), or the shell runs one of the node's own commands.
\<close>

datatype light_ev = Datagram int "u8 list" "u8 list" | Cmd_Server "string list" | Cmd_Send "string list"
  | Cmd_Set "string list" | Cmd_Off "string list" | Cmd_Ok "string list" | Cmd_Warn "string list"
  | Cmd_Alarm "string list"

type_synonym lamp_node = "(udp_node \<times> handler option) \<times> rgb"

definition light_step :: "udp_ext \<Rightarrow> lamp_node \<Rightarrow> light_ev \<Rightarrow> fault + lamp_node" where
  "light_step X n e = (case n of ((u, h), led) \<Rightarrow> (case e of
     Datagram len buffer src \<Rightarrow> and_then (light_server_round h len buffer src led) (\<lambda>led. Inr ((u, h), led))
   | Cmd_Server argv \<Rightarrow> Inr (fst (light_shell_server X argv (u, h)), led)
   | Cmd_Send argv \<Rightarrow> Inr ((fst (light_shell_send X argv u), h), led)
   | Cmd_Set argv \<Rightarrow> Inr ((u, h), light_set_shell argv led)
   | Cmd_Off argv \<Rightarrow> Inr ((u, h), light_off_shell argv led)
   | Cmd_Ok argv \<Rightarrow> Inr ((u, h), light_ok_shell argv led)
   | Cmd_Warn argv \<Rightarrow> Inr ((u, h), light_warn_shell argv led)
   | Cmd_Alarm argv \<Rightarrow> Inr ((u, h), light_alarm_shell argv led)))"

text \<open>The colour an event asks for, by the codes of the messages and the numbers of the colours.\<close>

definition colour_of :: "light_ev \<Rightarrow> rgb option" where
  "colour_of e =
     (let ok = \<lparr>red = 0, green = 125, blue = 0\<rparr>; warn = \<lparr>red = 0, green = 40, blue = 125\<rparr>;
          alarm = \<lparr>red = 125, green = 0, blue = 0\<rparr>
      in case e of
           Datagram len buffer _ \<Rightarrow>
             if len = 3 then map_of [(5 :: u8, ok), (6, warn), (4, alarm)] (buffer ! 0) else None
         | Cmd_Set argv \<Rightarrow>
             if 4 \<le> length argv
             then Some \<lparr>red = word_of_int (atoi (argv ! 1)), green = word_of_int (atoi (argv ! 2)),
                        blue = word_of_int (atoi (argv ! 3))\<rparr>
             else None
         | Cmd_Off _ \<Rightarrow> Some \<lparr>red = 0, green = 0, blue = 0\<rparr>
         | Cmd_Ok _ \<Rightarrow> Some ok | Cmd_Warn _ \<Rightarrow> Some warn | Cmd_Alarm _ \<Rightarrow> Some alarm
         | _ \<Rightarrow> None)"

definition listening :: "udp_ext \<Rightarrow> lamp_node \<Rightarrow> bool" where
  "listening X n \<longleftrightarrow> 0 < server_socket (fst (fst n)) \<and> snd (fst n) = Some Light_On_Data \<and>
     sin6_port (server_addr (fst (fst n))) = htons X 2350"

lemmas light_defs = light_on_data_def evt_code_def light_ok_def light_warn_def light_alarm_def
  LIGHT_COLOR_OK_def LIGHT_COLOR_WARN_def LIGHT_COLOR_ALARM_def light_set_shell_def light_set_rgb_def
  light_off_shell_def light_off_def light_ok_shell_def light_warn_shell_def light_alarm_shell_def

lemma light_send_server:
  "server_socket (fst (light_shell_send X argv u)) = server_socket u"
  "server_addr (fst (light_shell_send X argv u)) = server_addr u"
  by (simp_all add: light_shell_send_def light_udpif_send_def init_send_socket_def Let_def)

lemma light_step_colour:
  assumes "listening X n"
  shows "\<exists>n'. light_step X n e = Inr n' \<and> listening X n' \<and>
    snd n' = (case colour_of e of None \<Rightarrow> snd n | Some c \<Rightarrow> c)"
proof -
  obtain u h led where n: "n = ((u, h), led)" by (metis surj_pair)
  show ?thesis
  proof (cases e)
    case (Cmd_Server argv)
    then show ?thesis using assms
      by (simp add: n light_step_def listening_def colour_of_def light_shell_server_def light_start_server_def Let_def)
  next
    case (Cmd_Send argv)
    then show ?thesis using assms
      by (simp add: n light_step_def listening_def colour_of_def light_send_server)
  qed (use assms in \<open>auto simp: n light_step_def listening_def colour_of_def light_server_round_def light_defs\<close>)
qed

text \<open>
  C24. The light node from its start on, when its server got a socket with a number above 0: whatever
  datagrams arrive in its buffer and whatever the shell commands of the node do in between, nothing faults,
  the server goes on listening with the light's callback on port 2350 (no other server can be
  started over it), and the light shows what the last event that sets a colour asked for: a
  datagram of exactly three bytes whose first one is the code of a confirmation (green), an alarm
  (red) or a warning (blue), or a command. Before any it keeps its colour.
\<close>

theorem light_shows_last_command:
  assumes "0 < open_result X (n_open u)" "server_socket u \<le> 0"
  shows "\<exists>u' led'. run_res (light_step X) (fst (light_main X u), led) es = Inr ((u', Some Light_On_Data), led') \<and>
    0 < server_socket u' \<and> sin6_port (server_addr u') = htons X 2350 \<and>
    led' = last (led # List.map_filter colour_of es)"
proof -
  have run: "\<exists>n'. run_res (light_step X) n es = Inr n' \<and> listening X n' \<and>
      snd n' = last (snd n # List.map_filter colour_of es)" if "listening X n" for n
    using that
  proof (induction es arbitrary: n)
    case (Cons e es)
    obtain m where m: "light_step X n e = Inr m" "listening X m"
      "snd m = (case colour_of e of None \<Rightarrow> snd n | Some c \<Rightarrow> c)"
      using light_step_colour [OF Cons.prems] by blast
    from Cons.IH [OF m(2)] m(1,3) show ?case by (auto simp: map_filter_simps split: option.splits)
  qed (simp add: map_filter_simps)
  have "listening X (fst (light_main X u), led)"
    using assms by (simp add: light_main_def light_start_server_def listening_def APPLICATION_PORT_def Let_def)
  from run [OF this] show ?thesis by (auto simp: listening_def)
qed

definition ex_light_udp :: udp_ext where
  "ex_light_udp = \<lparr>open_result = (\<lambda>n. int n + 1), sendto_result = (\<lambda>n. 3), bind_result = (\<lambda>s. 0), htons = id\<rparr>"

lemma light_shows_last_command_witness:
  "\<exists>u' led'. run_res (light_step ex_light_udp) (fst (light_main ex_light_udp udp_start), \<lparr>red = 1, green = 2, blue = 3\<rparr>)
      [Cmd_Server [''server'', ''7''], Datagram 3 [6, 1, 0, 9] (replicate 16 0), Datagram (-1) [4, 0, 0, 9] [],
       Datagram 4 [4, 0, 0, 9] (replicate 16 0), Cmd_Send [''send'', ''33'', ''x'']] =
      Inr ((u', Some Light_On_Data), led') \<and> led' = \<lparr>red = 0, green = 40, blue = 125\<rparr>"
proof -
  have "0 < open_result ex_light_udp (n_open udp_start)" "server_socket udp_start \<le> 0"
    by (simp_all add: ex_light_udp_def udp_start_def)
  from light_shows_last_command [OF this, of "\<lparr>red = 1, green = 2, blue = 3\<rparr>"
      "[Cmd_Server [''server'', ''7''], Datagram 3 [6, 1, 0, 9] (replicate 16 0), Datagram (-1) [4, 0, 0, 9] [],
       Datagram 4 [4, 0, 0, 9] (replicate 16 0), Cmd_Send [''send'', ''33'', ''x'']]"]
  show ?thesis by (auto simp: map_filter_simps colour_of_def)
qed

section \<open>The temperature\<close>

text \<open>Reading a temperature in thousandths of a degree from its text.\<close>

definition read_temp :: "string \<Rightarrow> int" where
  "read_temp s = 1000 * atoi (takeWhile (\<lambda>c. c \<noteq> CHR ''.'') s)
     + atoi (tl (dropWhile (\<lambda>c. c \<noteq> CHR ''.'') s))"

lemma all_digits_no_point: "all_digits s \<Longrightarrow> CHR ''.'' \<notin> set s"
  by (metis all_digits_def digit_facts(4))

lemma read_temp_point:
  "all_digits s \<Longrightarrow> read_temp (s @ CHR ''.'' # t) = 1000 * atoi s + atoi t"
proof -
  assume s: "all_digits s"
  then have "takeWhile (\<lambda>c. c \<noteq> CHR ''.'') (s @ CHR ''.'' # t) = s"
    "dropWhile (\<lambda>c. c \<noteq> CHR ''.'') (s @ CHR ''.'' # t) = CHR ''.'' # t"
    using all_digits_no_point by (auto simp: takeWhile_append dropWhile_append)
  then show ?thesis by (simp add: read_temp_def)
qed

lemma atoi_then_space: "all_digits s \<Longrightarrow> s \<noteq> [] \<Longrightarrow> atoi (s @ CHR '' '' # t) = int (decnum 0 s)"
proof -
  assume s: "all_digits s" "s \<noteq> []"
  then obtain d r where r: "s = digit d # r" "d < 10" by (cases s) auto
  have "decnum 0 (s @ CHR '' '' # t) = decnum 0 s"
    using decnum_append [OF s(1)] by (simp add: digit_val_def)
  then show ?thesis using digit_facts [OF r(2)] unfolding r(1) by (simp add: atoi_def Let_def)
qed

lemma decnum_fmt_0i: "0 \<le> k \<Longrightarrow> decnum 0 (fmt_0i w k) = nat k" "0 \<le> k \<Longrightarrow> all_digits (fmt_0i w k)"
    "fmt_0i w k \<noteq> []"
  by (simp_all add: fmt_0i_def decnum_append decnum_zeros decnum_dec all_digits_dec)

lemma length_fmt: "\<bar>k\<bar> < 10 ^ d \<Longrightarrow> 0 < d \<Longrightarrow> length (fmt_i k) \<le> d + 1"
    "\<bar>k\<bar> < 10 ^ d \<Longrightarrow> 0 < d \<Longrightarrow> w \<le> d \<Longrightarrow> length (fmt_0i w k) \<le> d + 1"
proof -
  have l: "length (dec (nat j)) \<le> d" if "0 \<le> j" "j < 10 ^ d" "0 < d" for j
  proof (rule length_dec_le)
    show "nat j < 10 ^ d" using that by (simp add: nat_less_iff)
  qed (rule that)
  show "length (fmt_i k) \<le> d + 1" if "\<bar>k\<bar> < 10 ^ d" "0 < d"
    using l [of k] l [of "- k"] that by (auto simp: fmt_i_def)
  show "length (fmt_0i w k) \<le> d + 1" if "\<bar>k\<bar> < 10 ^ d" "0 < d" "w \<le> d"
    using l [of k] l [of "- k"] that by (auto simp: fmt_0i_def)
qed

lemma sdiv_1000: "0 \<le> t \<Longrightarrow> t sdiv 1000 = t div (1000 :: int)"
    "\<bar>t sdiv 1000\<bar> = \<bar>t\<bar> div (1000 :: int)" "\<bar>t - t sdiv 1000 * 1000\<bar> < (1000 :: int)"
proof -
  have p: "\<bar>j - j div 1000 * 1000\<bar> < (1000 :: int)" for j
  proof -
    have "j - j div 1000 * 1000 = j mod 1000" by (simp add: minus_div_mult_eq_mod)
    moreover have "0 \<le> j mod 1000" "j mod 1000 < 1000" by simp_all
    ultimately show ?thesis by linarith
  qed
  show "0 \<le> t \<Longrightarrow> t sdiv 1000 = t div (1000 :: int)"
    by (cases "t = 0") (simp_all add: signed_divide_int_def)
  show "\<bar>t sdiv 1000\<bar> = \<bar>t\<bar> div (1000 :: int)"
    by (cases "t = 0") (simp_all add: signed_divide_int_def abs_mult pos_imp_zdiv_nonneg_iff)
  show "\<bar>t - t sdiv 1000 * 1000\<bar> < (1000 :: int)"
    using p [of t] p [of "- t"]
    by (cases t "0 :: int" rule: linorder_cases) (simp_all add: signed_divide_int_def)
qed

lemma length_temp_text:
  assumes "\<bar>t\<bar> \<le> 2 ^ 31"
  shows "length (temp_text t) \<le> 17"
proof -
  have "\<bar>t sdiv 1000\<bar> < 10 ^ 7" unfolding sdiv_1000(2) using assms by simp
  then have "length (fmt_i (t sdiv 1000)) \<le> 8" using length_fmt(1) [of _ 7] by simp
  moreover have "length (fmt_0i 3 (t - t sdiv 1000 * 1000)) \<le> 4"
    using length_fmt(2) [of "t - t sdiv 1000 * 1000" 3 3] sdiv_1000(3) [of t] by simp
  ultimately show ?thesis by (simp add: temp_text_def Let_def)
qed

lemma read_temp_text:
  assumes "0 \<le> t"
  shows "read_temp (temp_text t) = t"
proof -
  let ?f = "t - t sdiv 1000 * 1000"
  have d: "t sdiv 1000 = t div 1000" "0 \<le> ?f" "0 \<le> t sdiv 1000"
    using assms by (simp_all add: sdiv_1000(1) pos_imp_zdiv_nonneg_iff minus_div_mult_eq_mod)
  have "all_digits (fmt_i (t sdiv 1000))" using d(3) by (simp add: fmt_i_def all_digits_dec)
  then have "read_temp (temp_text t) = 1000 * (t sdiv 1000) +
      atoi (fmt_0i 3 ?f @ CHR '' '' # [CHR 0xC2, CHR 0xB0] @ ''C'')"
    by (simp add: temp_text_def Let_def read_temp_point atoi_fmt_i)
  also have "atoi (fmt_0i 3 ?f @ CHR '' '' # [CHR 0xC2, CHR 0xB0] @ ''C'') = ?f"
    using atoi_then_space [OF decnum_fmt_0i(2,3)] decnum_fmt_0i(1) d(2) by simp
  finally show ?thesis by simp
qed

text \<open>
  C25. The sensor's server answers every datagram it receives without error: the text of any
  32-bit temperature fits the reply buffer, goes back to the sender's address at the server
  port, and read as a decimal number gives a temperature of at least zero back exactly.
\<close>

theorem server_replies_temperature:
  assumes "0 \<le> n" "- (2 ^ 31) \<le> t" "t < 2 ^ 31"
  shows "\<exists>text. server_round u n src t =
      Inr [Sendto (server_socket u) (src\<lparr>sin6_port := SERVER_PORT\<rparr>) (map of_char (text @ [CHR 0x00]))] \<and>
    length text < UDP_CONTENT \<and> (0 \<le> t \<longrightarrow> read_temp text = t)"
proof -
  have "\<bar>t\<bar> \<le> 2 ^ 31" using assms by linarith
  from length_temp_text [OF this] show ?thesis
    using assms(1) read_temp_text [of t]
    by (intro exI [of _ "temp_text t"]) (simp add: server_round_def Let_def UDP_CONTENT_def)
qed

lemma server_replies_temperature_witness:
  "\<exists>text. server_round udp_start 4 (socket_addr udp_start) 21075 =
      Inr [Sendto (server_socket udp_start) ((socket_addr udp_start)\<lparr>sin6_port := SERVER_PORT\<rparr>)
        (map of_char (text @ [CHR 0x00]))] \<and>
    length text < UDP_CONTENT \<and> (0 \<le> (21075 :: int) \<longrightarrow> read_temp text = 21075)"
  by (rule server_replies_temperature) simp_all

text \<open>
  Below zero the digits after the point carry a sign of their own, and between -1 and 0
  degrees the text starts with an unsigned zero: half a degree below zero reads as zero.
\<close>

lemma temp_text_below_zero:
  "temp_text (- 500) = ''0.-500 '' @ [CHR 0xC2, CHR 0xB0] @ ''C''"
  "temp_text (- 1050) = ''-1.-50 '' @ [CHR 0xC2, CHR 0xB0] @ ''C''"
  by code_simp+

text \<open>
  A server is started although its socket could not be opened, and then once more with every
  further call: the guard takes only positive sockets for running.
\<close>

lemma server_started_without_socket:
  assumes "open_result X (n_open u) = -1" "server_socket u \<le> 0"
  shows "Server_Thread \<in> set (snd (udpif_start_server X p u)) \<and>
    (open_result X (n_open u + 1) \<le> 0 \<longrightarrow>
      Server_Thread \<in> set (snd (udpif_start_server X p (fst (udpif_start_server X p u)))))"
  using assms by (simp add: udpif_start_server_def Let_def)

end
