(* ===== verification/Mqtt_Demo.thy ===== *)
theory Mqtt_Demo
  imports Decimal
begin

text \<open>
  The MQTT demo, \<^verbatim>\<open>src/dagstuhl23_demo/main.c\<close>: the connection, the shell commands that
  publish and subscribe, the clock that is set from a time server, and the thread that
  publishes the temperature. The MQTT and network libraries are an argument that gives each
  call its result from the calls so far; printing is left out.
\<close>

section \<open>The connection\<close>

definition DEFAULT_MQTT_HOST :: string where "DEFAULT_MQTT_HOST = ''mqtt.dahahm.de''"
definition DEFAULT_MQTT_PORT :: int where "DEFAULT_MQTT_PORT = 1883"
definition DEFAULT_MQTT_USER :: string where "DEFAULT_MQTT_USER = ''dagstuhl''"
definition DEFAULT_MQTT_PWD :: string where "DEFAULT_MQTT_PWD = ''JointheRIOT''"
definition DEFAULT_MQTT_TOPIC :: string where "DEFAULT_MQTT_TOPIC = ''cmnd/delock/POWER''"
definition TEMP_MQTT_TOPIC :: string where "TEMP_MQTT_TOPIC = ''dahahm/sensors/dagstuhl''"
definition DEFAULT_KEEPALIVE_SEC :: int where "DEFAULT_KEEPALIVE_SEC = 10"
definition MQTT_VERSION_v311 :: int where "MQTT_VERSION_v311 = 4"
definition MAX_LEN_TOPIC :: nat where "MAX_LEN_TOPIC = 100"
definition MAX_TOPICS :: nat where "MAX_TOPICS = 4"

text \<open>
  What is passed to the libraries; the client's name is the one of the board and left out.
\<close>

datatype qos = QOS0 | QOS1 | QOS2

record connect_data =
  MQTTVersion :: int
  username :: string
  password :: string
  keepAliveInterval :: int
  cleansession :: bool
  willFlag :: bool

datatype mqtt_call = NetworkConnect string int | MQTTConnect connect_data
  | MQTTPublish string string qos | MQTTSubscribe string qos | MQTTUnsubscribe string
  | MQTTDisconnect | NetworkDisconnect

text \<open>The result of the last of the given calls.\<close>

type_synonym mqtt_ext = "mqtt_call list \<Rightarrow> int"

text \<open>
  The state: the number of topics, the array \<open>_topic_to_subscribe\<close> of \<open>MAX_TOPICS\<close> rows of
  \<open>MAX_LEN_TOPIC\<close> characters, one behind the other, and the calls of the libraries so far.
\<close>

record mqtt_node =
  topic_cnt :: int
  topic_mem :: string
  mqtt_calls :: "mqtt_call list"

definition mqtt_start :: mqtt_node where
  "mqtt_start = \<lparr>topic_cnt = 0, topic_mem = replicate (MAX_TOPICS * MAX_LEN_TOPIC) (CHR 0x00),
     mqtt_calls = []\<rparr>"

definition mqtt_do :: "mqtt_ext \<Rightarrow> mqtt_call \<Rightarrow> mqtt_node \<Rightarrow> mqtt_node \<times> int" where
  "mqtt_do X c s = (s\<lparr>mqtt_calls := mqtt_calls s @ [c]\<rparr>, X (mqtt_calls s @ [c]))"

definition get_qos :: "string \<Rightarrow> qos" where
  "get_qos str = (let q = atoi str in if q = 1 then QOS1 else if q = 2 then QOS2 else QOS0)"

definition cmd_discon :: "mqtt_ext \<Rightarrow> mqtt_node \<Rightarrow> mqtt_node \<times> int" where
  "cmd_discon X s =
     (let s = s\<lparr>topic_cnt := 0\<rparr> in
      case mqtt_do X MQTTDisconnect s of (s, res) \<Rightarrow>
      case mqtt_do X NetworkDisconnect s of (s, _) \<Rightarrow> (s, res))"

definition con_data :: connect_data where
  "con_data = \<lparr>MQTTVersion = MQTT_VERSION_v311, username = DEFAULT_MQTT_USER,
     password = DEFAULT_MQTT_PWD, keepAliveInterval = DEFAULT_KEEPALIVE_SEC,
     cleansession = True, willFlag = False\<rparr>"

definition con :: "mqtt_ext \<Rightarrow> mqtt_node \<Rightarrow> mqtt_node \<times> int" where
  "con X s =
     (case mqtt_do X (NetworkConnect DEFAULT_MQTT_HOST DEFAULT_MQTT_PORT) s of (s, ret) \<Rightarrow>
      if ret < 0 then (s, ret)
      else
        (case mqtt_do X (MQTTConnect con_data) s of (s, ret) \<Rightarrow>
         if ret < 0 then (fst (cmd_discon X s), ret)
         else (s, if ret > 0 then 0 else 1)))"

section \<open>Publishing and subscribing\<close>

text \<open>The payload ends before the first 0.\<close>

definition pub :: "mqtt_ext \<Rightarrow> string \<Rightarrow> string \<Rightarrow> qos \<Rightarrow> mqtt_node \<Rightarrow> mqtt_node \<times> int" where
  "pub X topic msg q s =
     (case mqtt_do X (MQTTPublish topic msg q) s of (s, rc) \<Rightarrow>
      if rc < 0 then (fst (con X (fst (cmd_discon X s))), rc)
      else (s, rc))"

definition cmd_pub :: "mqtt_ext \<Rightarrow> string list \<Rightarrow> mqtt_node \<Rightarrow> mqtt_node \<times> int" where
  "cmd_pub X argv s =
     (if length argv < 2 then (s, 1)
      else
        (let q = (if length argv = 3 then get_qos (argv ! 2) else QOS0)
         in pub X DEFAULT_MQTT_TOPIC (argv ! 1) q s))"

text \<open>
  The topic is copied without its final 0 into the row of its number, and read back from
  there up to the next 0.
\<close>

definition cmd_sub :: "mqtt_ext \<Rightarrow> string list \<Rightarrow> mqtt_node \<Rightarrow> fault + mqtt_node \<times> int" where
  "cmd_sub X argv s =
     (if length argv < 2 then Inr (s, 1)
      else
        (let q = (if length argv \<ge> 3 then get_qos (argv ! 2) else QOS0) in
         if topic_cnt s > int MAX_TOPICS then Inr (s, -1)
         else if length (argv ! 1) > MAX_LEN_TOPIC then Inr (s, -1)
         else
           (let row = topic_cnt s * int MAX_LEN_TOPIC in
            and_then (mem_write (topic_mem s) row (argv ! 1)) (\<lambda>m.
            and_then (mem_string m row) (\<lambda>topic.
              case mqtt_do X (MQTTSubscribe topic q) (s\<lparr>topic_mem := m\<rparr>) of (s, ret) \<Rightarrow>
              if ret < 0 then Inr (fst (cmd_discon X s), ret)
              else Inr (s\<lparr>topic_cnt := topic_cnt s + 1\<rparr>, ret))))))"

definition cmd_unsub :: "mqtt_ext \<Rightarrow> string list \<Rightarrow> mqtt_node \<Rightarrow> mqtt_node \<times> int" where
  "cmd_unsub X argv s =
     (if length argv < 2 then (s, 1)
      else
        (case mqtt_do X (MQTTUnsubscribe (argv ! 1)) s of (s, ret) \<Rightarrow>
         if ret < 0 then (fst (cmd_discon X s), ret)
         else (s\<lparr>topic_cnt := topic_cnt s - 1\<rparr>, ret)))"

text \<open>The commands that the shell offers, by their arguments, and the steps of the shell.\<close>

datatype mqtt_cmd = Pub "string list" | Sub "string list" | Unsub "string list"

fun shell_step :: "mqtt_ext \<Rightarrow> mqtt_node \<Rightarrow> mqtt_cmd \<Rightarrow> fault + mqtt_node" where
  "shell_step X s (Pub argv) = Inr (fst (cmd_pub X argv s))"
| "shell_step X s (Sub argv) = and_then (cmd_sub X argv s) (\<lambda>(s, _). Inr s)"
| "shell_step X s (Unsub argv) = Inr (fst (cmd_unsub X argv s))"

section \<open>The clock\<close>

text \<open>The C library's broken-down time, and \<^verbatim>\<open>gmtime\<close> for times from 1970 on.\<close>

record tm =
  tm_year :: int
  tm_mon :: int
  tm_mday :: int
  tm_hour :: int
  tm_min :: int
  tm_sec :: int

definition leap :: "nat \<Rightarrow> bool" where
  "leap y \<longleftrightarrow> 4 dvd y \<and> (\<not> 100 dvd y \<or> 400 dvd y)"

definition year_days :: "nat \<Rightarrow> nat" where
  "year_days y = (if leap y then 366 else 365)"

definition month_days :: "nat \<Rightarrow> nat list" where
  "month_days y = [31, if leap y then 29 else 28, 31, 30, 31, 30, 31, 31, 30, 31, 30, 31]"

function year_split :: "nat \<Rightarrow> nat \<Rightarrow> nat \<times> nat" where
  "year_split y d = (if d < year_days y then (y, d) else year_split (y + 1) (d - year_days y))"
  by pat_completeness auto

termination year_split
  by (relation "measure snd") (auto simp: year_days_def)

declare year_split.simps [simp del]

fun month_split :: "nat list \<Rightarrow> nat \<Rightarrow> nat \<times> nat" where
  "month_split [] d = (0, d)"
| "month_split (l # ls) d =
     (if d < l then (0, d) else case month_split ls (d - l) of (m, r) \<Rightarrow> (m + 1, r))"

definition gmtime :: "nat \<Rightarrow> tm" where
  "gmtime t =
     (case year_split 1970 (t div 86400) of (y, d) \<Rightarrow>
      case month_split (month_days y) d of (m, r) \<Rightarrow>
        \<lparr>tm_year = int y - 1900, tm_mon = int m, tm_mday = int r + 1,
         tm_hour = int (t div 3600 mod 24), tm_min = int (t div 60 mod 60),
         tm_sec = int (t mod 60)\<rparr>)"

text \<open>
  The time that the real-time clock is set to, if it is: the arguments are whether the
  server's address can be parsed, the result of the synchronisation, and the microseconds
  since 1970 that it gives.
\<close>

definition get_time :: "bool \<Rightarrow> int \<Rightarrow> nat \<Rightarrow> tm option" where
  "get_time addr_ok sync usec =
     (if \<not> addr_ok then None
      else if sync < 0 then None
      else (let time = usec div 1000000; t = gmtime time in Some (t\<lparr>tm_hour := tm_hour t + 2\<rparr>)))"

section \<open>The published temperature\<close>

definition time_text :: "tm \<Rightarrow> string" where
  "time_text t = fmt_0i 2 (tm_year t + 1900 - 2000) @ ''-'' @ fmt_0i 2 (tm_mon t + 1) @ ''-'' @
     fmt_0i 2 (tm_mday t) @ '' '' @ fmt_0i 2 (tm_hour t) @ '':'' @ fmt_0i 2 (tm_min t) @ '':'' @
     fmt_0i 2 (tm_sec t)"

text \<open>
  \<^verbatim>\<open>sprintf\<close> into the array writes the text and a final 0. The clock may fail, and then
  nothing is written.
\<close>

definition mem_sprintf :: "string \<Rightarrow> int \<Rightarrow> string \<Rightarrow> fault + string" where
  "mem_sprintf m off s = mem_write m off (s @ [CHR 0x00])"

definition print_time :: "tm option \<Rightarrow> string \<Rightarrow> fault + string" where
  "print_time rtc out =
     (case rtc of None \<Rightarrow> Inr out | Some t \<Rightarrow> mem_sprintf out 0 (time_text t @ [CHR 0x0A]))"

definition weather_text :: string where
  "weather_text = '';990.18;1017.7779718583027;4;-60;1016;4;2791;170;1796;c196a3d861e3''"

definition temp_value :: "int \<Rightarrow> string" where
  "temp_value v = fmt_0i 2 (v sdiv 100) @ ''.'' @ fmt_0i 2 (v smod 100)"

text \<open>\<open>m0\<close> is what the stack held where the array \<open>s_val\<close> of 256 characters is placed.\<close>

definition dahahm_publish :: "mqtt_ext \<Rightarrow> string \<Rightarrow> tm option \<Rightarrow> int \<Rightarrow> mqtt_node \<Rightarrow> fault + mqtt_node" where
  "dahahm_publish X m0 rtc sensor_data s =
     and_then (print_time rtc m0) (\<lambda>m.
     and_then (mem_sprintf m 17 ''.000000;5;50.0;'') (\<lambda>m.
     and_then (mem_sprintf m 32 (temp_value sensor_data)) (\<lambda>m.
     and_then (mem_sprintf m 37 weather_text) (\<lambda>m.
     and_then (mem_string m 0) (\<lambda>msg. Inr (fst (pub X TEMP_MQTT_TOPIC msg QOS0 s)))))))"

text \<open>
  One round of the publisher: what the stack held, the clock, the result and the value of
  the sensor, and whether a button was pressed before the timeout.
\<close>

definition publisher_round :: "mqtt_ext \<Rightarrow> string \<times> tm option \<times> int \<times> u16 \<times> bool \<Rightarrow> mqtt_node \<Rightarrow> fault + mqtt_node"
  where
  "publisher_round X r s =
     (case r of (m0, rtc, sensor_read_result, val, pressed) \<Rightarrow>
      and_then (if sensor_read_result > 0 then dahahm_publish X m0 rtc (sint val) s else Inr s) (\<lambda>s.
      Inr (if pressed then fst (pub X DEFAULT_MQTT_TOPIC ''toggle'' QOS0 s) else s)))"

fun publisher :: "mqtt_ext \<Rightarrow> bool \<Rightarrow> (string \<times> tm option \<times> int \<times> u16 \<times> bool) list \<Rightarrow> mqtt_node \<Rightarrow> fault + mqtt_node"
  where
  "publisher X sensor [] s = Inr s"
| "publisher X sensor (r # rs) s =
     (if sensor then and_then (publisher_round X r s) (publisher X sensor rs) else Inr s)"

text \<open>The start of the node: the clock is set, and one attempt is made to connect.\<close>

definition mqtt_main :: "mqtt_ext \<Rightarrow> bool \<Rightarrow> int \<Rightarrow> nat \<Rightarrow> tm option \<times> mqtt_node" where
  "mqtt_main X addr_ok sync usec = (get_time addr_ok sync usec, fst (con X mqtt_start))"

end
