(* ===== verification/Mqtt_Props.thy ===== *)
theory Mqtt_Props
  imports Mqtt_Demo
begin

text \<open>
  Properties of the MQTT demo: the published text, the memory of the topics over
  subscriptions, and the clock.
\<close>

lemma mem_sprintf_at:
  assumes "length s < length r"
  shows "mem_sprintf (p @ r) (int (length p)) s = Inr (p @ s @ CHR 0x00 # drop (length s + 1) r)"
  using mem_write_at [of "s @ [CHR 0x00]" r p] assms by (simp add: mem_sprintf_def)

section \<open>The published text\<close>

definition two_digits :: "int \<Rightarrow> bool" where "two_digits k \<longleftrightarrow> 0 \<le> k \<and> k < 100"

lemma all_digits_no_zero: "all_digits s \<Longrightarrow> CHR 0x00 \<notin> set s"
proof -
  have "digit d \<noteq> CHR 0x00" if "d < 10" for d
  proof
    assume "digit d = CHR 0x00"
    then have "(of_char (digit d) :: nat) = 0" by simp
    with that show False by (simp add: digit_def of_char_of take_bit_eq_mod)
  qed
  then show "all_digits s \<Longrightarrow> CHR 0x00 \<notin> set s" by (metis all_digits_def)
qed

lemma fmt_two_digits:
  assumes "two_digits k"
  shows "length (fmt_0i 2 k) = 2" "all_digits (fmt_0i 2 k)" "atoi (fmt_0i 2 k) = k"
proof -
  from assms have k: "0 \<le> k" "nat k < 10 ^ 2" by (auto simp: two_digits_def nat_less_iff)
  have "length (dec (nat k)) \<le> 2" by (rule length_dec_le [OF k(2)]) simp
  then show "length (fmt_0i 2 k) = 2" using k by (simp add: fmt_0i_def)
  show d: "all_digits (fmt_0i 2 k)" using k by (simp add: fmt_0i_def all_digits_dec)
  have "fmt_0i 2 k \<noteq> []" using k by (simp add: fmt_0i_def)
  then have "atoi (fmt_0i 2 k) = int (decnum 0 (fmt_0i 2 k))" by (rule atoi_all_digits [OF d])
  then show "atoi (fmt_0i 2 k) = k"
    using k by (simp add: fmt_0i_def decnum_append decnum_zeros decnum_dec)
qed

text \<open>The times whose fields have two digits each, which are those of the years 2000 to 2099.\<close>

definition tm_fields_ok :: "tm \<Rightarrow> bool" where
  "tm_fields_ok t \<longleftrightarrow> (\<forall>k \<in> set [tm_year t - 100, tm_mon t + 1, tm_mday t, tm_hour t, tm_min t, tm_sec t].
     two_digits k)"

lemma time_text_facts:
  assumes "tm_fields_ok t"
  shows "length (time_text t) = 17" "CHR 0x00 \<notin> set (time_text t)"
proof -
  have y: "tm_year t + 1900 - 2000 = tm_year t - 100" by simp
  show "length (time_text t) = 17"
    using assms by (simp add: time_text_def tm_fields_ok_def fmt_two_digits y)
  show "CHR 0x00 \<notin> set (time_text t)"
    using assms by (simp add: time_text_def tm_fields_ok_def y all_digits_no_zero [OF fmt_two_digits(2)])
qed

lemma sdiv_smod_100:
  assumes "0 \<le> v" "v < (10000 :: int)"
  shows "two_digits (v sdiv 100)" "two_digits (v smod 100)" "100 * (v sdiv 100) + v smod 100 = v"
proof -
  have d: "v sdiv 100 = v div 100"
    using assms by (cases "v = 0") (simp_all add: signed_divide_int_def)
  have m: "v smod 100 = v mod 100"
    using assms by (cases "v = 0") (simp_all add: signed_modulo_int_def sgn_if)
  show "two_digits (v sdiv 100)" "two_digits (v smod 100)" "100 * (v sdiv 100) + v smod 100 = v"
    using assms by (auto simp: d m two_digits_def pos_imp_zdiv_nonneg_iff)
qed

lemma temp_value_facts:
  assumes "0 \<le> v" "v < 10000"
  shows "length (temp_value v) = 5" "CHR 0x00 \<notin> set (temp_value v)"
  using fmt_two_digits [OF sdiv_smod_100(1) [OF assms]] fmt_two_digits [OF sdiv_smod_100(2) [OF assms]]
  by (simp_all add: temp_value_def all_digits_no_zero)

lemma weather_text_facts: "length weather_text = 66" "CHR 0x00 \<notin> set weather_text"
  by (simp_all add: weather_text_def)

text \<open>The text that the four prints leave in the array, behind any 17 characters.\<close>

lemma prints_behind:
  assumes "length p = 17" "length r = 239" "0 \<le> v" "v < 10000"
  shows "\<exists>r'. and_then (mem_sprintf (p @ r) 17 ''.000000;5;50.0;'') (\<lambda>m.
     and_then (mem_sprintf m 32 (temp_value v)) (\<lambda>m. mem_sprintf m 37 weather_text)) =
     Inr (p @ ''.000000;5;50.0;'' @ temp_value v @ weather_text @ CHR 0x00 # r')"
proof -
  define a where "a = ''.000000;5;50.0;''"
  have a: "length a = 15" by (simp add: a_def)
  define r1 where "r1 = CHR 0x00 # drop 16 r"
  define r2 where "r2 = CHR 0x00 # drop 6 r1"
  have l: "length r1 = 224" "length r2 = 219" using assms(2) by (simp_all add: r1_def r2_def)
  have 1: "mem_sprintf (p @ r) 17 a = Inr ((p @ a) @ r1)"
    using mem_sprintf_at [of a r p] assms(1,2) a by (simp add: r1_def)
  have 2: "mem_sprintf ((p @ a) @ r1) 32 (temp_value v) = Inr ((p @ a @ temp_value v) @ r2)"
    using mem_sprintf_at [of "temp_value v" r1 "p @ a"] assms a l(1) temp_value_facts(1) [OF assms(3,4)]
    by (simp add: r2_def)
  have 3: "mem_sprintf ((p @ a @ temp_value v) @ r2) 37 weather_text =
      Inr ((p @ a @ temp_value v) @ weather_text @ CHR 0x00 # drop (length weather_text + 1) r2)"
    using mem_sprintf_at [of weather_text r2 "p @ a @ temp_value v"] assms a l(2)
      temp_value_facts(1) [OF assms(3,4)] weather_text_facts(1) by simp
  show ?thesis unfolding a_def [symmetric] 1 and_then_Inr 2 3 by simp
qed

lemma dahahm_publish_text:
  assumes "print_time rtc m0 = Inr m1"
    and "and_then (mem_sprintf m1 17 ''.000000;5;50.0;'') (\<lambda>m.
     and_then (mem_sprintf m 32 (temp_value v)) (\<lambda>m. mem_sprintf m 37 weather_text)) =
     Inr (p @ q1 @ q2 @ q3 @ CHR 0x00 # r)"
    and "CHR 0x00 \<notin> set (p @ q1 @ q2 @ q3)"
  shows "dahahm_publish X m0 rtc v s = Inr (fst (pub X TEMP_MQTT_TOPIC (p @ q1 @ q2 @ q3) QOS0 s))"
  using assms mem_string_start [OF assms(3), of r]
  by (auto simp: dahahm_publish_def and_then_eq_Inr)

text \<open>
  With a running clock in the years 2000 to 2099 and a temperature from 0 to 99.99 degrees
  the published text is the time, the temperature with two digits on each side of the point,
  and the constant rest: it does not depend on what the stack held, and its temperature reads
  back exactly.
\<close>

theorem temperature_published:
  assumes "length m0 = 256" "tm_fields_ok t" "0 \<le> v" "v < 10000"
  shows "dahahm_publish X m0 (Some t) v s =
      Inr (fst (pub X TEMP_MQTT_TOPIC
        (time_text t @ ''.000000;5;50.0;'' @ temp_value v @ weather_text) QOS0 s)) \<and>
    length (time_text t) = 17 \<and>
    100 * atoi (take 2 (temp_value v)) + atoi (drop 3 (temp_value v)) = v"
proof (intro conjI)
  note tt = time_text_facts [OF assms(2)]
  obtain c r where r: "print_time (Some t) m0 = Inr (time_text t @ r)" "length r = 239"
    using mem_sprintf_at [of "time_text t @ [CHR 0x0A]" m0 "[]"] tt(1) assms(1)
    by (simp add: print_time_def)
  obtain r' where r': "and_then (mem_sprintf (time_text t @ r) 17 ''.000000;5;50.0;'') (\<lambda>m.
     and_then (mem_sprintf m 32 (temp_value v)) (\<lambda>m. mem_sprintf m 37 weather_text)) =
     Inr (time_text t @ ''.000000;5;50.0;'' @ temp_value v @ weather_text @ CHR 0x00 # r')"
    using prints_behind [OF tt(1) r(2) assms(3,4)] by blast
  show "dahahm_publish X m0 (Some t) v s =
      Inr (fst (pub X TEMP_MQTT_TOPIC
        (time_text t @ ''.000000;5;50.0;'' @ temp_value v @ weather_text) QOS0 s))"
    by (rule dahahm_publish_text [OF r(1) r']) (simp add: tt temp_value_facts assms weather_text_facts)
  show "length (time_text t) = 17" by (rule tt)
  show "100 * atoi (take 2 (temp_value v)) + atoi (drop 3 (temp_value v)) = v"
    using sdiv_smod_100 [OF assms(3,4)] by (simp add: temp_value_def fmt_two_digits)
qed

definition sample_tm :: tm where
  "sample_tm = \<lparr>tm_year = 123, tm_mon = 10, tm_mday = 14, tm_hour = 22, tm_min = 13, tm_sec = 20\<rparr>"

lemma temperature_published_witness:
  "dahahm_publish (\<lambda>_. 0) (replicate 256 (CHR ''x'')) (Some sample_tm) 2145 mqtt_start =
      Inr (fst (pub (\<lambda>_. 0) TEMP_MQTT_TOPIC
        (time_text sample_tm @ ''.000000;5;50.0;'' @ temp_value 2145 @ weather_text) QOS0 mqtt_start)) \<and>
    length (time_text sample_tm) = 17 \<and>
    100 * atoi (take 2 (temp_value 2145)) + atoi (drop 3 (temp_value 2145)) = 2145"
  by (rule temperature_published) (simp_all add: tm_fields_ok_def two_digits_def sample_tm_def)

text \<open>
  Without the clock the array keeps what the stack held in its first 17 characters, and that
  is published; if one of them is 0, the text ends there.
\<close>

lemma published_without_clock:
  assumes "length m0 = 256" "0 \<le> v" "v < 10000"
  shows "dahahm_publish X m0 None v s =
    (let p = take 17 m0;
         msg = (if CHR 0x00 \<in> set p then takeWhile (\<lambda>c. c \<noteq> CHR 0x00) p
                else p @ ''.000000;5;50.0;'' @ temp_value v @ weather_text)
     in Inr (fst (pub X TEMP_MQTT_TOPIC msg QOS0 s)))"
proof -
  define p where "p = take 17 m0"
  define q where "q = ''.000000;5;50.0;'' @ temp_value v @ weather_text"
  have q: "CHR 0x00 \<notin> set q" by (simp add: q_def temp_value_facts assms weather_text_facts)
  have m0: "m0 = p @ drop 17 m0" "length p = 17" "length (drop 17 m0) = 239"
    using assms(1) by (simp_all add: p_def)
  obtain r' where r': "and_then (mem_sprintf m0 17 ''.000000;5;50.0;'') (\<lambda>m.
     and_then (mem_sprintf m 32 (temp_value v)) (\<lambda>m. mem_sprintf m 37 weather_text)) =
     Inr (p @ q @ CHR 0x00 # r')"
    using prints_behind [OF m0(2,3) assms(2,3)] m0(1) by (auto simp: q_def)
  have "mem_string (p @ q @ CHR 0x00 # r') 0 =
      Inr (if CHR 0x00 \<in> set p then takeWhile (\<lambda>c. c \<noteq> CHR 0x00) p else p @ q)"
  proof (cases "CHR 0x00 \<in> set p")
    case True
    then obtain p1 p2 where p: "p = p1 @ CHR 0x00 # p2" "CHR 0x00 \<notin> set p1"
      by (metis split_list_first)
    then have "takeWhile (\<lambda>c. c \<noteq> CHR 0x00) p = p1" by (simp add: takeWhile_append takeWhile_eq_all_conv)
    with True mem_string_start [OF p(2), of "p2 @ q @ CHR 0x00 # r'"] show ?thesis by (simp add: p(1))
  next
    case False
    with q mem_string_start [of "p @ q" r'] show ?thesis by simp
  qed
  with r' show ?thesis
    unfolding Let_def p_def [symmetric] q_def [symmetric]
    by (auto simp: dahahm_publish_def print_time_def and_then_eq_Inr)
qed

text \<open>
  Below zero the digits after the point get a sign of their own, and from 100 degrees on the
  last digit is overwritten by the constant rest: temperatures of -5.05 and 100.12 degrees.
\<close>

lemma temperature_text_outside:
  "temp_value (- 505) = ''-5.-5''" "temp_value (- 5) = ''00.-5''" "temp_value 10012 = ''100.12''"
  by code_simp+

section \<open>The topics\<close>

text \<open>
  While nothing is unsubscribed and the connection holds, the rows of the array are the
  topics subscribed so far, filled up with zeros, and the rest is zero.
\<close>

definition topic_row :: "string \<Rightarrow> string" where
  "topic_row t = t @ replicate (MAX_LEN_TOPIC - length t) (CHR 0x00)"

definition topic_ok :: "string \<Rightarrow> bool" where
  "topic_ok t \<longleftrightarrow> length t < MAX_LEN_TOPIC \<and> CHR 0x00 \<notin> set t"

definition topic_rows :: "mqtt_node \<Rightarrow> string list \<Rightarrow> bool" where
  "topic_rows s ts \<longleftrightarrow> length ts \<le> MAX_TOPICS \<and> (\<forall>t \<in> set ts. topic_ok t) \<and>
     topic_cnt s = int (length ts) \<and>
     topic_mem s = concat (map topic_row ts) @
       replicate ((MAX_TOPICS - length ts) * MAX_LEN_TOPIC) (CHR 0x00)"

lemma length_topic_rows:
  assumes "\<forall>t \<in> set ts. topic_ok t"
  shows "length (concat (map topic_row ts)) = length ts * MAX_LEN_TOPIC"
  using assms by (induction ts) (auto simp: topic_row_def topic_ok_def)

text \<open>One subscription: the row ends with the next 0 that it holds, of the topic or behind it.\<close>

lemma cmd_sub_at:
  assumes "topic_mem s = p @ r" "topic_cnt s * int MAX_LEN_TOPIC = int (length p)"
    and "topic_cnt s \<le> int MAX_TOPICS" "length t \<le> MAX_LEN_TOPIC" "length t \<le> length r"
    and "t @ drop (length t) r = w @ CHR 0x00 # r2" "CHR 0x00 \<notin> set w"
    and "length argv = 2" "argv ! 1 = t" and ok: "\<And>cs. 0 \<le> X cs"
  shows "cmd_sub X argv s = Inr (s\<lparr>topic_mem := p @ w @ CHR 0x00 # r2,
     mqtt_calls := mqtt_calls s @ [MQTTSubscribe w QOS0], topic_cnt := topic_cnt s + 1\<rparr>,
     X (mqtt_calls s @ [MQTTSubscribe w QOS0]))"
proof -
  have "mem_write (topic_mem s) (topic_cnt s * int MAX_LEN_TOPIC) t = Inr (p @ w @ CHR 0x00 # r2)"
    unfolding assms(1,2) by (subst mem_write_at) (simp_all add: assms(5,6))
  moreover have "mem_string (p @ w @ CHR 0x00 # r2) (topic_cnt s * int MAX_LEN_TOPIC) = Inr w"
    unfolding assms(2) by (rule mem_string_at [OF assms(7)])
  moreover have "0 \<le> X (mqtt_calls s @ [MQTTSubscribe w QOS0])" by (rule ok)
  ultimately show ?thesis
    using assms(3,4,8,9) by (simp add: cmd_sub_def mqtt_do_def Let_def)
qed

lemma cmd_sub_row:
  assumes rows: "topic_rows s ts" and "length ts < MAX_TOPICS" "topic_ok t"
    and "length argv = 2" "argv ! 1 = t" and ok: "\<And>cs. 0 \<le> X cs"
  shows "\<exists>s' r. cmd_sub X argv s = Inr (s', r) \<and> topic_rows s' (ts @ [t]) \<and>
    mqtt_calls s' = mqtt_calls s @ [MQTTSubscribe t QOS0]"
proof -
  let ?p = "concat (map topic_row ts)"
  define k where "k = MAX_TOPICS - length ts - 1"
  define z where "z = MAX_LEN_TOPIC - length t"
  have k: "MAX_TOPICS - length ts = Suc k" using assms(2) by (simp add: k_def)
  have t: "length t < MAX_LEN_TOPIC" "CHR 0x00 \<notin> set t" "MAX_LEN_TOPIC = length t + z" "0 < z"
    using assms(3) by (simp_all add: topic_ok_def z_def)
  have p: "length ?p = length ts * MAX_LEN_TOPIC"
    using rows length_topic_rows by (simp add: topic_rows_def)
  have cnt: "topic_cnt s * int MAX_LEN_TOPIC = int (length ?p)"
    using rows p by (simp add: topic_rows_def)
  have m: "topic_mem s = ?p @ replicate (MAX_LEN_TOPIC + k * MAX_LEN_TOPIC) (CHR 0x00)"
    using rows k by (simp add: topic_rows_def)
  let ?r = "replicate (k * MAX_LEN_TOPIC) (CHR 0x00)"
  obtain z' where z': "replicate z (CHR 0x00) = CHR 0x00 # z'" using t(4) by (cases z) auto
  have zz: "t @ drop (length t) (replicate (MAX_LEN_TOPIC + k * MAX_LEN_TOPIC) (CHR 0x00)) =
      t @ CHR 0x00 # z' @ ?r"
    using t(3) by (simp add: replicate_add z' [symmetric])
  have c: "topic_cnt s \<le> int MAX_TOPICS" using rows by (simp add: topic_rows_def)
  have "topic_rows (s\<lparr>topic_mem := ?p @ t @ CHR 0x00 # z' @ ?r,
      mqtt_calls := cs, topic_cnt := topic_cnt s + 1\<rparr>) (ts @ [t])" for cs
    using rows assms(2,3) z' by (simp add: topic_rows_def topic_row_def z_def k_def)
  with cmd_sub_at [OF m cnt c _ _ zz t(2) assms(4,5) ok] t(1) show ?thesis by simp
qed

lemma subs_rows:
  assumes ok: "\<And>cs. 0 \<le> X cs"
  shows "topic_rows s ts \<Longrightarrow> length ts + length us \<le> MAX_TOPICS \<Longrightarrow> \<forall>t \<in> set us. topic_ok t \<Longrightarrow>
    \<exists>s'. run_res (shell_step X) s (map (\<lambda>t. Sub [''sub'', t]) us) = Inr s' \<and> topic_rows s' (ts @ us) \<and>
      mqtt_calls s' = mqtt_calls s @ map (\<lambda>t. MQTTSubscribe t QOS0) us"
proof (induction us arbitrary: s ts)
  case Nil
  then show ?case by simp
next
  case (Cons t us)
  have "\<exists>s' r. cmd_sub X [''sub'', t] s = Inr (s', r) \<and> topic_rows s' (ts @ [t]) \<and>
      mqtt_calls s' = mqtt_calls s @ [MQTTSubscribe t QOS0]"
    by (rule cmd_sub_row [OF Cons.prems(1)]) (use Cons.prems(2,3) ok in simp_all)
  then obtain s' r where s': "cmd_sub X [''sub'', t] s = Inr (s', r)" "topic_rows s' (ts @ [t])"
    "mqtt_calls s' = mqtt_calls s @ [MQTTSubscribe t QOS0]" by blast
  with Cons.IH [OF s'(2)] Cons.prems(2,3) show ?case by auto
qed

text \<open>A further subscription at \<open>MAX_TOPICS\<close> topics leaves the array.\<close>

lemma cmd_sub_at_max:
  assumes "topic_rows s ts" "length ts = MAX_TOPICS" "length argv \<ge> 2" "length (argv ! 1) \<le> MAX_LEN_TOPIC"
  shows "cmd_sub X argv s = Inl OutOfBounds"
proof -
  have "topic_cnt s = int MAX_TOPICS" "length (topic_mem s) = MAX_TOPICS * MAX_LEN_TOPIC"
    using assms(1,2) length_topic_rows [of ts] by (simp_all add: topic_rows_def)
  with assms(3,4) show ?thesis
    by (cases "argv ! 1 = []")
      (simp_all add: cmd_sub_def Let_def mem_write_def mem_string_def MAX_TOPICS_def MAX_LEN_TOPIC_def)
qed

lemma mqtt_start_rows: "topic_rows mqtt_start []"
  by (simp add: topic_rows_def mqtt_start_def)

text \<open>
  C26. With a library that grants every request, up to \<open>MAX_TOPICS\<close> topics of at most 99
  characters are subscribed one after the other exactly as they were given. With that many
  subscribed, the next topic that is not too long is written or read outside the array: the
  guard lets one topic too many pass.
\<close>

theorem subscribe_up_to_max:
  assumes "\<And>cs. 0 \<le> X cs" "length ts \<le> MAX_TOPICS" "\<forall>t \<in> set ts. topic_ok t"
  shows "\<exists>s. run_res (shell_step X) mqtt_start (map (\<lambda>t. Sub [''sub'', t]) ts) = Inr s \<and>
    topic_cnt s = int (length ts) \<and> mqtt_calls s = map (\<lambda>t. MQTTSubscribe t QOS0) ts \<and>
    (length ts = MAX_TOPICS \<longrightarrow> (\<forall>t. length t \<le> MAX_LEN_TOPIC \<longrightarrow>
       shell_step X s (Sub [''sub'', t]) = Inl OutOfBounds))"
proof -
  obtain s where s: "run_res (shell_step X) mqtt_start (map (\<lambda>t. Sub [''sub'', t]) ts) = Inr s"
    "topic_rows s ts" "mqtt_calls s = map (\<lambda>t. MQTTSubscribe t QOS0) ts"
    using subs_rows [of X mqtt_start "[]" ts, OF assms(1) mqtt_start_rows] assms(2,3)
    by (auto simp: mqtt_start_def)
  then show ?thesis
    using cmd_sub_at_max [OF s(2), of "[''sub'', t]" X for t] by (auto simp: topic_rows_def)
qed

lemma subscribe_up_to_max_witness:
  "\<exists>s. run_res (shell_step (\<lambda>_. 0)) mqtt_start (map (\<lambda>t. Sub [''sub'', t]) [''a'', ''b/c'', ''d'', ''e'']) = Inr s \<and>
    topic_cnt s = int (length [''a'', ''b/c'', ''d'', ''e'']) \<and>
    mqtt_calls s = map (\<lambda>t. MQTTSubscribe t QOS0) [''a'', ''b/c'', ''d'', ''e''] \<and>
    (length [''a'', ''b/c'', ''d'', ''e''] = MAX_TOPICS \<longrightarrow> (\<forall>t. length t \<le> MAX_LEN_TOPIC \<longrightarrow>
       shell_step (\<lambda>_. 0) s (Sub [''sub'', t]) = Inl OutOfBounds))"
  by (rule subscribe_up_to_max) (simp_all add: MAX_TOPICS_def topic_ok_def MAX_LEN_TOPIC_def)

text \<open>
  The end of a longer topic is left in its row when it is unsubscribed: a shorter topic that
  is subscribed next is asked for with that end behind it.
\<close>

theorem resubscription_keeps_tail:
  assumes "\<And>cs. 0 \<le> X cs" "topic_ok t" "topic_ok u" "length u < length t"
  shows "\<exists>s. run_res (shell_step X) mqtt_start [Sub [''sub'', t], Unsub [''unsub'', t], Sub [''sub'', u]] = Inr s \<and>
    mqtt_calls s = [MQTTSubscribe t QOS0, MQTTUnsubscribe t, MQTTSubscribe (u @ drop (length u) t) QOS0]"
proof -
  let ?z = "\<lambda>k. replicate k (CHR 0x00)"
  have t: "length t < MAX_LEN_TOPIC" "CHR 0x00 \<notin> set t" "length u < MAX_LEN_TOPIC" "CHR 0x00 \<notin> set u"
    using assms(2,3) by (simp_all add: topic_ok_def)
  define k where "k = MAX_TOPICS * MAX_LEN_TOPIC - length t - 1"
  have k: "MAX_TOPICS * MAX_LEN_TOPIC = length t + Suc k"
    using t(1) by (simp add: k_def MAX_TOPICS_def MAX_LEN_TOPIC_def)
  have m: "topic_mem mqtt_start = [] @ ?z (MAX_TOPICS * MAX_LEN_TOPIC)" by (simp add: mqtt_start_def)
  have d: "t @ drop (length t) (?z (MAX_TOPICS * MAX_LEN_TOPIC)) = t @ CHR 0x00 # ?z k"
  proof -
    have "MAX_TOPICS * MAX_LEN_TOPIC - length t = Suc k" using k by simp
    then show ?thesis by simp
  qed
  define s1 where "s1 = mqtt_start\<lparr>topic_mem := [] @ t @ CHR 0x00 # ?z k,
     mqtt_calls := [MQTTSubscribe t QOS0], topic_cnt := 1\<rparr>"
  have 1: "shell_step X mqtt_start (Sub [''sub'', t]) = Inr s1"
    using cmd_sub_at [OF m _ _ _ _ d t(2) _ _ assms(1), of "[''sub'', t]"] t(1) k
    by (simp add: s1_def mqtt_start_def)
  define s2 where "s2 = s1\<lparr>mqtt_calls := mqtt_calls s1 @ [MQTTUnsubscribe t], topic_cnt := 0\<rparr>"
  have 2: "shell_step X s1 (Unsub [''unsub'', t]) = Inr s2"
    using assms(1) [of "mqtt_calls s1 @ [MQTTUnsubscribe t]"]
    by (simp add: cmd_unsub_def mqtt_do_def s2_def s1_def)
  have e: "u @ drop (length u) (t @ CHR 0x00 # ?z k) = (u @ drop (length u) t) @ CHR 0x00 # ?z k"
    using assms(4) by simp
  have u: "CHR 0x00 \<notin> set (u @ drop (length u) t)" using t(2,4) by (auto dest: in_set_dropD)
  have "\<exists>s3. shell_step X s2 (Sub [''sub'', u]) = Inr s3 \<and>
      mqtt_calls s3 = mqtt_calls s2 @ [MQTTSubscribe (u @ drop (length u) t) QOS0]"
    using cmd_sub_at [OF _ _ _ _ _ e u _ _ assms(1), of s2 "[]" "[''sub'', u]"] t(3) assms(4)
    by (simp add: s2_def s1_def)
  then obtain s3 where 3: "shell_step X s2 (Sub [''sub'', u]) = Inr s3"
    "mqtt_calls s3 = mqtt_calls s2 @ [MQTTSubscribe (u @ drop (length u) t) QOS0]" by blast
  have "run_res (shell_step X) mqtt_start [Sub [''sub'', t], Unsub [''unsub'', t], Sub [''sub'', u]] = Inr s3"
    by (simp only: run_res.simps and_then_Inr 1 2 3(1))
  moreover have "mqtt_calls s2 = [MQTTSubscribe t QOS0, MQTTUnsubscribe t]" by (simp add: s2_def s1_def)
  ultimately show ?thesis using 3(2) by simp
qed

lemma resubscription_keeps_tail_witness:
  "\<exists>s. run_res (shell_step (\<lambda>_. 0)) mqtt_start
      [Sub [''sub'', ''abcdef''], Unsub [''unsub'', ''abcdef''], Sub [''sub'', ''xy'']] = Inr s \<and>
    mqtt_calls s = [MQTTSubscribe ''abcdef'' QOS0, MQTTUnsubscribe ''abcdef'',
      MQTTSubscribe (''xy'' @ drop (length ''xy'') ''abcdef'') QOS0]"
  by (rule resubscription_keeps_tail) (simp_all add: topic_ok_def MAX_LEN_TOPIC_def)

text \<open>An unsubscription without a subscription makes the count negative, and the next topic leaves the array.\<close>

lemma unsubscribe_first:
  assumes "\<And>cs. 0 \<le> X cs" "length u \<le> MAX_LEN_TOPIC"
  shows "run_res (shell_step X) mqtt_start [Unsub [''unsub'', t], Sub [''sub'', u]] = Inl OutOfBounds"
  using assms(1) [of "[MQTTUnsubscribe t]"] assms(2)
  by (simp add: cmd_unsub_def cmd_sub_def mqtt_do_def mqtt_start_def Let_def mem_write_def
    MAX_LEN_TOPIC_def MAX_TOPICS_def)

section \<open>The clock\<close>

text \<open>The seconds since 1970 that a broken-down time stands for, whatever its hour.\<close>

definition secs_of_tm :: "tm \<Rightarrow> int" where
  "secs_of_tm t =
     (let y = nat (tm_year t + 1900);
          days = int (sum_list (map year_days [1970..<y])) +
            int (sum_list (take (nat (tm_mon t)) (month_days y))) + tm_mday t - 1
      in ((days * 24 + tm_hour t) * 60 + tm_min t) * 60 + tm_sec t)"

lemma year_split_days:
  "year_split y d = (y', d') \<Longrightarrow>
    y \<le> y' \<and> d' < year_days y' \<and> d = sum_list (map year_days [y..<y']) + d'"
proof (induction y d rule: year_split.induct)
  case (1 y d)
  show ?case
  proof (cases "d < year_days y")
    case True
    with 1(2) show ?thesis by (subst (asm) year_split.simps) auto
  next
    case False
    with 1(2) have "year_split (y + 1) (d - year_days y) = (y', d')"
      by (subst (asm) year_split.simps) simp
    with 1(1) False show ?thesis by (auto simp: upt_conv_Cons Suc_le_eq)
  qed
qed

lemma month_split_days:
  "month_split ls d = (m, r) \<Longrightarrow> d < sum_list ls \<Longrightarrow>
    m < length ls \<and> r < ls ! m \<and> d = sum_list (take m ls) + r"
proof (induction ls arbitrary: d m)
  case Nil
  then show ?case by simp
next
  case (Cons l ls)
  show ?case
  proof (cases "d < l")
    case True
    with Cons.prems show ?thesis by auto
  next
    case False
    with Cons.prems obtain m' where m': "month_split ls (d - l) = (m', r)" "m = m' + 1"
      by (auto split: prod.splits)
    have "d - l < sum_list ls" using Cons.prems(2) False by simp
    from Cons.IH [OF m'(1) this] False m'(2) show ?thesis by auto
  qed
qed

lemma sum_month_days: "sum_list (month_days y) = year_days y"
  by (simp add: month_days_def year_days_def)

lemma secs_of_split:
  "secs_of_tm \<lparr>tm_year = int y - 1900, tm_mon = int m, tm_mday = int r + 1, tm_hour = h, tm_min = mi, tm_sec = s\<rparr> =
    ((int (sum_list (map year_days [1970..<y]) + (sum_list (take m (month_days y)) + r)) * 24 + h) * 60 + mi) * 60 + s"
  by (simp add: secs_of_tm_def Let_def)

lemma gmtime_exact: "secs_of_tm (gmtime t) = int t" "tm_hour (gmtime t) = int (t div 3600 mod 24)"
proof -
  obtain y d where y: "year_split 1970 (t div 86400) = (y, d)" by (cases "year_split 1970 (t div 86400)")
  obtain m r where m: "month_split (month_days y) d = (m, r)" by (cases "month_split (month_days y) d")
  note y' = year_split_days [OF y]
  have "d < sum_list (month_days y)" using y' by (simp add: sum_month_days)
  note m' = month_split_days [OF m this]
  have "t div 3600 = t div 60 div 60" "t div 86400 = t div 3600 div 24"
    by (simp_all add: div_mult2_eq [symmetric])
  then have "t = ((t div 86400 * 24 + t div 3600 mod 24) * 60 + t div 60 mod 60) * 60 + t mod 60"
    by simp
  then have "int t = int (((t div 86400 * 24 + t div 3600 mod 24) * 60 + t div 60 mod 60) * 60 + t mod 60)"
    by (rule arg_cong)
  then have e: "int t = ((int (t div 86400) * 24 + int (t div 3600 mod 24)) * 60 + int (t div 60 mod 60)) * 60
      + int (t mod 60)"
    by (simp only: of_nat_add of_nat_mult of_nat_numeral)
  have s: "sum_list (map year_days [1970..<y]) + (sum_list (take m (month_days y)) + r) = t div 86400"
    using y' m' by simp
  show "secs_of_tm (gmtime t) = int t"
    unfolding gmtime_def y m prod.case secs_of_split s by (rule e [symmetric])
  show "tm_hour (gmtime t) = int (t div 3600 mod 24)"
    unfolding gmtime_def y m prod.case by (rule tm.select_convs)
qed

text \<open>
  After every successful synchronisation the clock is set to a time exactly two hours ahead
  of the server's, counted through the calendar; its hour is a valid one exactly up to two
  hours before midnight, and 24 or 25 from then on.
\<close>

theorem clock_two_hours_ahead:
  assumes "0 \<le> sync"
  shows "\<exists>t. get_time True sync usec = Some t \<and>
    secs_of_tm t = int (usec div 1000000) + 7200 \<and>
    (tm_hour t < 24 \<longleftrightarrow> usec div 1000000 mod 86400 < 22 * 3600) \<and> tm_hour t < 26"
proof -
  let ?t = "usec div 1000000"
  have "secs_of_tm (gmtime ?t\<lparr>tm_hour := tm_hour (gmtime ?t) + 2\<rparr>) = secs_of_tm (gmtime ?t) + 7200"
    by (simp add: secs_of_tm_def Let_def)
  moreover have "?t div 3600 mod 24 < 22 \<longleftrightarrow> ?t mod 86400 < 22 * 3600"
  proof -
    have "?t mod 86400 = 3600 * (?t div 3600 mod 24) + ?t mod 3600"
      using mod_mult2_eq [of ?t 3600 24] by simp
    moreover have "?t mod 3600 < 3600" by simp
    ultimately show ?thesis by linarith
  qed
  ultimately show ?thesis using assms by (simp add: get_time_def Let_def gmtime_exact)
qed

lemma clock_two_hours_ahead_witness:
  "\<exists>t. get_time True 0 1700000000123456 = Some t \<and>
    secs_of_tm t = int (1700000000123456 div 1000000) + 7200 \<and>
    (tm_hour t < 24 \<longleftrightarrow> (1700000000123456 :: nat) div 1000000 mod 86400 < 22 * 3600) \<and> tm_hour t < 26"
  by (rule clock_two_hours_ahead) simp

end
