(* ===== verification/Light_Ccnl.thy ===== *)
theory Light_Ccnl
  imports Demo_Sensor
begin

text \<open>
  The light sensor node of the industry demo on top of CCN-lite,
  \<^verbatim>\<open>src/inria-industry/light_ccnl\<close>: the light levels (\<^verbatim>\<open>light_sense.c\<close>), the events that ask for a
  content (\<^verbatim>\<open>evt_handler.c\<close>), and the commands and the blinking thread (\<^verbatim>\<open>main.c\<close>). CCN-lite's
  client and RIOT's threads are an argument; printing and the tests that are switched off are
  left out.
\<close>

section \<open>The node\<close>

datatype state_t = IDLE | WAITING | READY

datatype relay_msg = CCNL_RIOT_CONFIG_CACHE int | CCNL_RIOT_HALT | CCNL_RIOT_POPULATE
  | CCNL_RIOT_PRINT_STAT

datatype light_eff = Client_Get string | Client_Publish string string string
  | Relay_Msg int relay_msg | Relay_Thread | Appserver_Thread | Transceiver_Start int
  | Leds "bool option" "bool option"

text \<open>
  CCN-lite's client: the length it returns and the characters it writes for a request, from
  the calls so far, and the number of a new thread.
\<close>

record light_ext =
  client_get :: "light_eff list \<Rightarrow> int \<times> string"
  client_publish :: "light_eff list \<Rightarrow> string"
  new_thread :: "light_eff list \<Rightarrow> int"

record light_node =
  light_state :: int
  state :: state_t
  small_buf :: string
  big_buf :: string
  relay_pid :: int
  appserver_pid :: int
  light_calls :: "light_eff list"

definition light_call :: "light_eff \<Rightarrow> light_node \<Rightarrow> light_node" where
  "light_call e s = s\<lparr>light_calls := light_calls s @ [e]\<rparr>"

text \<open>The buffer \<open>small_buf\<close> has the size of CCN-lite's payload.\<close>

definition light_start :: "nat \<Rightarrow> light_node" where
  "light_start PAYLOAD_SIZE = \<lparr>light_state = -1, state = IDLE,
     small_buf = replicate PAYLOAD_SIZE (CHR 0x00), big_buf = replicate (3 * 1024) (CHR 0x00),
     relay_pid = 0, appserver_pid = 0, light_calls = []\<rparr>"

section \<open>Requests\<close>

text \<open>
  The name is copied without its final 0; the answer gets one where its length says. A read
  of the name needs one somewhere in the buffer.
\<close>

definition ccnl_interest :: "light_ext \<Rightarrow> string \<Rightarrow> light_node \<Rightarrow> fault + light_node" where
  "ccnl_interest X argv s =
     and_then (mem_write (small_buf s) 0 argv) (\<lambda>b.
     and_then (mem_string b 0) (\<lambda>name.
       let s = light_call (Client_Get name) (s\<lparr>small_buf := b\<rparr>);
           (content_len, bytes) = client_get X (light_calls s)
       in and_then (mem_write (big_buf s) 0 bytes) (\<lambda>b.
            if content_len = 0 then Inr (s\<lparr>big_buf := b\<rparr>)
            else and_then (mem_write b content_len [CHR 0x00]) (\<lambda>b.
              Inr (s\<lparr>big_buf := b, state := READY\<rparr>)))))"

definition riot_ccn_express_interest :: "light_ext \<Rightarrow> string list \<Rightarrow> light_node \<Rightarrow> fault + light_node" where
  "riot_ccn_express_interest X argv s =
     (if length argv < 2 then ccnl_interest X ''/ccnx/0.7.1/doc/technical/CanonicalOrder.txt'' s
      else ccnl_interest X (argv ! 1) s)"

definition ccnl_send_event :: "light_ext \<Rightarrow> evt \<Rightarrow> light_node \<Rightarrow> fault + light_node" where
  "ccnl_send_event X event s =
     (if event = WARN \<or> event = ALARM then
        (if state s \<noteq> READY then ccnl_interest X ''/riot/appserver/test'' (s\<lparr>state := WAITING\<rparr>) else Inr s)
      else Inr s)"

definition ccnl_handler_ok :: "light_ext \<Rightarrow> light_node \<Rightarrow> fault + light_node" where
  "ccnl_handler_ok X s = ccnl_send_event X CONFIRM s"

definition ccnl_handler_warn :: "light_ext \<Rightarrow> light_node \<Rightarrow> fault + light_node" where
  "ccnl_handler_warn X s = ccnl_send_event X WARN s"

definition ccnl_handler_alarm :: "light_ext \<Rightarrow> light_node \<Rightarrow> fault + light_node" where
  "ccnl_handler_alarm X s = ccnl_send_event X ALARM s"

section \<open>The light level\<close>

definition LUX_THRESHOLD_WARN :: int where "LUX_THRESHOLD_WARN = 530"
definition LUX_THRESHOLD_ALARM :: int where "LUX_THRESHOLD_ALARM = 730"

definition light_level :: "int \<Rightarrow> nat" where
  "light_level lux =
     (if lux > LUX_THRESHOLD_WARN then 1 else if lux > LUX_THRESHOLD_ALARM then 2 else 0)"

definition light_check_state :: "light_ext \<Rightarrow> int \<Rightarrow> light_node \<Rightarrow> fault + light_node" where
  "light_check_state X lux s =
     (let e = light_level lux in
      if (word_of_nat e :: u32) = word_of_int (light_state s) then Inr s
      else
        (let s = s\<lparr>light_state := int e\<rparr> in
         if light_state s = 0 then ccnl_handler_ok X s
         else if light_state s = 1 then ccnl_handler_warn X s
         else if light_state s = 2 then ccnl_handler_alarm X s
         else Inr s))"

fun light_sensethread :: "light_ext \<Rightarrow> int list \<Rightarrow> light_node \<Rightarrow> fault + light_node" where
  "light_sensethread X [] s = Inr s"
| "light_sensethread X (l # ls) s = and_then (light_check_state X l s) (light_sensethread X ls)"

section \<open>The commands\<close>

definition riot_ccn_appserver :: "light_ext \<Rightarrow> light_node \<Rightarrow> light_node" where
  "riot_ccn_appserver X s =
     (if appserver_pid s \<noteq> 0 then s
      else (let s = light_call Appserver_Thread s in s\<lparr>appserver_pid := new_thread X (light_calls s)\<rparr>))"

text \<open>\<^verbatim>\<open>strncpy\<close> with a size of 100 writes exactly 100 characters, with zeros behind a shorter name.\<close>

definition riot_ccn_register_prefix :: "light_ext \<Rightarrow> string list \<Rightarrow> light_node \<Rightarrow> fault + light_node" where
  "riot_ccn_register_prefix X argv s =
     (if length argv < 4 then Inr s
      else
        and_then (mem_write (small_buf s) 0 (take 100 (argv ! 1 @ replicate 100 (CHR 0x00)))) (\<lambda>b.
        and_then (mem_string b 0) (\<lambda>name.
          let s = light_call (Client_Publish name (argv ! 3) (argv ! 2)) (s\<lparr>small_buf := b\<rparr>)
          in and_then (mem_write (big_buf s) 0 (client_publish X (light_calls s))) (\<lambda>b.
               Inr (s\<lparr>big_buf := b\<rparr>)))))"

definition riot_ccn_relay_config :: "string list \<Rightarrow> light_node \<Rightarrow> light_node" where
  "riot_ccn_relay_config argv s =
     (if relay_pid s = 0 then s
      else if length argv < 2 then s
      else light_call (Relay_Msg (relay_pid s) (CCNL_RIOT_CONFIG_CACHE (atoi (argv ! 1)))) s)"

definition riot_ccn_relay_start :: "light_ext \<Rightarrow> light_node \<Rightarrow> light_node" where
  "riot_ccn_relay_start X s =
     (if relay_pid s \<noteq> 0 then s
      else
        (let s = light_call Relay_Thread s; s = s\<lparr>relay_pid := new_thread X (light_calls s)\<rparr>
         in light_call (Transceiver_Start (relay_pid s)) s))"

definition riot_ccn_relay_stop :: "light_node \<Rightarrow> light_node" where
  "riot_ccn_relay_stop s = (light_call (Relay_Msg (relay_pid s) CCNL_RIOT_HALT) s)\<lparr>relay_pid := 0\<rparr>"

definition riot_ccn_populate :: "light_node \<Rightarrow> light_node" where
  "riot_ccn_populate s = light_call (Relay_Msg (relay_pid s) CCNL_RIOT_POPULATE) s"

definition riot_ccn_stat :: "light_node \<Rightarrow> light_node" where
  "riot_ccn_stat s = light_call (Relay_Msg (relay_pid s) CCNL_RIOT_PRINT_STAT) s"

text \<open>
  One round of the blinking thread, whose counter is a variable of the thread: the settings
  of the red and the green LED in their order.
\<close>

definition blinker_round :: "light_node \<times> u32 \<Rightarrow> light_node \<times> u32" where
  "blinker_round n =
     (case n of (s, i) \<Rightarrow>
      if state s = IDLE then
        (light_call (Leds None (Some False)) (light_call (Leds (Some False) (Some True)) s), i)
      else if state s = WAITING then
        (light_call (Leds (Some False) None) (light_call (Leds (Some True) (Some False)) s), i)
      else
        (let s = light_call (Leds None (Some False)) (light_call (Leds (Some False) (Some True)) s)
         in if i > 10 then (s\<lparr>state := IDLE\<rparr>, 0) else (s, i + 1)))"

section \<open>Properties\<close>

text \<open>
  The alarm level is never reached: its threshold is above the one for a warning, which is
  tested first.
\<close>

lemma light_level_no_alarm: "light_level lux \<le> 1"
  by (simp add: light_level_def LUX_THRESHOLD_WARN_def LUX_THRESHOLD_ALARM_def)

abbreviation test_name :: string where "test_name \<equiv> ''/riot/appserver/test''"

definition buffers_ok :: "light_node \<Rightarrow> bool" where
  "buffers_ok s \<longleftrightarrow> length (small_buf s) > 20 \<and> small_buf s ! 20 = CHR 0x00 \<and> length (big_buf s) = 3072"

lemma interest_test:
  assumes "buffers_ok s" "client_get X (light_calls s @ [Client_Get test_name]) = (len, bytes)"
    and "length bytes < 3072" "0 \<le> len" "len < 3072"
  shows "\<exists>s'. ccnl_interest X test_name s = Inr s' \<and> buffers_ok s' \<and> light_state s' = light_state s \<and>
    light_calls s' = light_calls s @ [Client_Get test_name] \<and>
    state s' = (if len = 0 then state s else READY)"
proof -
  define n where "n = test_name"
  have n: "length n = 20" "CHR 0x00 \<notin> set n" by (simp_all add: n_def)
  define r where "r = drop 21 (small_buf s)"
  have b: "drop 20 (small_buf s) = CHR 0x00 # r"
    using assms(1) by (simp add: buffers_ok_def r_def Cons_nth_drop_Suc [symmetric])
  have 1: "mem_write (small_buf s) 0 n = Inr (n @ CHR 0x00 # r)"
    using mem_write_at [of n "small_buf s" "[]"] assms(1) b n(1) by (simp add: buffers_ok_def)
  have 2: "mem_string (n @ CHR 0x00 # r) 0 = Inr n" by (rule mem_string_start [OF n(2)])
  have 3: "length b = 3072 \<Longrightarrow> \<exists>b'. mem_write b off cs = Inr b' \<and> length b' = 3072"
    if "0 \<le> off" "off + int (length cs) \<le> 3072" for b off cs
    using that by (auto simp: mem_write_def nat_less_iff min_def)
  obtain b1 where b1: "mem_write (big_buf s) 0 bytes = Inr b1" "length b1 = 3072"
    using 3 [of 0 bytes "big_buf s"] assms(1,3) by (auto simp: buffers_ok_def)
  obtain b2 where b2: "mem_write b1 len [CHR 0x00] = Inr b2" "length b2 = 3072"
    using 3 [of len "[CHR 0x00]" b1] assms(4,5) b1(2) by auto
  define m where "m = n @ CHR 0x00 # r"
  have m: "m ! 20 = CHR 0x00" "length m > 20" using n(1) by (simp_all add: m_def nth_append)
  show ?thesis
    using assms(2) 1 2 b1 b2 m unfolding n_def [symmetric] m_def [symmetric]
    by (simp add: ccnl_interest_def light_call_def buffers_ok_def Let_def)
qed

lemma blinker_ready:
  assumes "state s = READY" "n + k \<le> 11"
  shows "\<exists>s'. (blinker_round ^^ k) (s, of_nat n) = (s', of_nat (n + k)) \<and> state s' = READY"
  using assms(2)
proof (induction k)
  case 0
  then show ?case using assms(1) by simp
next
  case (Suc k)
  define m where "m = n + k"
  obtain s' where s': "(blinker_round ^^ k) (s, of_nat n) = (s', of_nat m)" "state s' = READY"
    using Suc by (auto simp: m_def)
  have "m \<le> 10" using Suc.prems by (simp add: m_def)
  then have "\<not> (of_nat m :: u32) > 10" by (simp add: word_less_nat_alt unat_of_nat take_bit_eq_mod)
  with s'(2) have "\<exists>s''. blinker_round (s', of_nat m) = (s'', of_nat m + 1) \<and> state s'' = READY"
    by (simp add: blinker_round_def light_call_def Let_def)
  moreover have "n + Suc k = Suc m" "(of_nat (Suc m) :: u32) = of_nat m + 1" by (simp_all add: m_def)
  ultimately show ?case using s'(1) by auto
qed

text \<open>
  After an answer the node blinks for twelve rounds and is idle again, unless the thread was
  in the middle of an earlier answer, which only shortens it.
\<close>

lemma blinker_returns_to_idle:
  assumes "state s = READY" "n \<le> 11"
  shows "\<exists>s'. (blinker_round ^^ (12 - n)) (s, of_nat n) = (s', 0) \<and> state s' = IDLE"
proof -
  obtain s' where s': "(blinker_round ^^ (11 - n)) (s, of_nat n) = (s', 11)" "state s' = READY"
    using blinker_ready [of s n "11 - n"] assms by auto
  have "12 - n = Suc (11 - n)" using assms(2) by simp
  with s' show ?thesis by (simp add: blinker_round_def light_call_def Let_def)
qed

section \<open>The requests of a run\<close>

text \<open>
  The sense thread and the blinking thread share \<open>state\<close>. A run takes samples and rounds of the
  blinking thread in any order. A request blocks the sense thread, with \<open>state\<close> waiting, which a round
  only shows; and a round that has begun while an answer is shown finds it so in the end, since no
  request is sent meanwhile. So a round can be taken as one step.
\<close>

datatype light_event = Sample int | Blink

definition threads_step :: "light_ext \<Rightarrow> light_node \<times> u32 \<Rightarrow> light_event \<Rightarrow> fault + light_node \<times> u32" where
  "threads_step X n e = (case e of
     Sample lux \<Rightarrow> and_then (light_check_state X lux (fst n)) (\<lambda>s. Inr (s, snd n))
   | Blink \<Rightarrow> Inr (blinker_round n))"

lemma threads_samples:
  "run_res (threads_step X) (s, i) (map Sample ls) = and_then (light_sensethread X ls s) (\<lambda>s. Inr (s, i))"
proof (induction ls arbitrary: s)
  case (Cons l ls)
  then show ?case by (cases "light_check_state X l s") (simp_all add: threads_step_def)
qed simp

text \<open>
  The answers: \<open>client_get\<close> gives the length and the bytes for the number of requests sent so far.
\<close>

definition gets :: "light_eff list \<Rightarrow> string list" where
  "gets es = List.map_filter (\<lambda>e. case e of Client_Get n \<Rightarrow> Some n | _ \<Rightarrow> None) es"

lemma gets_simps [simp]:
  "gets [] = []" "gets (es @ fs) = gets es @ gets fs"
  "gets (Client_Get n # es) = n # gets es" "gets (Leds r g # es) = gets es"
  by (simp_all add: gets_def map_filter_def)

text \<open>
  How many requests are due: one for every rise of the level while no answer is shown. An answer to
  request number \<open>k\<close> is shown for the next twelve rounds of blinking. \<open>p\<close> is the level seen last, 2 if
  there is none yet, and \<open>b\<close> the number of rounds an answer is still shown.
\<close>

fun due :: "(nat \<Rightarrow> bool) \<Rightarrow> nat \<Rightarrow> nat \<Rightarrow> nat \<Rightarrow> light_event list \<Rightarrow> nat" where
  "due answered k p b [] = 0"
| "due answered k p b (Blink # es) = due answered k p (b - 1) es"
| "due answered k p b (Sample lux # es) =
     (if lux > LUX_THRESHOLD_WARN then
        (if p \<noteq> 1 \<and> b = 0 then 1 + due answered (k + 1) 1 (if answered (k + 1) then 12 else 0) es
         else due answered k 1 b es)
      else due answered k 0 b es)"

text \<open>\<open>p\<close> and \<open>b\<close> as the code has them.\<close>

definition last_level :: "light_node \<Rightarrow> nat \<Rightarrow> bool" where
  "last_level s p \<longleftrightarrow> p \<le> 2 \<and> light_state s = (if p = 2 then -1 else int p)"

definition shown :: "light_node \<times> u32 \<Rightarrow> nat \<Rightarrow> bool" where
  "shown n b \<longleftrightarrow> (if state (fst n) = READY then 0 < b \<and> b \<le> 12 \<and> snd n = of_nat (12 - b) else b = 0 \<and> snd n = 0)"

lemma level_is: "light_level lux = (if lux > LUX_THRESHOLD_WARN then 1 else 0)"
  by (simp add: light_level_def LUX_THRESHOLD_WARN_def LUX_THRESHOLD_ALARM_def)

lemma same_level:
  assumes "last_level s p"
  shows "(word_of_nat (light_level l) :: u32) = word_of_int (light_state s) \<longleftrightarrow> light_level l = p"
proof -
  have "p = 0 \<or> p = 1 \<or> p = 2" using assms by (auto simp: last_level_def)
  then show ?thesis using assms by (auto simp: last_level_def level_is)
qed

lemma light_check_step:
  assumes "buffers_ok s" "last_level s p"
    and "client_get X (light_calls s @ [Client_Get test_name]) = (len, bytes)"
    and "length bytes < 3072" "0 \<le> len" "len < 3072"
  shows "\<exists>s'. light_check_state X l s = Inr s' \<and> buffers_ok s' \<and> last_level s' (light_level l) \<and>
    (if light_level l = 1 \<and> p \<noteq> 1 \<and> state s \<noteq> READY
     then light_calls s' = light_calls s @ [Client_Get test_name] \<and> (state s' = READY \<longleftrightarrow> len \<noteq> 0)
     else light_calls s' = light_calls s \<and> state s' = state s)"
proof (cases "light_level l = p")
  case True
  have "light_check_state X l s = Inr s"
    unfolding light_check_state_def Let_def same_level [OF assms(2)] using True by (rule if_P)
  with True assms(1,2) show ?thesis by simp
next
  case False
  let ?s = "s\<lparr>light_state := int (light_level l)\<rparr>"
  have l: "light_level l = 0 \<or> light_level l = 1" by (simp add: level_is)
  have c: "light_check_state X l s = (if light_level l = 1 then ccnl_send_event X WARN ?s else Inr ?s)"
    using False l same_level [OF assms(2), of l]
    by (auto simp: light_check_state_def Let_def ccnl_handler_ok_def ccnl_handler_warn_def ccnl_send_event_def)
  show ?thesis
  proof (cases "light_level l = 1 \<and> state s \<noteq> READY")
    case False
    with c l assms(1) show ?thesis by (auto simp: ccnl_send_event_def buffers_ok_def last_level_def)
  next
    case True
    let ?w = "?s\<lparr>state := WAITING\<rparr>"
    have "buffers_ok ?w" "client_get X (light_calls ?w @ [Client_Get test_name]) = (len, bytes)"
      using assms(1,3) by (simp_all add: buffers_ok_def)
    from interest_test [OF this assms(4-6)] True c \<open>light_level l \<noteq> p\<close>
    show ?thesis by (auto simp: ccnl_send_event_def last_level_def)
  qed
qed

lemma blinker_shown:
  assumes "shown n b"
  shows "\<exists>n'. blinker_round n = n' \<and> shown n' (b - 1) \<and> light_state (fst n') = light_state (fst n) \<and>
    small_buf (fst n') = small_buf (fst n) \<and> big_buf (fst n') = big_buf (fst n) \<and>
    gets (light_calls (fst n')) = gets (light_calls (fst n))"
proof (cases n)
  case (Pair s i)
  show ?thesis
  proof (cases "state s = READY")
    case False
    with Pair assms show ?thesis by (cases "state s") (auto simp: blinker_round_def light_call_def shown_def)
  next
    case True
    with Pair assms have b: "0 < b" "b \<le> 12" "i = of_nat (12 - b)" by (auto simp: shown_def)
    have "unat i = 12 - b" unfolding b(3) by (simp add: unat_of_nat take_bit_eq_mod del: of_nat_diff)
    then have i: "i > 10 \<longleftrightarrow> b = 1" using b by (auto simp: word_less_nat_alt)
    have n: "i + 1 = of_nat (12 - (b - 1))" if "b \<noteq> 1"
      using b that by (simp flip: of_nat_Suc add: Suc_diff_le)
    show ?thesis using True i n b(1,2) Pair
      by (cases "b = 1") (auto simp: blinker_round_def light_call_def shown_def Let_def)
  qed
qed

lemma run_requests:
  assumes "\<And>cs. client_get X cs = reply (length (gets cs))"
    and "\<And>k. length (snd (reply k)) < 3072 \<and> 0 \<le> fst (reply k) \<and> fst (reply k) < 3072"
  shows "buffers_ok (fst n) \<Longrightarrow> last_level (fst n) p \<Longrightarrow> shown n b \<Longrightarrow> length (gets (light_calls (fst n))) = k \<Longrightarrow>
    \<exists>n'. run_res (threads_step X) n es = Inr n' \<and> gets (light_calls (fst n')) =
      gets (light_calls (fst n)) @ replicate (due (\<lambda>k. fst (reply k) \<noteq> 0) k p b es) test_name"
proof (induction es arbitrary: n p b k)
  case Nil
  then show ?case by simp
next
  case (Cons e es)
  note IH = Cons.IH and n = Cons.prems
  show ?case
  proof (cases e)
    case Blink
    from blinker_shown [OF n(3)] have m: "buffers_ok (fst (blinker_round n))" "last_level (fst (blinker_round n)) p"
      "shown (blinker_round n) (b - 1)" "gets (light_calls (fst (blinker_round n))) = gets (light_calls (fst n))"
      using n(1,2) by (auto simp: buffers_ok_def last_level_def)
    from IH [OF m(1-3)] m(4) n(4) show ?thesis by (simp add: Blink threads_step_def)
  next
    case (Sample l)
    obtain s i where si: "n = (s, i)" by (cases n)
    let ?due = "light_level l = 1 \<and> p \<noteq> 1 \<and> state s \<noteq> READY"
    have "client_get X (light_calls s @ [Client_Get test_name]) = reply (k + 1)"
      using assms(1) n(4) by (simp add: si)
    then have "client_get X (light_calls s @ [Client_Get test_name]) = (fst (reply (k + 1)), snd (reply (k + 1)))"
      by simp
    from light_check_step [OF _ _ this, of p l] n(1,2) assms(2) [of "k + 1"] obtain s' where
      s': "light_check_state X l s = Inr s'" "buffers_ok s'" "last_level s' (light_level l)"
      and d: "if ?due then light_calls s' = light_calls s @ [Client_Get test_name] \<and>
          (state s' = READY \<longleftrightarrow> fst (reply (k + 1)) \<noteq> 0)
        else light_calls s' = light_calls s \<and> state s' = state s"
      by (auto simp: si)
    have ready: "state s = READY \<longleftrightarrow> b \<noteq> 0" using n(3) by (auto simp: shown_def si split: if_splits)
    define b' where "b' = (if ?due then if fst (reply (k + 1)) \<noteq> 0 then 12 else 0 else b)"
    define k' where "k' = (if ?due then k + 1 else k)"
    have "shown (s', i) b'" using d n(3) by (auto simp: shown_def si b'_def split: if_splits)
    moreover have "length (gets (light_calls s')) = k'" using d n(4) by (auto simp: si k'_def split: if_splits)
    ultimately obtain n' where n': "run_res (threads_step X) (s', i) es = Inr n'"
      "gets (light_calls (fst n')) = gets (light_calls s') @
        replicate (due (\<lambda>k. fst (reply k) \<noteq> 0) k' (light_level l) b' es) test_name"
      using IH [of "(s', i)" "light_level l" b' k'] s'(2,3) by auto
    have "due (\<lambda>k. fst (reply k) \<noteq> 0) k p b (e # es) =
        (if ?due then 1 else 0) + due (\<lambda>k. fst (reply k) \<noteq> 0) k' (light_level l) b' es"
      using ready by (auto simp: Sample level_is b'_def k'_def)
    moreover have "gets (light_calls s') = gets (light_calls s) @ replicate (if ?due then 1 else 0) test_name"
      using d by (simp split: if_splits)
    moreover have "run_res (threads_step X) n (e # es) = Inr n'"
      using s'(1) n'(1) by (simp add: Sample si threads_step_def [of X "(s, i)"])
    ultimately show ?thesis using n'(2) unfolding si fst_conv by (auto simp: replicate_add)
  qed
qed

text \<open>
  C27. What the light sensor asks for while the blinking thread runs, without shell commands: for
  every sequence of samples and rounds, with answers of any length the buffer holds, no
  step faults, and the application server's content is asked for exactly once at every rise of the light
  above the threshold of a warning at which no answer is being shown. An answer is shown for
  twelve rounds, after which the next rise asks again. The alarm's threshold makes no difference.
\<close>

theorem light_requests:
  assumes "\<And>cs. client_get X cs = reply (length (gets cs))"
    and "\<And>k. length (snd (reply k)) < 3072 \<and> 0 \<le> fst (reply k) \<and> fst (reply k) < 3072"
    and "20 < payload_size"
  shows "\<exists>n. run_res (threads_step X) (light_start payload_size, 0) es = Inr n \<and>
    gets (light_calls (fst n)) = replicate (due (\<lambda>k. fst (reply k) \<noteq> 0) 0 2 0 es) test_name"
proof -
  have "buffers_ok (light_start payload_size)" "last_level (light_start payload_size) 2"
    "shown (light_start payload_size, 0) 0" "light_calls (light_start payload_size) = []"
    using assms(3) by (simp_all add: buffers_ok_def last_level_def shown_def light_start_def)
  then show ?thesis
    using run_requests [OF assms(1,2), of "(light_start payload_size, 0)" 2 0 0 es] by simp
qed

text \<open>A client whose every request is answered with one character.\<close>

definition ex_light_ext :: light_ext where
  "ex_light_ext = \<lparr>client_get = (\<lambda>_. (1, ''x'')), client_publish = (\<lambda>_. []), new_thread = (\<lambda>_. 5)\<rparr>"

lemma light_requests_witness:
  "\<exists>n. run_res (threads_step ex_light_ext) (light_start 64, 0)
      ([Sample 600, Sample 300, Sample 800] @ replicate 12 Blink @ [Sample 900, Sample 200, Sample 531]) = Inr n \<and>
    gets (light_calls (fst n)) = [test_name, test_name]"
proof -
  let ?es = "[Sample 600, Sample 300, Sample 800] @ replicate 12 Blink @ [Sample 900, Sample 200, Sample 531]"
  have "due (\<lambda>k. fst ((1 :: int, ''x'')) \<noteq> 0) 0 2 0 ?es = 2"
    by (simp add: numeral_eq_Suc LUX_THRESHOLD_WARN_def)
  with light_requests [of ex_light_ext "\<lambda>_. (1, ''x'')" 64 ?es] show ?thesis
    by (simp add: ex_light_ext_def numeral_2_eq_2)
qed

end
