(* ===== verification/Accel_Radio.thy ===== *)
theory Accel_Radio
  imports Debounce Demo_Sensor Complex_Main
begin

text \<open>
  The accelerometer demo \<^verbatim>\<open>src/accel_radio\<close>: the detection of the node's orientation
  (\<^verbatim>\<open>sense.c\<close>) and the events (\<^verbatim>\<open>evt_handler.c\<close>). \<^verbatim>\<open>powf\<close> and \<^verbatim>\<open>sqrtf\<close> of the C library are
  arguments, as is whether the transceiver runs; of the prints the one of an event's command is
  kept, since nothing else is done with it. The enumeration of events and the state of the
  detection are those of the industry demo.
\<close>

section \<open>The program\<close>

definition RADIO_REP_LIMIT :: nat where "RADIO_REP_LIMIT = 3"

datatype radio_eff = Snd_Pkt "u8 list" | Print_Cmd "u8 list"

record accel =
  axis_state :: int
  axis_count :: nat
  cmd_sequ :: u8
  cmd_evt :: u8
  green_on :: bool
  red_on :: bool

text \<open>The packet is empty text: its length of one is the final 0.\<close>

definition radio_send :: "bool \<Rightarrow> radio_eff list" where
  "radio_send transceiver = (if \<not> transceiver then [] else [Snd_Pkt [0]])"

definition radio_send_event :: "evt \<Rightarrow> accel \<Rightarrow> accel \<times> radio_eff list" where
  "radio_send_event event s =
     (let s = (if event \<noteq> CONFIRM then s\<lparr>cmd_evt := cmd_evt s + 1\<rparr> else s);
          cmd = [evt_code event, cmd_evt s, cmd_sequ s]
      in (s\<lparr>cmd_sequ := cmd_sequ s + 1\<rparr>, [Print_Cmd cmd]))"

definition radio_handler_ok :: "bool \<Rightarrow> accel \<Rightarrow> accel \<times> radio_eff list" where
  "radio_handler_ok T s =
     (case radio_send_event CONFIRM (s\<lparr>green_on := True, red_on := False\<rparr>) of (s, es) \<Rightarrow>
        (s, radio_send T @ es))"

definition radio_handler_warn :: "bool \<Rightarrow> accel \<Rightarrow> accel \<times> radio_eff list" where
  "radio_handler_warn T s =
     (case radio_send_event WARN (s\<lparr>green_on := True, red_on := True\<rparr>) of (s, es) \<Rightarrow>
        (s, radio_send T @ es))"

definition radio_handler_alarm :: "bool \<Rightarrow> accel \<Rightarrow> accel \<times> radio_eff list" where
  "radio_handler_alarm T s =
     (case radio_send_event ALARM (s\<lparr>green_on := False, red_on := True\<rparr>) of (s, es) \<Rightarrow>
        (s, radio_send T @ es))"

text \<open>One axis of a sample; all three are looked at, one after the other.\<close>

definition see_axis :: "u16 list \<Rightarrow> accel \<Rightarrow> nat \<Rightarrow> accel" where
  "see_axis acc_data s i =
     (if sint (acc_data ! i) > AXIS_THRESHOLD \<or> sint (acc_data ! i) < - AXIS_THRESHOLD then
        (if axis_state s = int i
         then (if axis_count s < RADIO_REP_LIMIT then s\<lparr>axis_count := axis_count s + 1\<rparr> else s)
         else s\<lparr>axis_state := int i, axis_count := 0\<rparr>)
      else s)"

text \<open>
  The length of a vector in \<^verbatim>\<open>float\<close>: the library's squares are added up from 0, each sum is rounded,
  and the conversion to \<^verbatim>\<open>int\<close> drops the fraction of the library's root. \<^verbatim>\<open>powf\<close> is called for squares
  of 16-bit integers, whose nearest \<^verbatim>\<open>float\<close> is an integer again.
\<close>

record libm =
  powf :: "int \<Rightarrow> nat \<Rightarrow> nat"
  sqrtf :: "nat \<Rightarrow> real"

definition math_modulus :: "libm \<Rightarrow> u16 list \<Rightarrow> nat \<Rightarrow> int" where
  "math_modulus L v d =
     \<lfloor>sqrtf L (foldl (\<lambda>m x. float_of_nat (m + powf L (sint x) 2)) 0 (take d v))\<rfloor>"

definition radio_check_state :: "libm \<Rightarrow> bool \<Rightarrow> u16 list \<Rightarrow> accel \<Rightarrow> accel \<times> radio_eff list" where
  "radio_check_state L T acc_data s =
     (let norm = math_modulus L acc_data 3;
          s = (if norm > 235 \<and> norm < 275 then foldl (see_axis acc_data) s [0, 1, 2] else s)
      in if axis_count s = RADIO_REP_LIMIT then
           (let s = s\<lparr>axis_count := RADIO_REP_LIMIT + 1\<rparr> in
            if axis_state s = STATE_NORMAL then radio_handler_ok T s
            else if axis_state s = STATE_DOWN1 then radio_handler_warn T s
            else if axis_state s = STATE_DOWN2 then radio_handler_alarm T s
            else (s, []))
         else (s, []))"

text \<open>The sense thread on a sequence of samples of three axes.\<close>

fun radio_sensethread :: "libm \<Rightarrow> bool \<Rightarrow> u16 list list \<Rightarrow> accel \<Rightarrow> accel \<times> radio_eff list" where
  "radio_sensethread L T [] s = (s, [])"
| "radio_sensethread L T (a # as) s =
     (case radio_check_state L T a s of (s, es) \<Rightarrow>
      case radio_sensethread L T as s of (s, fs) \<Rightarrow> (s, es @ fs))"

definition accel_start :: "bool \<Rightarrow> bool \<Rightarrow> accel" where
  "accel_start g r = \<lparr>axis_state = -1, axis_count = 0, cmd_sequ = 0, cmd_evt = 0, green_on = g, red_on = r\<rparr>"

section \<open>At most one axis\<close>

text \<open>
  What is relied on of the library: \<^verbatim>\<open>powf\<close> and \<^verbatim>\<open>sqrtf\<close> are right up to one part in 1024, where
  C libraries document errors of about one unit in the last of 24 places.
\<close>

definition libm_ok :: "libm \<Rightarrow> bool" where
  "libm_ok L \<longleftrightarrow>
     (\<forall>x. -32768 \<le> x \<and> x < 32768 \<longrightarrow> 1024 * \<bar>int (powf L x 2) - x * x\<bar> \<le> x * x) \<and>
     (\<forall>m. 1024 * \<bar>sqrtf L m - sqrt (real m)\<bar> \<le> sqrt (real m))"

lemma near_bounds:
  fixes a b :: real
  assumes "1024 * \<bar>a - b\<bar> \<le> b"
  shows "1023 * b \<le> 1024 * a" "1024 * a \<le> 1025 * b"
  using assms by (simp_all add: abs_if split: if_splits)

lemma near_bounds_int:
  fixes a b :: int
  assumes "1024 * \<bar>a - b\<bar> \<le> b"
  shows "1023 * b \<le> 1024 * a"
  using assms by (simp add: abs_if split: if_splits)

text \<open>
  Then a length below 275 means that the squares add up to less than 100000, and two axes above the
  threshold are too long together, so a sample has one direction at most.
\<close>

lemma close_below:
  fixes a b :: int
  assumes "1023 * a \<le> 1024 * b" "b < 80000"
  shows "a \<le> b + 100"
  using assms by linarith

lemma sqrtf_below:
  assumes "libm_ok L" "\<lfloor>sqrtf L m\<rfloor> < 275"
  shows "m < 76176"
proof -
  have "1024 * \<bar>sqrtf L m - sqrt (real m)\<bar> \<le> sqrt (real m)" using assms(1) by (simp add: libm_ok_def)
  note near_bounds(1) [OF this]
  moreover have "sqrtf L m < 275" using assms(2) by (simp add: floor_less_iff)
  ultimately have "sqrt (real m) < 276" by linarith
  then have "real m < 276\<^sup>2"
    by (metis abs_numeral of_nat_0_le_iff real_sqrt_abs real_sqrt_less_iff)
  then show ?thesis by simp
qed

lemma modulus_below:
  assumes "libm_ok L" "math_modulus L [x, y, z] 3 < 275"
  shows "sint x * sint x + sint y * sint y + sint z * sint z < 100000"
proof -
  define p where "p a = int (powf L (sint a) 2)" for a :: u16
  define q where "q a = sint a * sint a" for a :: u16
  have q: "0 \<le> q a" for a by (simp add: q_def)
  have p: "1023 * q a \<le> 1024 * p a" for a
  proof -
    have "-32768 \<le> sint a" "sint a < 32768" using sint_ge [of a] sint_lt [of a] by simp_all
    with assms(1) have "1024 * \<bar>p a - q a\<bar> \<le> q a" by (simp add: libm_ok_def p_def q_def)
    then show ?thesis by (rule near_bounds_int)
  qed
  define s1 s2 s3 where "s1 = float_of_nat (0 + powf L (sint x) 2)"
    and "s2 = float_of_nat (s1 + powf L (sint y) 2)" and "s3 = float_of_nat (s2 + powf L (sint z) 2)"
  have f: "1023 * int n \<le> 1024 * int (float_of_nat n)" for n
    by (rule near_bounds_int [OF float_of_nat_near])
  have s: "1023 * p x \<le> 1024 * int s1" "1023 * (int s1 + p y) \<le> 1024 * int s2"
    "1023 * (int s2 + p z) \<le> 1024 * int s3"
    using f [of "0 + powf L (sint x) 2"] f [of "s1 + powf L (sint y) 2"] f [of "s2 + powf L (sint z) 2"]
    by (simp_all add: s1_def s2_def s3_def p_def)
  have s3: "int s3 < 76176"
    using sqrtf_below [OF assms(1), of s3] assms(2) by (simp add: math_modulus_def s1_def s2_def s3_def)
  have p0: "0 \<le> p a" for a by (simp add: p_def)
  note c = close_below [OF s(3)] close_below [OF s(2)] close_below [OF s(1)]
  from c s3 p0 [of x] p0 [of y] p0 [of z] have "p x + p y + p z < 76500" by auto
  then have "q x \<le> p x + 100" "q y \<le> p y + 100" "q z \<le> p z + 100"
    using close_below [OF p [of x]] close_below [OF p [of y]] close_below [OF p [of z]]
      p0 [of x] p0 [of y] p0 [of z] by auto
  with \<open>p x + p y + p z < 76500\<close> have "q x + q y + q z < 100000" by linarith
  then show ?thesis by (simp add: q_def)
qed

definition above :: "u16 list \<Rightarrow> nat \<Rightarrow> bool" where
  "above acc i \<longleftrightarrow> sint (acc ! i) > AXIS_THRESHOLD \<or> sint (acc ! i) < - AXIS_THRESHOLD"

definition in_window :: "libm \<Rightarrow> u16 list \<Rightarrow> bool" where
  "in_window L acc \<longleftrightarrow> (let n = math_modulus L acc 3 in n > 235 \<and> n < 275)"

definition axis :: "libm \<Rightarrow> u16 list \<Rightarrow> nat option" where
  "axis L acc = (if in_window L acc then find (above acc) [0, 1, 2] else None)"

lemma above_square: "above acc i \<Longrightarrow> 230 * 230 < sint (acc ! i) * sint (acc ! i)"
proof -
  have "230 * 230 < x * x" if "x > 230" for x :: int
    using mult_strict_mono [of 230 x 230 x] that by simp
  from this [of "sint (acc ! i)"] this [of "- sint (acc ! i)"] show "above acc i \<Longrightarrow> ?thesis"
    by (auto simp: above_def AXIS_THRESHOLD_def)
qed

lemma one_axis:
  assumes "libm_ok L" "length acc = 3" "in_window L acc" "above acc i" "above acc j" "i < 3" "j < 3"
  shows "i = j"
proof (rule ccontr)
  assume "i \<noteq> j"
  define q where "q k = sint (acc ! k) * sint (acc ! k)" for k
  have acc: "acc = [acc ! 0, acc ! 1, acc ! 2]"
    using assms(2) by (simp add: list_eq_iff_nth_eq nth_Cons' less_Suc_eq numeral_3_eq_3 numeral_2_eq_2)
  have "math_modulus L acc 3 < 275" using assms(3) by (simp add: in_window_def Let_def)
  then have "q 0 + q 1 + q 2 < 100000"
    unfolding q_def by (intro modulus_below [OF assms(1)]) (simp only: acc [symmetric])
  moreover have "0 \<le> q 0" "0 \<le> q 1" "0 \<le> q 2" by (simp_all add: q_def)
  moreover have "230 * 230 < q i" "230 * 230 < q j"
    using above_square [OF assms(4)] above_square [OF assms(5)] by (simp_all add: q_def)
  moreover have "i = 0 \<or> i = 1 \<or> i = 2" "j = 0 \<or> j = 1 \<or> j = 2" using assms(6,7) by linarith+
  ultimately show False using \<open>i \<noteq> j\<close> by auto
qed

lemma foldl_see_axis:
  assumes "libm_ok L" "length acc = 3" "in_window L acc"
  shows "foldl (see_axis acc) s [0, 1, 2] = (case axis L acc of None \<Rightarrow> s | Some i \<Rightarrow> see_axis acc s i)"
proof -
  have skip: "see_axis acc s i = s" if "\<not> above acc i" for s i
    using that by (auto simp: see_axis_def above_def)
  note one = one_axis [OF assms]
  have "\<not> (above acc 0 \<and> above acc 1)" "\<not> (above acc 0 \<and> above acc 2)" "\<not> (above acc 1 \<and> above acc 2)"
    using one [of 0 1] one [of 0 2] one [of 1 2] by auto
  then show ?thesis using assms(3)
    by (cases "above acc 0"; cases "above acc 1"; cases "above acc 2") (simp_all add: axis_def skip)
qed

section \<open>The detection\<close>

text \<open>What the demo does for a detected axis: an empty packet, and the command that is printed.\<close>

definition radio_evt :: "nat \<Rightarrow> evt" where
  "radio_evt d = (if d = 0 then CONFIRM else if d = 1 then ALARM else WARN)"

definition radio_msg :: "bool \<Rightarrow> u8 \<times> u8 \<Rightarrow> nat \<Rightarrow> (u8 \<times> u8) \<times> radio_eff list" where
  "radio_msg T c d =
     (let ev = (if radio_evt d = CONFIRM then fst c else fst c + 1)
      in ((ev, snd c + 1), radio_send T @ [Print_Cmd [evt_code (radio_evt d), ev, snd c]]))"

definition accel_inv :: "accel \<Rightarrow> bool" where
  "accel_inv s \<longleftrightarrow> axis_count s \<noteq> RADIO_REP_LIMIT \<and>
     (axis_state s = -1 \<and> axis_count s = 0 \<or> 0 \<le> axis_state s \<and> axis_state s \<le> 2)"

definition accel_look :: "accel \<Rightarrow> (nat \<times> nat) option" where
  "accel_look s = (if axis_state s = -1 then None else Some (nat (axis_state s), axis_count s))"

definition accel_ctr :: "accel \<Rightarrow> u8 \<times> u8" where
  "accel_ctr s = (cmd_evt s, cmd_sequ s)"

definition radio_handler_of :: "bool \<Rightarrow> nat \<Rightarrow> accel \<Rightarrow> accel \<times> radio_eff list" where
  "radio_handler_of T d s = (if d = 0 then radio_handler_ok T s else if d = 2 then radio_handler_warn T s
     else radio_handler_alarm T s)"

lemma radio_handler_effect:
  assumes "d \<le> 2"
  shows "\<exists>s' es. radio_handler_of T d s = (s', es) \<and> axis_state s' = axis_state s \<and>
    axis_count s' = axis_count s \<and> (accel_ctr s', es) = radio_msg T (accel_ctr s) d"
proof -
  consider "d = 0" | "d = 1" | "d = 2" using assms by linarith
  then show ?thesis
    by cases (simp_all add: radio_handler_of_def radio_handler_ok_def radio_handler_warn_def
      radio_handler_alarm_def radio_send_event_def radio_msg_def radio_evt_def accel_ctr_def Let_def)
qed

lemma see_axis_look:
  assumes "accel_inv s" "above acc d" "d \<le> 2"
  shows "see_axis acc s d = s\<lparr>axis_state := int d, axis_count :=
    (if axis_state s = int d then (if axis_count s < RADIO_REP_LIMIT then axis_count s + 1 else axis_count s)
     else 0)\<rparr>"
  using assms(2) by (cases s) (simp add: see_axis_def above_def)

lemma axis_above: "axis L acc = Some d \<Longrightarrow> d \<le> 2 \<and> above acc d \<and> in_window L acc"
  by (auto simp: axis_def split: if_splits)

lemma radio_check_eq:
  assumes "libm_ok L" "length acc = 3" "accel_inv s"
  shows "radio_check_state L T acc s =
    (case axis L acc of None \<Rightarrow> (s, [])
     | Some d \<Rightarrow>
        let c = (if axis_state s = int d
                 then (if axis_count s < RADIO_REP_LIMIT then axis_count s + 1 else axis_count s) else 0)
        in if c = RADIO_REP_LIMIT
           then radio_handler_of T d (s\<lparr>axis_state := int d, axis_count := RADIO_REP_LIMIT + 1\<rparr>)
           else (s\<lparr>axis_state := int d, axis_count := c\<rparr>, []))"
proof (cases "axis L acc")
  case None
  have "(if in_window L acc then foldl (see_axis acc) s [0, 1, 2] else s) = s"
    using foldl_see_axis [OF assms(1,2), of s] None by simp
  with None assms(3) show ?thesis
    by (simp add: radio_check_state_def in_window_def Let_def accel_inv_def)
next
  case (Some d)
  note d = axis_above [OF Some]
  have "(if in_window L acc then foldl (see_axis acc) s [0, 1, 2] else s) = see_axis acc s d"
    using foldl_see_axis [OF assms(1,2), of s] Some d by simp
  then have f: "(if 235 < math_modulus L acc 3 \<and> math_modulus L acc 3 < 275
      then foldl (see_axis acc) s [0, 1, 2] else s) = see_axis acc s d"
    by (simp add: in_window_def Let_def)
  have "d = 0 \<or> d = 1 \<or> d = 2" using d by linarith
  then show ?thesis
    using see_axis_look [OF assms(3), of acc d] d Some unfolding radio_check_state_def Let_def f
    by (auto simp: radio_handler_of_def STATE_NORMAL_def STATE_DOWN1_def STATE_DOWN2_def)
qed

text \<open>Samples of three axes are what the sensor is read for.\<close>

fun three :: "u16 \<times> u16 \<times> u16 \<Rightarrow> u16 list" where
  "three (x, y, z) = [x, y, z]"

lemma length_three: "length (three a) = 3"
  by (cases a) simp

definition accel_step :: "libm \<Rightarrow> bool \<Rightarrow> accel \<Rightarrow> u16 \<times> u16 \<times> u16 \<Rightarrow> accel \<times> radio_eff list" where
  "accel_step L T s a = radio_check_state L T (three a) s"

lemma radio_sensethread_outputs:
  "snd (radio_sensethread L T (map three as) s) = outputs (accel_step L T) s as"
  by (induction as arbitrary: s) (simp_all add: accel_step_def split_beta)

text \<open>With such a library the node is a detector.\<close>

locale accel_libm =
  fixes L :: libm
  assumes modulus: "libm_ok L"

lemma accel_detect:
  assumes "libm_ok L" "accel_inv s" "axis L (three e) = Some d"
  shows "\<exists>s' os. accel_step L T s e = (s', os) \<and> accel_inv s' \<and>
    accel_look s' = fst (deb RADIO_REP_LIMIT (accel_look s) d) \<and>
    (accel_ctr s', os) = msgs (radio_msg T) (accel_ctr s) (snd (deb RADIO_REP_LIMIT (accel_look s) d))"
proof -
  have d: "d \<le> 2" using axis_above [OF assms(3)] by simp
  define c where "c = (if axis_state s = int d
    then (if axis_count s < RADIO_REP_LIMIT then axis_count s + 1 else axis_count s) else 0)"
  have look: "deb RADIO_REP_LIMIT (accel_look s) d =
      (if c = RADIO_REP_LIMIT then (Some (d, RADIO_REP_LIMIT + 1), [d]) else (Some (d, c), []))"
    using assms(2) d by (auto simp: deb_def accel_look_def accel_inv_def c_def Let_def RADIO_REP_LIMIT_def)
  have step: "accel_step L T s e = (if c = RADIO_REP_LIMIT
      then radio_handler_of T d (s\<lparr>axis_state := int d, axis_count := RADIO_REP_LIMIT + 1\<rparr>)
      else (s\<lparr>axis_state := int d, axis_count := c\<rparr>, []))"
    using radio_check_eq [OF assms(1) length_three assms(2), of T e] assms(3)
    by (simp add: accel_step_def c_def Let_def)
  obtain s' es where h:
    "radio_handler_of T d (s\<lparr>axis_state := int d, axis_count := RADIO_REP_LIMIT + 1\<rparr>) = (s', es)"
    "axis_state s' = int d" "axis_count s' = RADIO_REP_LIMIT + 1"
    "(accel_ctr s', es) = radio_msg T (accel_ctr s) d"
    using radio_handler_effect [OF d, of T "s\<lparr>axis_state := int d, axis_count := RADIO_REP_LIMIT + 1\<rparr>"]
    by (auto simp: accel_ctr_def)
  show ?thesis
    using d h unfolding step look
    by (cases "radio_msg T (accel_ctr s) d")
      (auto simp: accel_inv_def accel_look_def accel_ctr_def)
qed

sublocale accel_libm \<subseteq> node: debounced RADIO_REP_LIMIT "accel_step L T" "\<lambda>a. axis L (three a)"
  accel_inv accel_look accel_ctr "radio_msg T" for T
proof unfold_locales
  show "0 < RADIO_REP_LIMIT" by (simp add: RADIO_REP_LIMIT_def)
next
  fix s e
  assume "accel_inv s" "axis L (three e) = None"
  then show "\<exists>s'. accel_step L T s e = (s', []) \<and> accel_inv s' \<and> accel_look s' = accel_look s \<and>
      accel_ctr s' = accel_ctr s"
    using radio_check_eq [OF modulus length_three, of s T e] by (simp add: accel_step_def)
qed (rule accel_detect [OF modulus])

context accel_libm
begin

lemma radio_outputs:
  "snd (radio_sensethread L T (map three as) (accel_start g r)) =
    snd (msgs (radio_msg T) (0, 0) (detections RADIO_REP_LIMIT (List.map_filter (\<lambda>a. axis L (three a)) as)))"
proof -
  have "accel_inv (accel_start g r)" "accel_look (accel_start g r) = None" "accel_ctr (accel_start g r) = (0, 0)"
    by (simp_all add: accel_inv_def accel_look_def accel_ctr_def accel_start_def RADIO_REP_LIMIT_def)
  with node.outputs_detections [of "accel_start g r" T as] show ?thesis
    by (simp add: radio_sensethread_outputs)
qed

end

text \<open>
  A library that rounds correctly: the square to 24 bits, and the root to the nearest multiple of
  the unit in the last of its 24 places.
\<close>

definition round_libm :: libm where
  "round_libm = \<lparr>powf = (\<lambda>x n. float_of_nat (nat (x ^ n))),
     sqrtf = (\<lambda>m. let u = 2 powr (\<lfloor>log 2 (sqrt m)\<rfloor> - 23) in of_int (round (sqrt m / u)) * u)\<rparr>"

lemma round_libm_ok: "libm_ok round_libm"
proof -
  have "1024 * \<bar>int (float_of_nat (nat (x ^ 2))) - x * x\<bar> \<le> x * x" for x :: int
    using float_of_nat_near [of "nat (x ^ 2)"] by (simp add: power2_eq_square)
  moreover have "1024 * \<bar>of_int (round (r / u)) * u - r\<bar> \<le> r"
    if u: "u = 2 powr (\<lfloor>log 2 r\<rfloor> - 23)" and r: "0 \<le> r" for r u :: real
  proof (cases "r = 0")
    case False
    have "2 powr \<lfloor>log 2 r\<rfloor> \<le> 2 powr (log 2 r)" by (intro powr_mono) simp_all
    then have "2 powr (23 + (of_int \<lfloor>log 2 r\<rfloor> - 23)) \<le> r" using r False by simp
    then have "2 powr 23 * u \<le> r" unfolding u powr_add by simp
    then have ur: "8388608 * u \<le> r" by simp
    have "0 < u" by (simp add: u)
    then have "\<bar>of_int (round (r / u)) * u - r\<bar> = \<bar>of_int (round (r / u)) - r / u\<bar> * u"
      by (simp add: abs_mult_pos' field_simps flip: abs_mult)
    also have "\<dots> \<le> 1 / 2 * u" using of_int_round_abs_le [of "r / u"] \<open>0 < u\<close> by (intro mult_right_mono) simp_all
    finally have "1024 * \<bar>of_int (round (r / u)) * u - r\<bar> \<le> 1024 * (1 / 2 * u)" by (rule mult_left_mono) simp
    with ur \<open>0 < u\<close> show ?thesis by simp
  qed simp
  ultimately show ?thesis by (simp add: libm_ok_def round_libm_def Let_def)
qed

interpretation rounding: accel_libm round_libm
  by unfold_locales (rule round_libm_ok)

text \<open>
  C28. For every sequence of 16-bit samples of three axes, and a C library whose \<^verbatim>\<open>powf\<close> and \<^verbatim>\<open>sqrtf\<close> are
  right up to one part in 1024, the accelerometer node reacts exactly to every run of at least
  four samples with the same axis, samples without an axis left out: it sends an empty packet and
  builds the command of the event, with the number of warnings and alarms and its own
  number modulo 256.
\<close>

theorem radio_events_debounced:
  assumes "\<And>x. -32768 \<le> x \<Longrightarrow> x < 32768 \<Longrightarrow> 1024 * \<bar>int (powf L x 2) - x * x\<bar> \<le> x * x"
    and "\<And>m. 1024 * \<bar>sqrtf L m - sqrt (real m)\<bar> \<le> sqrt (real m)"
  shows "snd (radio_sensethread L T (map three as) (accel_start g r)) =
    snd (msgs (radio_msg T) (0, 0) (detections RADIO_REP_LIMIT (List.map_filter (\<lambda>a. axis L (three a)) as)))"
proof -
  have "libm_ok L" using assms by (simp add: libm_ok_def)
  then show ?thesis by (rule accel_libm.radio_outputs [OF accel_libm.intro])
qed

lemma axis_250: "axis round_libm (three (250, 0, 0)) = Some 0"
proof -
  have "math_modulus round_libm [250, 0, 0] 3 = \<lfloor>sqrtf round_libm 62500\<rfloor>"
    by (simp add: math_modulus_def round_libm_def float_of_nat_def bit_len_simps Let_def)
  moreover have "1024 * \<bar>sqrtf round_libm 62500 - sqrt (real 62500)\<bar> \<le> sqrt (real 62500)"
    using round_libm_ok by (simp only: libm_ok_def)
  note near_bounds [OF this]
  moreover have "sqrt (real 62500) = 250" by (rule real_sqrt_unique) simp_all
  ultimately have "235 < math_modulus round_libm [250, 0, 0] 3" "math_modulus round_libm [250, 0, 0] 3 < 275"
    by (simp_all add: less_floor_iff floor_less_iff)
  then show ?thesis by (simp add: axis_def in_window_def above_def AXIS_THRESHOLD_def)
qed

text \<open>Five equal samples give one packet and one command.\<close>

lemma radio_events_debounced_witness:
  "snd (radio_sensethread round_libm True (map three (replicate 5 (250, 0, 0))) (accel_start False False)) =
    [Snd_Pkt [0], Print_Cmd [evt_code CONFIRM, 0, 0]]"
proof -
  have "List.map_filter (\<lambda>a. axis round_libm (three a)) (replicate 5 (250, 0, 0)) = replicate 5 0"
    by (simp add: map_filter_def axis_250 del: three.simps)
  moreover have "detections RADIO_REP_LIMIT (replicate 5 (0 :: nat)) = [0]"
    using runs_replicate [of 5 "0 :: nat" "[]"] by (simp add: detections_def RADIO_REP_LIMIT_def)
  ultimately show ?thesis
    using radio_events_debounced [of round_libm True "replicate 5 (250, 0, 0)" False False] round_libm_ok
    by (simp add: libm_ok_def radio_msg_def radio_evt_def radio_send_def Let_def)
qed

text \<open>
  The commands are numbered and printed, but no packet carries one: every packet is the same
  single 0.
\<close>

lemma packets_without_command:
  "e \<in> set (snd (msgs (radio_msg T) c ds)) \<Longrightarrow> (case e of Snd_Pkt bs \<Rightarrow> bs = [0] | Print_Cmd _ \<Rightarrow> True)"
  by (induction ds arbitrary: c) (auto simp: radio_msg_def radio_send_def Let_def split_beta split: if_splits)

end
