(* ===== verification/Coap_Ping.thy ===== *)
theory Coap_Ping
  imports Decimal
begin

text \<open>
  The CoAP ping of \<^verbatim>\<open>src/coap_test/coap.c\<close>: a command that sends a confirmable message without
  a code, and a server that answers it with a reset. The library's \<^verbatim>\<open>coap_build\<close> and
  \<^verbatim>\<open>coap_parse\<close>, the parser of addresses and the byte order of RIOT are an argument.
\<close>

section \<open>The program\<close>

datatype coap_type = COAP_TYPE_CON | COAP_TYPE_RESET | COAP_TYPE_OTHER u8

record coap_header =
  ver :: u8
  ctype :: coap_type
  tkl :: u8
  code :: u8
  cid :: "u8 list"

record coap_packet =
  hdr :: coap_header
  numopts :: u8

text \<open>
  \<open>coap_build\<close> gives the error code and the bytes for a buffer of some size, \<open>coap_parse\<close> the
  error code and the packet for the number of bytes received and the buffer; \<open>byteorder_htonl\<close>
  gives four bytes, and \<open>byteorder_htons\<close> a port.
\<close>

record coap_ext =
  coap_build :: "nat \<Rightarrow> coap_packet \<Rightarrow> int \<times> u8 list"
  coap_parse :: "int \<Rightarrow> u8 list \<Rightarrow> int \<times> coap_packet"
  addr_from_str :: "string \<Rightarrow> u8 list option"
  byteorder_htonl :: "u32 \<Rightarrow> u8 list"
  byteorder_htons :: "u16 \<Rightarrow> u16"

definition COAPPING_SIZE :: nat where "COAPPING_SIZE = 4"
definition COAPPING_UDP_PORT :: u16 where "COAPPING_UDP_PORT = 5683"
definition DEFAULT_SOURCE_PORT :: u16 where "DEFAULT_SOURCE_PORT = 61616"

record coap_node =
  msg_seq_cnt :: u16
  cbuf :: "u8 list"
  server_running :: bool
  srcport :: u16

datatype coap_eff = Udp_Sendto "u8 list" "u8 list" u16 u16 | Coap_Thread u16

definition coap_start :: coap_node where
  "coap_start = \<lparr>msg_seq_cnt = 0, cbuf = replicate COAPPING_SIZE 0, server_running = False, srcport = 0\<rparr>"

text \<open>The bytes built stand at the start of the buffer.\<close>

definition into :: "u8 list \<Rightarrow> u8 list \<Rightarrow> u8 list" where
  "into buf bs = bs @ drop (length bs) buf"

definition reset_for :: "coap_packet \<Rightarrow> coap_packet" where
  "reset_for pkt = \<lparr>hdr = \<lparr>ver = 0x01, ctype = COAP_TYPE_RESET, tkl = 0, code = 0,
     cid = [cid (hdr pkt) ! 0, cid (hdr pkt) ! 1]\<rparr>, numopts = 1\<rparr>"

text \<open>
  One round of the server: the buffer after the datagram was received, the number of bytes, and
  the sender; the result is the buffer and the answer.
\<close>

definition coap_server_round ::
  "coap_ext \<Rightarrow> u16 \<Rightarrow> u8 list \<Rightarrow> int \<Rightarrow> u8 list \<Rightarrow> u16 \<Rightarrow> u8 list \<times> coap_eff list" where
  "coap_server_round X sport buf n raddr rport =
     (case coap_parse X n buf of (rc, pkt) \<Rightarrow>
      if rc \<noteq> 0 then (buf, [])
      else if ctype (hdr pkt) = COAP_TYPE_RESET then (buf, [])
      else if ctype (hdr pkt) = COAP_TYPE_CON \<and> code (hdr pkt) = 0 then
        (case coap_build X COAPPING_SIZE (reset_for pkt) of (rc, bs) \<Rightarrow>
           let buf = into buf bs
           in if rc \<noteq> 0 then (buf, [])
              else (buf, [Udp_Sendto (take COAPPING_SIZE buf) raddr sport (byteorder_htons X rport)]))
      else (buf, []))"

definition coap_server_cmd :: "string list \<Rightarrow> coap_node \<Rightarrow> coap_node \<times> coap_eff list" where
  "coap_server_cmd argv s =
     (let port = (if length argv > 1 then word_of_int (atoi (argv ! 1)) else DEFAULT_SOURCE_PORT)
      in (s\<lparr>server_running := True, srcport := port\<rparr>, [Coap_Thread port]))"

definition ipv6_loopback :: "u8 list" where "ipv6_loopback = replicate 15 0 @ [1]"

definition coap_server_stop_cmd :: "coap_node \<Rightarrow> coap_node \<times> coap_eff list" where
  "coap_server_stop_cmd s =
     (s\<lparr>server_running := False\<rparr>,
      [Udp_Sendto (take COAPPING_SIZE (cbuf s)) ipv6_loopback (srcport s) (srcport s)])"

text \<open>
  The ping. After the usage was printed the command goes on, and \<open>argv[1]\<close> is the null pointer
  behind the arguments. The identifier is the first two bytes of the counter in network order.
\<close>

definition ping_packet :: "coap_ext \<Rightarrow> u16 \<Rightarrow> coap_packet" where
  "ping_packet X cnt = \<lparr>hdr = \<lparr>ver = 0x01, ctype = COAP_TYPE_CON, tkl = 0, code = 0,
     cid = take 2 (byteorder_htonl X (ucast cnt))\<rparr>, numopts = 1\<rparr>"

definition coap_cmd :: "coap_ext \<Rightarrow> string list \<Rightarrow> coap_node \<Rightarrow> fault + coap_node \<times> coap_eff list \<times> int" where
  "coap_cmd X argv s =
     (if length argv < 2 then Inl NullPointer
      else
        (case addr_from_str X (argv ! 1) of
           None \<Rightarrow> Inr (s, [], 1)
         | Some addr \<Rightarrow>
             (let dport = (if length argv > 2 then word_of_int (atoi (argv ! 2)) else COAPPING_UDP_PORT);
                  sport = (if length argv > 3 then word_of_int (atoi (argv ! 3)) else DEFAULT_SOURCE_PORT);
                  buf = into (cbuf s) (snd (coap_build X COAPPING_SIZE (ping_packet X (msg_seq_cnt s))))
              in Inr (s\<lparr>cbuf := buf, msg_seq_cnt := msg_seq_cnt s + 1\<rparr>,
                   [Udp_Sendto (take COAPPING_SIZE buf) addr sport dport], 0))))"

section \<open>Properties\<close>

text \<open>
  What the code relies on of the library: a confirmable or reset message of the protocol's
  version without code and token is built without error into the four bytes of its header, and
  its header is parsed from them; and the network order is big endian.
\<close>

definition coap_lib_ok :: "coap_ext \<Rightarrow> bool" where
  "coap_lib_ok X \<longleftrightarrow>
     (\<forall>p. ver (hdr p) = 1 \<and> (ctype (hdr p) = COAP_TYPE_CON \<or> ctype (hdr p) = COAP_TYPE_RESET) \<and>
         tkl (hdr p) = 0 \<and> code (hdr p) = 0 \<and> length (cid (hdr p)) = 2 \<and> numopts p = 1 \<longrightarrow>
        (\<exists>bs. coap_build X 4 p = (0, bs) \<and> length bs = 4 \<and>
          (\<exists>q. coap_parse X 4 bs = (0, q) \<and> hdr q = hdr p))) \<and>
     (\<forall>w. byteorder_htonl X w = [ucast (drop_bit 24 w), ucast (drop_bit 16 w), ucast (drop_bit 8 w), ucast w])"

lemma coap_lib_build:
  assumes "coap_lib_ok X" "ver (hdr p) = 1" "ctype (hdr p) = COAP_TYPE_CON \<or> ctype (hdr p) = COAP_TYPE_RESET"
    and "tkl (hdr p) = 0" "code (hdr p) = 0" "length (cid (hdr p)) = 2" "numopts p = 1"
  shows "\<exists>bs q. coap_build X 4 p = (0, bs) \<and> length bs = 4 \<and> coap_parse X 4 bs = (0, q) \<and> hdr q = hdr p"
  using assms unfolding coap_lib_ok_def by blast

lemma htonl_u16: "coap_lib_ok X \<Longrightarrow> take 2 (byteorder_htonl X (ucast (c :: u16))) = [0, 0]"
proof -
  assume "coap_lib_ok X"
  then have h: "byteorder_htonl X w = [ucast (drop_bit 24 w), ucast (drop_bit 16 w), ucast (drop_bit 8 w), ucast w]" for w
    by (simp add: coap_lib_ok_def)
  have "drop_bit k (ucast c :: u32) = 0" if "16 \<le> k" for k
  proof (rule bit_eqI)
    fix n
    have "\<not> bit c (k + n)" using bit_imp_le_length [of c "k + n"] that by auto
    then show "bit (drop_bit k (ucast c :: u32)) n = bit (0 :: u32) n" by (simp add: bit_simps)
  qed
  then show ?thesis by (simp add: h)
qed

text \<open>
  A ping to a running server is answered by a reset with its identifier; the identifier is 0
  for every value of the counter.
\<close>

lemma coap_ping_answered:
  assumes "coap_lib_ok X" "addr_from_str X a = Some addr" "length (cbuf s) = 4" "length buf = 4"
  shows "\<exists>s' msg dp. coap_cmd X [''coap'', a] s = Inr (s', [Udp_Sendto msg addr DEFAULT_SOURCE_PORT COAPPING_UDP_PORT], 0) \<and>
    msg_seq_cnt s' = msg_seq_cnt s + 1 \<and>
    (\<exists>q. coap_parse X 4 msg = (0, q) \<and> hdr q = hdr (ping_packet X (msg_seq_cnt s)) \<and> cid (hdr q) = [0, 0]) \<and>
    (\<exists>answer q. coap_server_round X sp msg 4 raddr rport = (answer, [Udp_Sendto answer raddr sp dp]) \<and>
       coap_parse X 4 answer = (0, q) \<and> ctype (hdr q) = COAP_TYPE_RESET \<and> cid (hdr q) = [0, 0])"
proof -
  let ?p = "ping_packet X (msg_seq_cnt s)"
  have p: "length (cid (hdr ?p)) = 2" "cid (hdr ?p) = [0, 0]"
    "ctype (hdr ?p) = COAP_TYPE_CON" "code (hdr ?p) = 0"
    using htonl_u16 [OF assms(1)] by (simp_all add: ping_packet_def)
  obtain bs q where bs: "coap_build X 4 ?p = (0, bs)" "length bs = 4" "coap_parse X 4 bs = (0, q)" "hdr q = hdr ?p"
    using coap_lib_build [OF assms(1), of ?p] p(1) by (auto simp: ping_packet_def)
  have r: "length (cid (hdr (reset_for q))) = 2"
    "cid (hdr (reset_for q)) = [0, 0]" "ctype (hdr (reset_for q)) = COAP_TYPE_RESET"
    using p(2) by (simp_all add: reset_for_def bs(4))
  obtain cs u where cs: "coap_build X 4 (reset_for q) = (0, cs)" "length cs = 4" "coap_parse X 4 cs = (0, u)"
    "hdr u = hdr (reset_for q)"
    using coap_lib_build [OF assms(1), of "reset_for q"] r(1) by (auto simp: reset_for_def)
  have "coap_cmd X [''coap'', a] s = Inr (s\<lparr>cbuf := bs, msg_seq_cnt := msg_seq_cnt s + 1\<rparr>,
      [Udp_Sendto bs addr DEFAULT_SOURCE_PORT COAPPING_UDP_PORT], 0)"
    using assms(2,3) bs(1,2) by (simp add: coap_cmd_def Let_def into_def COAPPING_SIZE_def)
  moreover have "coap_server_round X sp bs 4 raddr rport =
      (cs, [Udp_Sendto cs raddr sp (byteorder_htons X rport)])"
    using bs(2-4) cs(1,2) p by (simp add: coap_server_round_def Let_def into_def COAPPING_SIZE_def)
  ultimately show ?thesis using bs cs p r by auto
qed

text \<open>The command without an address does not stop at its usage.\<close>

lemma coap_cmd_without_address: "coap_cmd X [''coap''] s = Inl NullPointer"
  by (simp add: coap_cmd_def)

text \<open>The library, as far as the ping needs it.\<close>

definition ex_coap :: coap_ext where
  "ex_coap = \<lparr>
     coap_build = (\<lambda>n p. (0, [if ctype (hdr p) = COAP_TYPE_CON then 0x40 else 0x70, 0, cid (hdr p) ! 0, cid (hdr p) ! 1])),
     coap_parse = (\<lambda>n bs. (0, \<lparr>hdr = \<lparr>ver = 1, ctype = if bs ! 0 = 0x40 then COAP_TYPE_CON else COAP_TYPE_RESET,
        tkl = 0, code = bs ! 1, cid = [bs ! 2, bs ! 3]\<rparr>, numopts = 0\<rparr>)),
     addr_from_str = (\<lambda>a. Some ipv6_loopback),
     byteorder_htonl = (\<lambda>w. [ucast (drop_bit 24 w), ucast (drop_bit 16 w), ucast (drop_bit 8 w), ucast w]),
     byteorder_htons = (\<lambda>p. p)\<rparr>"

lemma ex_coap_ok: "coap_lib_ok ex_coap"
proof -
  have "xs = [xs ! 0, xs ! 1]" if "length xs = 2" for xs :: "u8 list"
    using that by (cases xs; cases "tl xs") auto
  then show ?thesis by (auto simp: coap_lib_ok_def ex_coap_def intro!: coap_header.equality)
qed

end
