(* ===== verification/Computation.thy ===== *)
theory Computation
  imports Dow_System
begin

text \<open>
  \<^verbatim>\<open>src/ccnl_computation\<close> is \<^verbatim>\<open>src/ccnl_caching\<close> on a newer RIOT, with the callbacks in a file of
  their own: apart from the names of RIOT's calls and the size of the cache its functions are
  the ones modelled for \<^verbatim>\<open>ccnl_caching\<close>. What it adds is here: the highest number of a source
  seen in a content, which \<open>ccnlriot_consumer\<close> (\<^verbatim>\<open>ccnl_callbacks.c\<close>) reads from the third component
  of every name before it looks at anything else.
\<close>

definition seen_id :: "pkt \<Rightarrow> u32 \<Rightarrow> fault + u32" where
  "seen_id p dow_highest_id = and_then (content_id p) (\<lambda>cont_id.
     Inr (if cont_id > dow_highest_id then cont_id else dow_highest_id))"

definition consumer_computation :: "config \<Rightarrow> ext \<Rightarrow> int \<Rightarrow> pkt \<Rightarrow> node \<times> u32 \<Rightarrow> fault + int \<times> node \<times> u32" where
  "consumer_computation cfg X from p n =
     (case n of (s, dow_highest_id) \<Rightarrow>
      if dow_state s = DOW_STATE_STOPPED then Inr (1, emit (Packet_freed p) s, dow_highest_id)
      else and_then (seen_id p dow_highest_id) (\<lambda>dow_highest_id.
        and_then (ccnlriot_consumer cfg X from p s) (\<lambda>(res, s). Inr (res, s, dow_highest_id))))"

text \<open>
  For names of at least three components the two consumers agree, and the highest number is the
  maximum of those seen.
\<close>

lemma consumer_computation_agrees:
  assumes "compcnt (pfx p) \<ge> 3" "dow_state s \<noteq> DOW_STATE_STOPPED"
  shows "consumer_computation cfg X from p (s, h) =
    and_then (ccnlriot_consumer cfg X from p s) (\<lambda>(res, s').
      Inr (res, s', max h (of_int (strtol16 (comp (pfx p) ! 2)))))"
proof -
  have "content_id p = Inr (of_int (strtol16 (comp (pfx p) ! 2)))"
    using assms(1) by (simp add: content_id_def)
  then have "seen_id p h = Inr (max h (of_int (strtol16 (comp (pfx p) ! 2))))"
    by (simp add: seen_id_def max_def not_less order.strict_iff_order)
  with assms(2) show ?thesis by (simp add: consumer_computation_def)
qed

text \<open>
  A shorter name, which every acknowledgement has, is read behind its components; the consumer
  of \<^verbatim>\<open>ccnl_caching\<close> handles acknowledgements before it reads the name.
\<close>

lemma acknowledgement_reads_past_name:
  assumes "compcnt (pfx p) < 3" "dow_state s \<noteq> DOW_STATE_STOPPED"
  shows "consumer_computation cfg X from p (s, h) = Inl OutOfBounds"
  using assms by (simp add: consumer_computation_def seen_id_def content_id_def)

lemma acknowledgement_handled_in_caching:
  assumes "prefix_cmp X (all_pfx s) (pfx p) CMP_MATCH \<ge> 1" "cvalue (content p) = CCNLRIOT_CONT_ACK @ v"
    and "cnum (content p) < 0" "dow_state s = DOW_STATE_DEPUTY"
  shows "\<exists>s'. ccnlriot_consumer cfg X from p s = Inr (1, s')"
  using assms by (simp add: ccnlriot_consumer_def)

section \<open>The node\<close>

text \<open>The node with the number it has computed; only contents for the consumer change it.\<close>

definition computation_step :: "config \<Rightarrow> ext \<Rightarrow> node \<times> u32 \<Rightarrow> event \<Rightarrow> fault + node \<times> u32" where
  "computation_step cfg X n e =
     (case e of
        Content from p \<Rightarrow> and_then (consumer_computation cfg X from p n) (\<lambda>(_, s, h). Inr (s, h))
      | _ \<Rightarrow> and_then (node_step cfg X (fst n) e) (\<lambda>s. Inr (s, snd n)))"

lemma consumer_stopped:
  "dow_state s = DOW_STATE_STOPPED \<Longrightarrow> ccnlriot_consumer cfg X from p s = Inr (1, emit (Packet_freed p) s)"
  by (simp add: ccnlriot_consumer_def)

lemma computation_step_node:
  assumes "\<forall>from p. e = Content from p \<longrightarrow> compcnt (pfx p) \<ge> 3"
  shows "and_then (computation_step cfg X (s, h) e) (\<lambda>(s, _). Inr s) = node_step cfg X s e"
proof (cases e)
  case (Content face p)
  show ?thesis
  proof (cases "dow_state s = DOW_STATE_STOPPED")
    case True
    then show ?thesis by (simp add: Content computation_step_def consumer_computation_def node_step_def consumer_stopped)
  next
    case False
    have "compcnt (pfx p) \<ge> 3" using assms Content by simp
    from consumer_computation_agrees [OF this False] show ?thesis
      by (auto simp: Content computation_step_def node_step_def and_then_def split: sum.splits)
  qed
qed (auto simp: computation_step_def and_then_def split: sum.splits)

text \<open>
  Apart from the number, the node of \<^verbatim>\<open>ccnl_computation\<close> is the one of \<^verbatim>\<open>ccnl_caching\<close>: along every
  run in which all contents have names of at least three components it reaches the same states,
  or the same fault.
\<close>

lemma computation_runs_caching:
  assumes "\<forall>from p. Content from p \<in> set es \<longrightarrow> compcnt (pfx p) \<ge> 3"
  shows "and_then (run_res (computation_step cfg X) (s, h) es) (\<lambda>(s, _). Inr s) = run_res (node_step cfg X) s es"
  using assms
proof (induction es arbitrary: s h)
  case (Cons e es)
  have n: "and_then (computation_step cfg X (s, h) e) (\<lambda>(s, _). Inr s) = node_step cfg X s e"
    using Cons.prems by (intro computation_step_node) auto
  show ?case
  proof (cases "computation_step cfg X (s, h) e")
    case (Inl f)
    then have "node_step cfg X s e = Inl f" using n by simp
    with Inl show ?thesis by simp
  next
    case (Inr t)
    then have "node_step cfg X s e = Inr (fst t)" using n by (simp add: case_prod_beta)
    with Inr show ?thesis using Cons.IH [of "fst t" "snd t"] Cons.prems by (cases t) auto
  qed
qed simp

end
