(* ===== verification/Rum_Router.thy ===== *)
theory Rum_Router
  imports Demo_Light
begin

text \<open>
  The router node of the CeBIT demo, \<^verbatim>\<open>src/RUM2\<close>: the start of the network and the neighbours
  along a chain of nodes (\<^verbatim>\<open>rpl.c\<close>), the monitor that visualises packets and the command that
  ignores a node (\<^verbatim>\<open>helper.c\<close>, \<^verbatim>\<open>viz.c\<close>), the shell's tables, and the UDP server that answers
  requests with four packets (\<^verbatim>\<open>udpif.c\<close>). Sending and starting the server are the functions of
  the light node, of which this demo has a copy.
\<close>

section \<open>The state\<close>

text \<open>
  \<open>tcmd_data\<close> is the pointer in the command to the transceiver, null at first and later the
  address of an argument of a call that has returned. \<open>receive_buffer\<close> and \<open>ll_src\<close> are the
  variables of the server's and of the monitor's thread.
\<close>

datatype data_ptr = Null | Stack_Slot

record rum =
  rum_id :: u16
  is_root :: bool
  tcmd_data :: data_ptr
  ll_src :: u8
  receive_buffer :: "u8 list"
  rum_udp :: udp_node

datatype rum_eff =
  Udp udp_eff | Usleep nat | Fw int int int | Processed | Dbg_ign u16
  | Hardware_address u16 | Rpl_init | Rpl_init_root | Routing_provider | Monitor_thread
  | Register_transceiver | Register_ipv6 | Prefix_info "u16 list" nat | Init_as_router
  | Add_address_eui64 "u16 list" | Set_channel nat | Neighbor "u16 list" u16

definition UDP_BUFFER_SIZE :: nat where "UDP_BUFFER_SIZE = 128"
definition RADIO_CHANNEL :: nat where "RADIO_CHANNEL = 6"

section \<open>Visualisation\<close>

definition viz_udp_pkt :: "u8 \<Rightarrow> rum \<Rightarrow> rum_eff list" where
  "viz_udp_pkt src r = [Fw (uint src) (uint (evt_code DTA_RCVD)) (uint (rum_id r))]"

definition viz_udp_snd :: "u8 \<Rightarrow> rum \<Rightarrow> rum_eff list" where
  "viz_udp_snd dst r =
     (if rum_id r = 32 \<or> rum_id r = 33
      then [Fw (uint (rum_id r)) (uint (evt_code DTA_RCVD)) (uint dst)] else [])"

section \<open>The UDP server\<close>

text \<open>
  What one call of \<^verbatim>\<open>tl_socket_recvfrom\<close> gives: an error, or the bytes it writes to the start of
  the buffer, whose number it returns, and the last byte of the sender's address.
\<close>

datatype reception = Recv_Error | Received "u8 list" u8

definition mypayload :: "u8 list" where "mypayload = replicate 150 0"

definition default_data_handler :: "u16 \<Rightarrow> rum \<Rightarrow> rum_eff list" where
  "default_data_handler src r = viz_udp_pkt (ucast src) r"

definition send_payload :: "udp_ext \<Rightarrow> u16 \<Rightarrow> rum \<Rightarrow> rum \<times> rum_eff list" where
  "send_payload X dst r =
     (case light_udpif_send X dst APPLICATION_PORT mypayload (rum_udp r) of
        (u, es, _) \<Rightarrow> (r\<lparr>rum_udp := u\<rparr>, map Udp es))"

definition send_four :: "udp_ext \<Rightarrow> u16 \<Rightarrow> rum \<Rightarrow> rum \<times> rum_eff list" where
  "send_four X dst r =
     (let (r, e1) = send_payload X dst r;
          (r, e2) = send_payload X dst r;
          (r, e3) = send_payload X dst r;
          (r, e4) = send_payload X dst r
      in (r, e1 @ [Usleep 10000] @ e2 @ [Usleep 10000] @ e3 @ [Usleep 10000] @ e4))"

text \<open>
  One round of the server. The buffer keeps what earlier rounds left behind the bytes received,
  and its first byte is looked at in any case.
\<close>

definition rum_server_round :: "udp_ext \<Rightarrow> reception \<Rightarrow> rum \<Rightarrow> fault + rum \<times> rum_eff list" where
  "rum_server_round X rc r =
     (case rc of
        Recv_Error \<Rightarrow> Inr (r, [])
      | Received bytes src \<Rightarrow>
          if length bytes > UDP_BUFFER_SIZE then Inl OutOfBounds
          else
            (let r = r\<lparr>receive_buffer := bytes @ drop (length bytes) (receive_buffer r)\<rparr>;
                 src_local_addr = ucast src;
                 es = default_data_handler src_local_addr r
             in and_then (nth_res (receive_buffer r) 0) (\<lambda>c.
                  if c = of_char (CHR ''r'')
                  then (case send_four X src_local_addr r of (r, fs) \<Rightarrow> Inr (r, es @ fs))
                  else Inr (r, es))))"

definition rum_start_server :: "udp_ext \<Rightarrow> u16 \<Rightarrow> rum \<Rightarrow> rum \<times> rum_eff list" where
  "rum_start_server X port r =
     (case light_start_server X port Default_Data_Handler (rum_udp r, None) of
        ((u, _), es) \<Rightarrow> (r\<lparr>rum_udp := u\<rparr>, map Udp es))"

section \<open>The monitor\<close>

text \<open>
  The monitor's messages: a packet of the radio with its source, an IPv6 packet given by its
  next header, the last byte of its destination and all its bytes, and the others, which are
  printed.
\<close>

datatype monitor_msg =
  Pkt_pending u16 | Ipv6_packet_received u8 u8 "u8 list" | Monitor_other

definition LL_HDR_LEN :: nat where "LL_HDR_LEN = 4"
definition IPV6_HDR_LEN :: nat where "IPV6_HDR_LEN = 0x28"
definition IPV6_PROTO_NUM_UDP :: u8 where "IPV6_PROTO_NUM_UDP = 17"
definition IPV6_PROTO_NUM_ICMPV6 :: u8 where "IPV6_PROTO_NUM_ICMPV6 = 58"

text \<open>
  The pointer to the ICMPv6 header is computed on an array of IPv6 headers, so its index is in
  units of 40 bytes.
\<close>

definition icmpv6_offset :: "nat \<Rightarrow> nat" where
  "icmpv6_offset ipv6_ext_hdr_len = 40 * (LL_HDR_LEN + IPV6_HDR_LEN + ipv6_ext_hdr_len)"

definition rpl_udp_monitor :: "nat \<Rightarrow> monitor_msg \<Rightarrow> rum \<Rightarrow> fault + rum \<times> rum_eff list" where
  "rpl_udp_monitor ipv6_ext_hdr_len m r =
     (case m of
        Pkt_pending src \<Rightarrow> Inr (r\<lparr>ll_src := ucast src\<rparr>, [Processed])
      | Ipv6_packet_received nextheader dest15 bytes \<Rightarrow>
          (let es = (if nextheader = IPV6_PROTO_NUM_UDP then viz_udp_pkt (ll_src r) r else []);
               es = es @ (if dest15 = 51 then viz_udp_snd 51 r else [])
           in if nextheader = IPV6_PROTO_NUM_ICMPV6 then
                and_then (nth_res bytes (icmpv6_offset ipv6_ext_hdr_len)) (\<lambda>icmp_type.
                and_then (nth_res bytes (icmpv6_offset ipv6_ext_hdr_len + 1)) (\<lambda>icmp_code.
                  Inr (r, es)))
              else Inr (r, es))
      | Monitor_other \<Rightarrow> Inr (r, []))"

section \<open>The shell\<close>

definition rpl_udp_set_id :: "string list \<Rightarrow> rum \<Rightarrow> rum" where
  "rpl_udp_set_id argv r =
     (if length argv \<noteq> 2 then r else r\<lparr>rum_id := word_of_int (atoi (argv ! 1))\<rparr>)"

definition rpl_udp_ignore :: "u16 \<Rightarrow> rum \<Rightarrow> rum \<times> rum_eff list" where
  "rpl_udp_ignore a r = (r\<lparr>tcmd_data := Stack_Slot\<rparr>, [Dbg_ign a])"

text \<open>
  The command prints the byte that the command to the transceiver points to before it sets the
  pointer.
\<close>

definition rpl_udp_ignore_cmd :: "int \<Rightarrow> string list \<Rightarrow> rum \<Rightarrow> fault + rum \<times> rum_eff list" where
  "rpl_udp_ignore_cmd transceiver_pid argv r =
     (if transceiver_pid < 0 then Inr (r, [])
      else if length argv = 2 then
        (let a = word_of_int (atoi (argv ! 1)) in
         if tcmd_data r = Null then Inl NullPointer else Inr (rpl_udp_ignore a r))
      else Inr (r, []))"

definition fill_nc :: "udp_ext \<Rightarrow> rum \<Rightarrow> rum_eff list" where
  "fill_nc X r =
     [Neighbor (udpif_get_ipv6_address (rum_id r - 1)) (htons X (rum_id r - 1)),
      Neighbor (udpif_get_ipv6_address (rum_id r + 1)) (htons X (rum_id r + 1))]"

definition rpl_udp_init :: "udp_ext \<Rightarrow> string list \<Rightarrow> rum \<Rightarrow> rum \<times> rum_eff list" where
  "rpl_udp_init X argv r =
     (if length argv \<noteq> 2 then (r, [])
      else
        (let command = (argv ! 1 @ [CHR 0x00]) ! 0 in
         if command = CHR ''n'' \<or> command = CHR ''r'' then
           (if rum_id r = 0 \<or> rum_id r > 255 then (r, [])
            else
              (let root = (command = CHR ''r'');
                   r = (if root then r\<lparr>is_root := True\<rparr> else r);
                   std_addr = [0xABCD, 0xEF12, 0, 0, 0x1034, 0x00FF, 0xFE00, rum_id r]
               in (r, [Hardware_address (rum_id r), Rpl_init] @ (if root then [Rpl_init_root] else []) @
                      [Routing_provider, Monitor_thread, Register_transceiver, Register_ipv6,
                       Prefix_info std_addr 64, Init_as_router, Add_address_eui64 std_addr,
                       Set_channel RADIO_CHANNEL] @ fill_nc X r)))
         else (r, [])))"

section \<open>The tables\<close>

text \<open>
  What the commands print of RPL's state: the lines about the routing table and the parent.
  RPL's comparison of addresses, \<^verbatim>\<open>rpl_equal_id\<close>, is an argument.
\<close>

record rt_entry =
  rt_used :: bool
  rt_address :: "u16 list"
  rt_next_hop :: "u16 list"
  rt_lifetime :: nat

record dodag =
  dodag_id :: "u16 list"
  my_rank :: nat
  my_preferred_parent :: "(u16 list \<times> nat) option"

datatype line = Addr "u16 list" | Entry nat nat | Multi_Hop | Rank nat | Lifetime nat | No_Dodag

definition rpl_udp_table :: "(u16 list \<Rightarrow> u16 list \<Rightarrow> bool) \<Rightarrow> rt_entry list \<Rightarrow> line list" where
  "rpl_udp_table equal_id rtable = concat (map (\<lambda>(i, e).
     if rt_used e then
       [Addr (rt_address e), Entry i (rt_lifetime e)] @
       (if \<not> equal_id (rt_address e) (rt_next_hop e) then [Multi_Hop] else [])
     else []) (enumerate 0 rtable))"

definition rpl_udp_loop :: "(u16 list \<Rightarrow> u16 list \<Rightarrow> bool) \<Rightarrow> dodag option \<Rightarrow> rt_entry list \<Rightarrow> rum \<Rightarrow> fault + line list" where
  "rpl_udp_loop equal_id mydodag rtable r =
     (case mydodag of None \<Rightarrow> Inr []
      | Some d \<Rightarrow>
        and_then (if is_root r then Inr []
                  else and_then (deref (my_preferred_parent d)) (\<lambda>(a, l). Inr [Addr a, Lifetime l])) (\<lambda>parent.
        Inr ([Rank (my_rank d)] @ parent @ concat (map (\<lambda>(i, e).
          if rt_used e then
            [Addr (rt_address e), Addr (rt_next_hop e), Entry i (rt_lifetime e)] @
            (if \<not> equal_id (rt_address e) (rt_next_hop e) then [Multi_Hop] else [])
          else []) (enumerate 0 rtable)))))"

definition rpl_udp_dodag :: "dodag option \<Rightarrow> rum \<Rightarrow> fault + line list" where
  "rpl_udp_dodag mydodag r =
     (case mydodag of None \<Rightarrow> Inr [No_Dodag]
      | Some d \<Rightarrow>
        and_then (if is_root r then Inr []
                  else and_then (deref (my_preferred_parent d)) (\<lambda>(a, l). Inr [Addr a])) (\<lambda>parent.
        Inr ([Addr (dodag_id d), Rank (my_rank d)] @ parent)))"

text \<open>The start of a node: it starts its server, and the rest is left to the shell.\<close>

definition rum_start :: "u16 \<Rightarrow> u8 list \<Rightarrow> rum" where
  "rum_start node_address stack =
     \<lparr>rum_id = node_address, is_root = False, tcmd_data = Null, ll_src = 0,
      receive_buffer = stack, rum_udp = udp_start\<rparr>"

definition rum_main :: "udp_ext \<Rightarrow> rum \<Rightarrow> rum \<times> rum_eff list" where
  "rum_main X r = rum_start_server X APPLICATION_PORT r"

end
