(* ===== verification/Draining.thy ===== *)
theory Draining
  imports Complex_Main Prelude
begin

text \<open>
  Networks that fall silent: messages in flight are handled until none is left, under the
  contract that the answers to a message are lighter than the message.
\<close>

section \<open>Handling messages until none is left\<close>

text \<open>
  \<open>drain\<close> hands the messages in flight to a handler, whose answers join the others. It stops
  when none is left, or when its fuel is used up.
\<close>

fun drain :: "nat \<Rightarrow> ('s \<Rightarrow> 'm \<Rightarrow> fault + 's \<times> 'm list) \<Rightarrow> 's \<Rightarrow> 'm list \<Rightarrow> fault + 's" where
  "drain n handle s [] = Inr s"
| "drain 0 handle s (m # q) = Inl OutOfFuel"
| "drain (Suc n) handle s (m # q) = and_then (handle s m) (\<lambda>(s, out). drain n handle s (q @ out))"

text \<open>
  A handler whose answers are lighter than the message it handles falls silent, after at most as
  many messages as the ones in flight weigh.
\<close>

locale draining =
  fixes handle :: "'s \<Rightarrow> 'm \<Rightarrow> fault + 's \<times> 'm list"
    and inv :: "'s \<Rightarrow> bool" and ok :: "'m \<Rightarrow> bool" and weight :: "'m \<Rightarrow> nat"
  assumes handle_ok: "inv s \<Longrightarrow> ok m \<Longrightarrow> \<exists>s' out. handle s m = Inr (s', out) \<and> inv s' \<and>
      list_all ok out \<and> sum_list (map weight out) < weight m"
begin

lemma drains:
  "inv s \<Longrightarrow> list_all ok q \<Longrightarrow> sum_list (map weight q) \<le> n \<Longrightarrow> \<exists>s'. drain n handle s q = Inr s' \<and> inv s'"
proof (induction n arbitrary: s q)
  case 0
  then show ?case
  proof (cases q)
    case (Cons m q')
    with 0 have "inv s" "ok m" "weight m = 0" by simp_all
    with handle_ok [of s m] show ?thesis by auto
  qed simp
next
  case (Suc n)
  then show ?case
  proof (cases q)
    case (Cons m q')
    with Suc.prems obtain s' out where h: "handle s m = Inr (s', out)" "inv s'" "list_all ok out"
      "sum_list (map weight out) < weight m" using handle_ok [of s m] by auto
    with Cons Suc.prems have "list_all ok (q' @ out)" "sum_list (map weight (q' @ out)) \<le> n" by simp_all
    with Suc.IH [OF h(2)] Cons h(1) show ?thesis by simp
  qed simp
qed

end

text \<open>With a tally that every message raises by its worth, once its answers are counted too.\<close>

locale accounted = draining +
  fixes tally :: "'s \<Rightarrow> 'k \<Rightarrow> nat" and worth :: "'m \<Rightarrow> 'k \<Rightarrow> nat"
  assumes handle_tally: "inv s \<Longrightarrow> ok m \<Longrightarrow> handle s m = Inr (s', out) \<Longrightarrow>
      tally s' k + (\<Sum>m'\<leftarrow>out. worth m' k) = tally s k + worth m k"
begin

lemma drain_tally:
  "inv s \<Longrightarrow> list_all ok q \<Longrightarrow> drain n handle s q = Inr s' \<Longrightarrow> tally s' k = tally s k + (\<Sum>m\<leftarrow>q. worth m k)"
proof (induction n arbitrary: s q)
  case 0
  then show ?case by (cases q) simp_all
next
  case (Suc n)
  then show ?case
  proof (cases q)
    case (Cons m q')
    with Suc.prems obtain t out where h: "handle s m = Inr (t, out)" "inv t" "list_all ok out"
      using handle_ok [of s m] by auto
    with Cons Suc.prems have "list_all ok (q' @ out)" "drain n handle t (q' @ out) = Inr s'" by simp_all
    from Suc.IH [OF h(2) this] handle_tally [OF Suc.prems(1) _ h(1), of k] Cons Suc.prems(2)
    show ?thesis by simp
  qed simp
qed

end

end
