(* ===== verification/Rum_Props.thy ===== *)
theory Rum_Props
  imports Rum_Router Draining
begin

text \<open>
  The properties of the CeBIT router node: a network of servers answers every request with four
  packets and falls silent, the neighbours form a chain, and which commands and packets read
  where they should not.
\<close>

section \<open>The network of routers\<close>

record datagram =
  d_src :: u16
  d_dst :: u16
  d_data :: "u8 list"

record rum_net =
  nodes :: "u16 \<Rightarrow> rum"
  delivered :: "datagram list"

text \<open>The datagrams that a node puts into the air: those sent over an open socket to the application's port.\<close>

fun sent_datagrams :: "udp_ext \<Rightarrow> u16 \<Rightarrow> rum_eff list \<Rightarrow> datagram list" where
  "sent_datagrams X i [] = []"
| "sent_datagrams X i (Udp (Sendto s a bs) # es) =
     (if s \<ge> 0 \<and> sin6_port a = htons X APPLICATION_PORT
      then [\<lparr>d_src = i, d_dst = last (sin6_addr a), d_data = bs\<rparr>] else []) @ sent_datagrams X i es"
| "sent_datagrams X i (_ # es) = sent_datagrams X i es"

text \<open>
  One datagram reaches the server of its destination; \<open>recvfrom\<close> says what of its bytes the
  socket hands over.
\<close>

definition net_deliver :: "udp_ext \<Rightarrow> (u8 list \<Rightarrow> u8 list) \<Rightarrow> rum_net \<Rightarrow> datagram \<Rightarrow> fault + rum_net \<times> datagram list" where
  "net_deliver X recvfrom n d =
     and_then (rum_server_round X (Received (recvfrom (d_data d)) (ucast (d_src d))) (nodes n (d_dst d)))
       (\<lambda>(r, es). Inr (n\<lparr>nodes := (nodes n)(d_dst d := r), delivered := delivered n @ [d]\<rparr>,
                       sent_datagrams X (d_dst d) es))"

definition is_request :: "datagram \<Rightarrow> bool" where
  "is_request d \<longleftrightarrow> d_data d \<noteq> [] \<and> hd (d_data d) = of_char (CHR ''r'')"

text \<open>
  What is relied on: a socket hands over as many bytes of a datagram as fit the buffer, and
  sockets can be opened.
\<close>

definition net_works :: "udp_ext \<Rightarrow> (u8 list \<Rightarrow> u8 list) \<Rightarrow> bool" where
  "net_works X recvfrom \<longleftrightarrow> (\<forall>bs. recvfrom bs = take UDP_BUFFER_SIZE bs) \<and> (\<forall>k. open_result X k \<ge> 0)"

definition buffers_ok :: "rum_net \<Rightarrow> bool" where
  "buffers_ok n \<longleftrightarrow> (\<forall>i. length (receive_buffer (nodes n i)) = UDP_BUFFER_SIZE)"

definition datagram_ok :: "datagram \<Rightarrow> bool" where
  "datagram_ok d \<longleftrightarrow> d_data d \<noteq> [] \<and> (is_request d \<longrightarrow> d_src d < 256)"

subsection \<open>One delivery\<close>

lemma low_byte: "(a :: u16) < 256 \<Longrightarrow> ucast (ucast a :: u8) = a"
  by (intro word_unat_eq_iff [THEN iffD2])
    (simp add: unsigned_ucast_eq unsigned_take_bit_eq take_bit_nat_eq_self word_less_nat_alt)

lemma sent_append [simp]: "sent_datagrams X i (es @ fs) = sent_datagrams X i es @ sent_datagrams X i fs"
  by (induction X i es rule: sent_datagrams.induct) auto

lemma send_payload_sends:
  assumes "\<forall>k. open_result X k \<ge> 0"
  shows "\<exists>u es. send_payload X dst r = (r\<lparr>rum_udp := u\<rparr>, es) \<and>
    sent_datagrams X i es = [\<lparr>d_src = i, d_dst = dst, d_data = mypayload\<rparr>]"
proof -
  have "open_result X (n_open (rum_udp r)) \<ge> 0" using assms by blast
  then show ?thesis
    by (auto simp: send_payload_def light_udpif_send_def init_send_socket_def udpif_get_ipv6_address_def Let_def)
qed

lemma send_four_sends:
  assumes "\<forall>k. open_result X k \<ge> 0"
  shows "\<exists>u es. send_four X dst r = (r\<lparr>rum_udp := u\<rparr>, es) \<and>
    sent_datagrams X i es = replicate 4 \<lparr>d_src = i, d_dst = dst, d_data = mypayload\<rparr>"
proof -
  note sends = send_payload_sends [OF assms, of dst _ i]
  obtain u1 e1 where 1: "send_payload X dst r = (r\<lparr>rum_udp := u1\<rparr>, e1)"
    "sent_datagrams X i e1 = [\<lparr>d_src = i, d_dst = dst, d_data = mypayload\<rparr>]" using sends by blast
  obtain u2 e2 where 2: "send_payload X dst (r\<lparr>rum_udp := u1\<rparr>) = (r\<lparr>rum_udp := u2\<rparr>, e2)"
    "sent_datagrams X i e2 = [\<lparr>d_src = i, d_dst = dst, d_data = mypayload\<rparr>]"
    using sends [of "r\<lparr>rum_udp := u1\<rparr>"] by auto
  obtain u3 e3 where 3: "send_payload X dst (r\<lparr>rum_udp := u2\<rparr>) = (r\<lparr>rum_udp := u3\<rparr>, e3)"
    "sent_datagrams X i e3 = [\<lparr>d_src = i, d_dst = dst, d_data = mypayload\<rparr>]"
    using sends [of "r\<lparr>rum_udp := u2\<rparr>"] by auto
  obtain u4 e4 where 4: "send_payload X dst (r\<lparr>rum_udp := u3\<rparr>) = (r\<lparr>rum_udp := u4\<rparr>, e4)"
    "sent_datagrams X i e4 = [\<lparr>d_src = i, d_dst = dst, d_data = mypayload\<rparr>]"
    using sends [of "r\<lparr>rum_udp := u3\<rparr>"] by auto
  have "send_four X dst r = (r\<lparr>rum_udp := u4\<rparr>,
      e1 @ [Usleep 10000] @ e2 @ [Usleep 10000] @ e3 @ [Usleep 10000] @ e4)"
    by (simp add: send_four_def 1(1) 2(1) 3(1) 4(1))
  moreover have "sent_datagrams X i (e1 @ [Usleep 10000] @ e2 @ [Usleep 10000] @ e3 @ [Usleep 10000] @ e4) =
      replicate 4 \<lparr>d_src = i, d_dst = dst, d_data = mypayload\<rparr>"
    by (simp add: 1(2) 2(2) 3(2) 4(2) numeral_eq_Suc)
  ultimately show ?thesis by blast
qed

lemma viz_sends_nothing [simp]: "sent_datagrams X i (default_data_handler src r) = []"
  by (simp add: default_data_handler_def viz_udp_pkt_def)

text \<open>
  A datagram that is not empty is answered exactly if it starts with \<^verbatim>\<open>r\<close>.
\<close>

lemma deliver_ok:
  assumes "net_works X R" "buffers_ok n" "datagram_ok d"
  shows "\<exists>n'. net_deliver X R n d = Inr (n',
      if is_request d then replicate 4 \<lparr>d_src = d_dst d, d_dst = d_src d, d_data = mypayload\<rparr> else []) \<and>
    buffers_ok n' \<and> delivered n' = delivered n @ [d]"
proof -
  define r where "r = nodes n (d_dst d)"
  define b where "b = take UDP_BUFFER_SIZE (d_data d)"
  define r1 where "r1 = r\<lparr>receive_buffer := b @ drop (length b) (receive_buffer r)\<rparr>"
  have l: "length (receive_buffer r) = UDP_BUFFER_SIZE" "length b \<le> UDP_BUFFER_SIZE"
    using assms(2) by (simp_all add: r_def b_def buffers_ok_def)
  have R: "R (d_data d) = b" using assms(1) by (simp add: net_works_def b_def)
  have b0: "b \<noteq> []" "hd b = hd (d_data d)" using assms(3) by (auto simp: b_def datagram_ok_def UDP_BUFFER_SIZE_def)
  then have c: "nth_res (receive_buffer r1) 0 = Inr (hd (d_data d))"
    by (cases b) (simp_all add: r1_def nth_res_def)
  have l1: "length (receive_buffer r1) = UDP_BUFFER_SIZE" using l by (simp add: r1_def)
  show ?thesis
  proof (cases "is_request d")
    case True
    then have "d_src d < 256" "hd (d_data d) = of_char (CHR ''r'')"
      using assms(3) by (simp_all add: datagram_ok_def is_request_def)
    moreover have "ucast (ucast (d_src d) :: u8) = d_src d"
      using \<open>d_src d < 256\<close> by (rule low_byte)
    moreover obtain u es where s4: "send_four X (d_src d) r1 = (r1\<lparr>rum_udp := u\<rparr>, es)"
      "sent_datagrams X (d_dst d) es = replicate 4 \<lparr>d_src = d_dst d, d_dst = d_src d, d_data = mypayload\<rparr>"
      using send_four_sends [of X "d_src d" r1 "d_dst d"] assms(1) by (auto simp: net_works_def)
    ultimately show ?thesis
      using True R l l1 c assms(2)
      by (simp add: net_deliver_def rum_server_round_def Let_def r_def [symmetric] r1_def [symmetric] buffers_ok_def)
  next
    case False
    then have "hd (d_data d) \<noteq> of_char (CHR ''r'')" using assms(3) by (simp add: datagram_ok_def is_request_def)
    with False R l l1 c assms(2) show ?thesis
      by (simp add: net_deliver_def rum_server_round_def Let_def r_def [symmetric] r1_def [symmetric] buffers_ok_def)
  qed
qed

subsection \<open>All deliveries\<close>

text \<open>
  A request weighs five, itself and its four answers, and any other datagram one; every datagram
  is worth the deliveries to a node that it leads to.
\<close>

definition request_weight :: "datagram \<Rightarrow> nat" where
  "request_weight d = (if is_request d then 5 else 1)"

definition deliveries :: "rum_net \<Rightarrow> u16 \<Rightarrow> nat" where
  "deliveries n i = length (filter (\<lambda>d. d_dst d = i) (delivered n))"

definition leads_to :: "datagram \<Rightarrow> u16 \<Rightarrow> nat" where
  "leads_to d i = (if d_dst d = i then 1 else 0) + (if is_request d \<and> d_src d = i then 4 else 0)"

lemma payload_no_request [simp]:
  "\<not> is_request \<lparr>d_src = i, d_dst = j, d_data = mypayload\<rparr>"
  "datagram_ok \<lparr>d_src = i, d_dst = j, d_data = mypayload\<rparr>"
  by (simp_all add: is_request_def datagram_ok_def mypayload_def)

interpretation rum_net: accounted "net_deliver X R" "\<lambda>n. net_works X R \<and> buffers_ok n" datagram_ok request_weight
  deliveries leads_to
proof unfold_locales
  fix n :: rum_net and d :: datagram
  assume "net_works X R \<and> buffers_ok n" "datagram_ok d"
  with deliver_ok [of X R n d]
  show "\<exists>n' out. net_deliver X R n d = Inr (n', out) \<and> (net_works X R \<and> buffers_ok n') \<and>
      list_all datagram_ok out \<and> sum_list (map request_weight out) < request_weight d"
    by (auto simp: request_weight_def sum_list_replicate list_all_iff)
next
  fix n n' :: rum_net and d out i
  assume "net_works X R \<and> buffers_ok n" "datagram_ok d" "net_deliver X R n d = Inr (n', out)"
  with deliver_ok [of X R n d]
  show "deliveries n' i + (\<Sum>d'\<leftarrow>out. leads_to d' i) = deliveries n i + leads_to d i"
    by (auto simp: deliveries_def leads_to_def sum_list_replicate)
qed

lemma sum_leads_to:
  "(\<Sum>d\<leftarrow>q. leads_to d i) = length (filter (\<lambda>d. d_dst d = i) q) +
    4 * length (filter (\<lambda>d. is_request d \<and> d_src d = i) q)"
  by (induction q) (simp_all add: leads_to_def)

lemma sum_request_weight: "sum_list (map request_weight q) \<le> 5 * length q"
  by (induction q) (auto simp: request_weight_def)

text \<open>
  C29. The network of routers falls silent: whatever datagrams are in flight, if none is empty,
  at most five deliveries for each of them leave none in flight, and no server reads or writes
  outside its buffer. Every node has then received the datagrams that were sent to it and four
  answers for each of its requests: the answers, which are never written and so all zero, are
  not requests themselves.
\<close>

theorem requests_answered_then_silence:
  assumes "\<forall>bs. recvfrom bs = take UDP_BUFFER_SIZE bs" "\<forall>k. open_result X k \<ge> 0"
    and "\<forall>i. length (receive_buffer (nodes n i)) = UDP_BUFFER_SIZE"
    and "\<forall>d \<in> set q. d_data d \<noteq> [] \<and> (is_request d \<longrightarrow> d_src d < 256)"
  shows "\<exists>n'. drain (5 * length q) (net_deliver X recvfrom) n q = Inr n' \<and>
    (\<forall>i. deliveries n' i = deliveries n i + length (filter (\<lambda>d. d_dst d = i) q) +
      4 * length (filter (\<lambda>d. is_request d \<and> d_src d = i) q))"
proof -
  have inv: "net_works X recvfrom \<and> buffers_ok n" "list_all datagram_ok q"
    using assms by (simp_all add: net_works_def buffers_ok_def list_all_iff datagram_ok_def)
  from rum_net.drains [OF inv sum_request_weight] obtain n'
    where n': "drain (5 * length q) (net_deliver X recvfrom) n q = Inr n'" by blast
  from rum_net.drain_tally [OF inv n'] n' show ?thesis by (auto simp: sum_leads_to)
qed

definition ex_rum_net :: rum_net where
  "ex_rum_net = \<lparr>nodes = (\<lambda>i. rum_start i (replicate 128 0)), delivered = []\<rparr>"

definition ex_udp :: udp_ext where
  "ex_udp = \<lparr>open_result = (\<lambda>_. 3), sendto_result = (\<lambda>_. 150), bind_result = (\<lambda>_. 0), htons = id\<rparr>"

lemma requests_answered_then_silence_witness:
  "\<exists>n'. drain 10 (net_deliver ex_udp (take 128)) ex_rum_net
      [\<lparr>d_src = 31, d_dst = 32, d_data = [of_char (CHR ''r'')]\<rparr>,
       \<lparr>d_src = 32, d_dst = 31, d_data = [7]\<rparr>] = Inr n' \<and>
    deliveries n' 31 = 5 \<and> deliveries n' 32 = 1"
proof -
  have "\<forall>bs :: u8 list. take 128 bs = take UDP_BUFFER_SIZE bs" "\<forall>k. open_result ex_udp k \<ge> 0"
    "\<forall>i. length (receive_buffer (nodes ex_rum_net i)) = UDP_BUFFER_SIZE"
    by (simp_all add: UDP_BUFFER_SIZE_def ex_udp_def ex_rum_net_def rum_start_def)
  from requests_answered_then_silence [OF this, of
      "[\<lparr>d_src = 31, d_dst = 32, d_data = [of_char (CHR ''r'')]\<rparr>,
        \<lparr>d_src = 32, d_dst = 31, d_data = [7]\<rparr>]"]
  obtain n' where n': "drain 10 (net_deliver ex_udp (take 128)) ex_rum_net
      [\<lparr>d_src = 31, d_dst = 32, d_data = [of_char (CHR ''r'')]\<rparr>,
       \<lparr>d_src = 32, d_dst = 31, d_data = [7]\<rparr>] = Inr n'"
    and c: "deliveries n' i = (if i = 31 then 5 else if i = 32 then 1 else 0)" for i
    by (auto simp: is_request_def deliveries_def ex_rum_net_def)
  from n' c [of 31] c [of 32] show ?thesis by auto
qed

text \<open>
  An empty datagram is answered like the last one that was not: the buffer still starts with its
  first byte.
\<close>

lemma empty_datagram_answered:
  assumes "receive_buffer r = of_char (CHR ''r'') # bs"
  shows "\<exists>r' es. rum_server_round X (Received [] src) r = Inr (r', es) \<and>
    (r', es) = (case send_four X (ucast src) r of (r', fs) \<Rightarrow> (r', default_data_handler (ucast src) r @ fs))"
proof -
  have u: "r\<lparr>receive_buffer := 114 # bs\<rparr> = r" using assms by simp
  show ?thesis using assms by (simp add: rum_server_round_def nth_res_def Let_def u split: prod.splits)
qed

section \<open>The chain of nodes\<close>

fun neighbours :: "rum_eff list \<Rightarrow> u16 list" where
  "neighbours [] = []"
| "neighbours (Neighbor a l # es) = last a # neighbours es"
| "neighbours (_ # es) = neighbours es"

text \<open>
  A node that is initialised lists the addresses before and behind its own, so two nodes list
  each other or neither does: the nodes form a chain.
\<close>

lemma init_neighbours:
  assumes "cmd = ''n'' \<or> cmd = ''r''" "rum_id r \<noteq> 0" "rum_id r \<le> 255"
  shows "neighbours (snd (rpl_udp_init X [c, cmd] r)) = [rum_id r - 1, rum_id r + 1]"
proof -
  have "\<not> rum_id r > 255" using assms(3) by simp
  with assms(1,2) show ?thesis
    by (auto simp: rpl_udp_init_def fill_nc_def udpif_get_ipv6_address_def Let_def)
qed

lemma neighbours_chain:
  assumes "cmd = ''n'' \<or> cmd = ''r''" "rum_id r \<noteq> 0" "rum_id r \<le> 255" "rum_id t \<noteq> 0" "rum_id t \<le> 255"
  shows "rum_id t \<in> set (neighbours (snd (rpl_udp_init X [c, cmd] r))) \<longleftrightarrow>
    rum_id r \<in> set (neighbours (snd (rpl_udp_init Y [c', cmd] t)))"
  using assms by (auto simp: init_neighbours)

text \<open>Any other address, and any other command, changes nothing.\<close>

lemma init_refused:
  assumes "rum_id r = 0 \<or> rum_id r > 255 \<or> length argv \<noteq> 2 \<or> argv ! 1 = []"
  shows "rpl_udp_init X argv r = (r, [])"
  using assms by (auto simp: rpl_udp_init_def Let_def)

section \<open>The monitor and the commands\<close>

text \<open>
  The monitor shows a UDP packet as forwarded by the node whose radio packet it saw last,
  whichever other messages came in between.
\<close>

lemma monitor_shows_last_sender:
  assumes "list_all (\<lambda>m. case m of Pkt_pending _ \<Rightarrow> False | Ipv6_packet_received h _ _ \<Rightarrow> h \<noteq> IPV6_PROTO_NUM_ICMPV6 | _ \<Rightarrow> True) ms"
  shows "\<exists>r'. run_res (\<lambda>r m. and_then (rpl_udp_monitor e m r) (\<lambda>(r, _). Inr r)) r (Pkt_pending src # ms) = Inr r' \<and>
    rpl_udp_monitor e (Ipv6_packet_received IPV6_PROTO_NUM_UDP 1 bs) r' =
      Inr (r', [Fw (uint (ucast src :: u8)) 3 (uint (rum_id r))])"
proof -
  have "run_res (\<lambda>r m. and_then (rpl_udp_monitor e m r) (\<lambda>(r, _). Inr r)) t ms = Inr t" for t
    using assms by (induction ms) (auto simp: rpl_udp_monitor_def split: monitor_msg.splits)
  then show ?thesis
    by (simp add: rpl_udp_monitor_def viz_udp_pkt_def evt_code_def IPV6_PROTO_NUM_UDP_def IPV6_PROTO_NUM_ICMPV6_def)
qed

text \<open>An ICMPv6 packet of at most 1280 bytes is read behind its end.\<close>

lemma monitor_reads_past_icmpv6:
  assumes "length bytes \<le> 1280"
  shows "rpl_udp_monitor e (Ipv6_packet_received IPV6_PROTO_NUM_ICMPV6 d bytes) r = Inl OutOfBounds"
  using assms by (simp add: rpl_udp_monitor_def icmpv6_offset_def LL_HDR_LEN_def IPV6_HDR_LEN_def nth_res_def Let_def)

text \<open>
  The first use of the ignore command reads through the null pointer, before it sends anything.
\<close>

lemma first_ignore_reads_null:
  assumes "transceiver_pid \<ge> 0" "length argv = 2"
  shows "rpl_udp_ignore_cmd transceiver_pid argv (rum_start a stack) = Inl NullPointer"
  using assms by (simp add: rpl_udp_ignore_cmd_def rum_start_def)

text \<open>
  The tables: one entry per used slot, in order, and the commands of a node that is not the root
  and has no parent read through the null pointer.
\<close>

lemma table_lists_used:
  "[i. Entry i l \<leftarrow> rpl_udp_table equal_id rtable] = [i \<leftarrow> [0..<length rtable]. rt_used (rtable ! i)]"
proof -
  have "[i. Entry i l \<leftarrow> concat (map (\<lambda>(i, e). if rt_used e then
       [Addr (rt_address e), Entry i (rt_lifetime e)] @
       (if \<not> equal_id (rt_address e) (rt_next_hop e) then [Multi_Hop] else []) else []) (enumerate k rtable))] =
    [i \<leftarrow> [k..<k + length rtable]. rt_used (rtable ! (i - k))]" for k
  proof (induction rtable arbitrary: k)
    case (Cons e es)
    have u: "[k..<k + length (e # es)] = k # [Suc k..<Suc k + length es]" by (simp add: upt_rec)
    have "[i \<leftarrow> [Suc k..<Suc k + length es]. rt_used ((e # es) ! (i - k))] =
      [i \<leftarrow> [Suc k..<Suc k + length es]. rt_used (es ! (i - Suc k))]"
      by (rule filter_cong) (auto simp: nth_Cons' Suc_diff_Suc)
    with Cons.IH [of "Suc k"] show ?case unfolding u by simp
  qed simp
  from this [of 0] show ?thesis by (simp add: rpl_udp_table_def)
qed

lemma dodag_without_parent:
  assumes "\<not> is_root r" "my_preferred_parent d = None"
  shows "rpl_udp_dodag (Some d) r = Inl NullPointer" "rpl_udp_loop equal_id (Some d) rtable r = Inl NullPointer"
  using assms by (simp_all add: rpl_udp_dodag_def rpl_udp_loop_def)

end
