(* ===== verification/Coap_Server.thy ===== *)
theory Coap_Server
  imports Decimal
begin

text \<open>
  The CoAP server of \<^verbatim>\<open>src/libcoap_server\<close> (\<^verbatim>\<open>server.c\<close>): a clock that can be read, set and
  deleted, and a resource whose answers are sent later. The library libcoap is not under
  \<^verbatim>\<open>src/\<close>: what its calls give is the record \<open>srv_ext\<close>, by the number of the call. Response codes
  are written as in the argument of \<^verbatim>\<open>COAP_RESPONSE_CODE\<close>.
\<close>

section \<open>State, requests and responses\<close>

record async_state =
  as_id :: u32
  as_peer :: nat
  as_token :: "u8 list"
  as_created :: u32
  as_appdata :: u32

record coap_server =
  quit :: bool
  my_clock_base :: u32
  dirty :: bool
  async :: "async_state option"
  n_calls :: nat

text \<open>
  \<open>register_async\<close> gives the identifier and the time of creation of the new state, or nothing;
  \<open>clock_offset\<close> and \<open>ticks_per_second\<close> are a variable and a constant of the library.
  \<open>check_notify\<close> is the mark of a changed resource after its subscribers have been notified.
\<close>

record srv_ext =
  coap_ticks :: "nat \<Rightarrow> u32"
  ticks_per_second :: u32
  clock_offset :: u32
  observe_counter :: "nat \<Rightarrow> u32"
  add_observer_ok :: "nat \<Rightarrow> bool"
  register_async :: "nat \<Rightarrow> (u32 \<times> u32) option"
  pdu_init_ok :: "nat \<Rightarrow> bool"
  new_message_id :: "nat \<Rightarrow> u16"
  check_notify :: "nat \<Rightarrow> bool \<Rightarrow> bool"
  new_context_ok :: bool

text \<open>
  A request: its sender, identifier, token and whether it is unconfirmed, whether it subscribes, its query and its payload,
  which is empty if there is none. \<open>q_room\<close> is what is left of the response's buffer.
\<close>

record srv_request =
  q_peer :: nat
  q_id :: u16
  q_token :: "u8 list"
  q_non :: bool
  q_observe :: bool
  q_query :: "u8 list option"
  q_payload :: "u8 list"

text \<open>What a handler does to the response: its code, options, and data with its length.\<close>

datatype response_call =
  Set_Code nat | Opt_Content_Format nat | Opt_Max_Age nat | Opt_Observe_Empty | Opt_Observe u32
  | Add_Data string nat

datatype srv_eff =
  Respond "response_call list" | Subscribed nat "u8 list" bool | Registered nat "u8 list"
  | Separate u16 nat "u8 list" string | Check_Notify
  | Add_Resource string "string list" "(string \<times> string) list" bool

definition COAP_MEDIATYPE_TEXT_PLAIN :: nat where "COAP_MEDIATYPE_TEXT_PLAIN = 0"

definition next_call :: "coap_server \<Rightarrow> coap_server" where
  "next_call s = s\<lparr>n_calls := n_calls s + 1\<rparr>"

section \<open>The clock\<close>

text \<open>\<^verbatim>\<open>gmtime\<close> and \<^verbatim>\<open>strftime\<close> for the format \<^verbatim>\<open>%b %d %H:%M:%S\<close>: the day in years that start in March.\<close>

definition month_names :: "string list" where
  "month_names = [''Jan'', ''Feb'', ''Mar'', ''Apr'', ''May'', ''Jun'', ''Jul'', ''Aug'', ''Sep'', ''Oct'', ''Nov'', ''Dec'']"

definition month_day :: "int \<Rightarrow> nat \<times> int" where
  "month_day days =
     (let z = days + 719468;
          doe = z mod 146097;
          yoe = (doe - doe div 1460 + doe div 36524 - doe div 146096) div 365;
          doy = doe - (365 * yoe + yoe div 4 - yoe div 100);
          mp = (5 * doy + 2) div 153
      in (nat (if mp < 10 then mp + 2 else mp - 10), doy - (153 * mp + 2) div 5 + 1))"

definition strftime_bdHMS :: "u32 \<Rightarrow> string" where
  "strftime_bdHMS now =
     (let t = sint now; (m, d) = month_day (t div 86400); s = t mod 86400
      in month_names ! m @ '' '' @ fmt_0i 2 d @ '' '' @ fmt_0i 2 (s div 3600) @ '':'' @
         fmt_0i 2 (s mod 3600 div 60) @ '':'' @ fmt_0i 2 (s mod 60))"

text \<open>
  Texts are printed into as many bytes as the buffer or the response has. \<^verbatim>\<open>snprintf\<close> cuts off and
  returns the length of the whole text, \<^verbatim>\<open>strftime\<close> returns 0 for a text that does not fit.
\<close>

definition print_ticks :: "nat \<Rightarrow> u32 \<Rightarrow> response_call" where
  "print_ticks room now =
     (let text = dec (unat now) in Add_Data (take (min 40 room - 1) text) (length text))"

definition print_time_of_day :: "nat \<Rightarrow> u32 \<Rightarrow> response_call" where
  "print_time_of_day room now =
     (let text = strftime_bdHMS now
      in if length text + 1 \<le> min 40 room then Add_Data text (length text) else Add_Data [] 0)"

definition asks_for_ticks :: "u8 list option \<Rightarrow> bool" where
  "asks_for_ticks query =
     (case query of None \<Rightarrow> False
      | Some q \<Rightarrow> take (min 5 (length q)) q = take (min 5 (length q)) (map of_char ''ticks''))"

definition hnd_get_index :: "srv_ext \<Rightarrow> coap_server \<Rightarrow> srv_eff list" where
  "hnd_get_index X s =
     (let INDEX = ''This is a test server made with libcoap (see http://libcoap.sf.net)'' @ [CHR 0x0A] @
                  ''Copyright (C) 2010--2013 Olaf Bergmann <bergmann@tzi.org>'' @ [CHR 0x0A, CHR 0x0A]
      in [Respond [Set_Code 205, Opt_Content_Format COAP_MEDIATYPE_TEXT_PLAIN, Opt_Max_Age 0x2ffff,
                   Add_Data INDEX (length INDEX)]])"

text \<open>
  A subscription's notification has no request. \<open>room\<close> is what the response has left when the
  text is printed.
\<close>

definition hnd_get_time :: "srv_ext \<Rightarrow> srv_request option \<Rightarrow> nat \<Rightarrow> coap_server \<Rightarrow> coap_server \<times> srv_eff list" where
  "hnd_get_time X request room s =
     (let code = Set_Code (if my_clock_base s \<noteq> 0 then 205 else 404);
          subscribes = (case request of None \<Rightarrow> False | Some q \<Rightarrow> q_observe q);
          added = subscribes \<and> add_observer_ok X (n_calls s);
          observer = (case request of None \<Rightarrow> [] | Some q \<Rightarrow>
            if added then [Subscribed (q_peer q) (q_token q) (q_non q)] else []);
          subscribed = (if added then [Opt_Observe_Empty] else []);
          s = (if subscribes then next_call s else s);
          changed = (if dirty s then [Opt_Observe (observe_counter X (n_calls s))] else []);
          format = (if my_clock_base s \<noteq> 0 then [Opt_Content_Format COAP_MEDIATYPE_TEXT_PLAIN] else []);
          age = [Opt_Max_Age 0x01]
      in if my_clock_base s \<noteq> 0 then
           (let t = coap_ticks X (n_calls s);
                s = next_call s;
                now = my_clock_base s + t div ticks_per_second X;
                text = (if asks_for_ticks (case request of None \<Rightarrow> None | Some q \<Rightarrow> q_query q)
                        then print_ticks room now else print_time_of_day room now)
            in (s, observer @ [Respond ([code] @ subscribed @ changed @ format @ age @ [text])]))
         else (s, observer @ [Respond ([code] @ subscribed @ changed @ format @ age)]))"

definition hnd_put_time :: "srv_ext \<Rightarrow> srv_request \<Rightarrow> coap_server \<Rightarrow> coap_server \<times> srv_eff list" where
  "hnd_put_time X request s =
     (let code = Set_Code (if my_clock_base s \<noteq> 0 then 204 else 201);
          s = s\<lparr>dirty := True\<rparr>;
          s = (if q_payload request = [] then s\<lparr>my_clock_base := clock_offset X\<rparr>
               else
                 (let t = coap_ticks X (n_calls s);
                      s = next_call s;
                      base = foldl (\<lambda>b c. b * 10 + ucast c) 0 (q_payload request)
                  in s\<lparr>my_clock_base := base - t div ticks_per_second X\<rparr>))
      in (s, [Respond [code]]))"

definition hnd_delete_time :: "coap_server \<Rightarrow> coap_server \<times> srv_eff list" where
  "hnd_delete_time s = (s\<lparr>my_clock_base := 0\<rparr>, [Respond []])"

section \<open>Answers that are sent later\<close>

definition hnd_get_async :: "srv_ext \<Rightarrow> srv_request \<Rightarrow> coap_server \<Rightarrow> coap_server \<times> srv_eff list" where
  "hnd_get_async X request s =
     (case async s of
        Some a \<Rightarrow> (s, [Respond (if as_id a \<noteq> ucast (q_id request) then [Set_Code 503] else [])])
      | None \<Rightarrow>
          (let delay = (case q_query request of None \<Rightarrow> 5
                        | Some q \<Rightarrow> foldl (\<lambda>d p. d * 10 + (ucast p - of_nat (of_char CHR ''0''))) 0 q);
               r = register_async X (n_calls s);
               s = next_call s
           in case r of
                None \<Rightarrow> (s, [Respond []])
              | Some (i, created) \<Rightarrow>
                  (s\<lparr>async := Some \<lparr>as_id = i, as_peer = q_peer request, as_token = q_token request,
                                   as_created = created, as_appdata = ticks_per_second X * delay\<rparr>\<rparr>,
                   [Registered (q_peer request) (q_token request), Respond []])))"

definition check_async :: "srv_ext \<Rightarrow> u32 \<Rightarrow> coap_server \<Rightarrow> coap_server \<times> srv_eff list" where
  "check_async X now s =
     (case async s of
        None \<Rightarrow> (s, [])
      | Some a \<Rightarrow>
          if now < as_created a + as_appdata a then (s, [])
          else if \<not> pdu_init_ok X (n_calls s) then
            (next_call s\<lparr>async := Some (a\<lparr>as_appdata := as_appdata a + 15 * ticks_per_second X\<rparr>)\<rparr>, [])
          else (next_call s\<lparr>async := None\<rparr>,
                [Separate (new_message_id X (n_calls s)) (as_peer a) (as_token a) ''done'']))"

section \<open>The server\<close>

text \<open>Each resource has the methods with handlers, its attributes, and a mark if it can be observed.\<close>

definition quoted :: "string \<Rightarrow> string" where
  "quoted t = [CHR 0x22] @ t @ [CHR 0x22]"

definition init_resources :: "srv_ext \<Rightarrow> coap_server \<Rightarrow> coap_server \<times> srv_eff list" where
  "init_resources X s =
     (let index = Add_Resource [] [''GET''] [(''ct'', ''0''), (''title'', quoted ''General Info'')] False;
          s = s\<lparr>my_clock_base := clock_offset X\<rparr>;
          clock = Add_Resource ''time'' [''GET'', ''PUT'', ''DELETE'']
            [(''ct'', ''0''), (''title'', quoted ''Internal Clock''), (''rt'', quoted ''Ticks''),
             (''if'', quoted ''clock'')] True;
          later = Add_Resource ''async'' [''GET''] [(''ct'', ''0'')] False
      in (s, [index, clock, later]))"

definition handle_sigint :: "coap_server \<Rightarrow> coap_server" where
  "handle_sigint s = s\<lparr>quit := True\<rparr>"

text \<open>
  The requests by resource and method, for which the handlers are registered.
\<close>

datatype srv_event =
  Get_Index | Get_Time "srv_request option" nat | Put_Time srv_request | Delete_Time
  | Get_Async srv_request

definition srv_dispatch :: "srv_ext \<Rightarrow> coap_server \<Rightarrow> srv_event \<Rightarrow> coap_server \<times> srv_eff list" where
  "srv_dispatch X s e =
     (case e of
        Get_Index \<Rightarrow> (s, hnd_get_index X s)
      | Get_Time q room \<Rightarrow> hnd_get_time X q room s
      | Put_Time q \<Rightarrow> hnd_put_time X q s
      | Delete_Time \<Rightarrow> hnd_delete_time s
      | Get_Async q \<Rightarrow> hnd_get_async X q s)"

fun srv_requests :: "srv_ext \<Rightarrow> coap_server \<Rightarrow> srv_event list \<Rightarrow> coap_server \<times> srv_eff list" where
  "srv_requests X s [] = (s, [])"
| "srv_requests X s (e # es) =
     (case srv_dispatch X s e of (s, fs) \<Rightarrow> case srv_requests X s es of (s, gs) \<Rightarrow> (s, fs @ gs))"

text \<open>One round of the loop: the time, the requests read, the answers that are due, the notifications.\<close>

definition srv_round :: "srv_ext \<Rightarrow> srv_event list \<Rightarrow> coap_server \<Rightarrow> coap_server \<times> srv_eff list" where
  "srv_round X reqs s =
     (let now = coap_ticks X (n_calls s);
          s = next_call s;
          (s, es) = srv_requests X s reqs;
          (s, fs) = check_async X now s
      in (next_call s\<lparr>dirty := check_notify X (n_calls s) (dirty s)\<rparr>, es @ fs @ [Check_Notify]))"

fun srv_loop :: "srv_ext \<Rightarrow> coap_server \<Rightarrow> srv_event list list \<Rightarrow> coap_server \<times> srv_eff list" where
  "srv_loop X s [] = (s, [])"
| "srv_loop X s (reqs # rounds) =
     (if quit s then (s, [])
      else case srv_round X reqs s of (s, es) \<Rightarrow> case srv_loop X s rounds of (s, fs) \<Rightarrow> (s, es @ fs))"

definition srv_start :: coap_server where
  "srv_start = \<lparr>quit = False, my_clock_base = 0, dirty = False, async = None, n_calls = 0\<rparr>"

text \<open>The command returns -1 without a context, and 0 once it is told to quit.\<close>

definition server_cmd :: "srv_ext \<Rightarrow> coap_server \<Rightarrow> srv_event list list \<Rightarrow> int option \<times> coap_server \<times> srv_eff list" where
  "server_cmd X s rounds =
     (if \<not> new_context_ok X then (Some (-1), s, [])
      else case init_resources X s of (s, es) \<Rightarrow> case srv_loop X s rounds of (s, fs) \<Rightarrow>
             (if quit s then Some 0 else None, s, es @ fs))"

end
