(* ===== verification/Output_Runs.thy ===== *)
theory Output_Runs
  imports Complex_Main Prelude
begin

text \<open>
  Runs of steps that produce outputs, and the contract of a step that works on a queue: what is
  put into it comes out in the order it went in.
\<close>

fun run_out :: "('s \<Rightarrow> 'e \<Rightarrow> 's \<times> 'f list) \<Rightarrow> 's \<Rightarrow> 'e list \<Rightarrow> 's \<times> 'f list" where
  "run_out step s [] = (s, [])"
| "run_out step s (e # es) =
     (case step s e of (s, fs) \<Rightarrow> case run_out step s es of (s, gs) \<Rightarrow> (s, fs @ gs))"

text \<open>
  \<open>content\<close> is what is in the queue, \<open>put\<close> and \<open>get\<close> what an output says was put in or taken out.
\<close>

locale fifo =
  fixes step :: "'s \<Rightarrow> 'e \<Rightarrow> 's \<times> 'f list"
    and content :: "'s \<Rightarrow> 'a list"
    and put :: "'f \<Rightarrow> 'a list" and get :: "'f \<Rightarrow> 'a list"
  assumes step_fifo: "step s e = (s', fs) \<Longrightarrow>
    content s @ concat (map put fs) = concat (map get fs) @ content s'"
begin

lemma run_fifo:
  "run_out step s es = (s', fs) \<Longrightarrow> content s @ concat (map put fs) = concat (map get fs) @ content s'"
proof (induction es arbitrary: s s' fs)
  case Nil
  then show ?case by simp
next
  case (Cons e es)
  obtain t fs1 where 1: "step s e = (t, fs1)" by (cases "step s e")
  obtain t' fs2 where 2: "run_out step t es = (t', fs2)" by (cases "run_out step t es")
  from Cons.prems 1 2 have "t' = s'" "fs = fs1 @ fs2" by simp_all
  then have "content s @ concat (map put fs) = (content s @ concat (map put fs1)) @ concat (map put fs2)"
    by simp
  also have "\<dots> = concat (map get fs1) @ content t @ concat (map put fs2)"
    using step_fifo [OF 1] by simp
  also have "\<dots> = concat (map get fs) @ content s'"
    using Cons.IH [OF 2] \<open>t' = s'\<close> \<open>fs = fs1 @ fs2\<close> by simp
  finally show ?case .
qed

end

end
