(* ===== verification/Coap_Server_Props.thy ===== *)
theory Coap_Server_Props
  imports Coap_Server Output_Runs
begin

text \<open>
  The properties of the CoAP server: its delayed answers leave in the order their requests were
  accepted, one at a time, when they are due; and the clock reads back differently from what it
  was set to.
\<close>

section \<open>The queue of delayed answers\<close>

text \<open>The requests accepted and answered, as the effects show them, and those pending in a state.\<close>

definition accepted :: "srv_eff \<Rightarrow> (nat \<times> u8 list) list" where
  "accepted e = (case e of Registered p t \<Rightarrow> [(p, t)] | _ \<Rightarrow> [])"

definition answered :: "srv_eff \<Rightarrow> (nat \<times> u8 list) list" where
  "answered e = (case e of Separate _ p t _ \<Rightarrow> [(p, t)] | _ \<Rightarrow> [])"

definition pending :: "coap_server \<Rightarrow> (nat \<times> u8 list) list" where
  "pending s = (case async s of None \<Rightarrow> [] | Some a \<Rightarrow> [(as_peer a, as_token a)])"

lemmas effect_simps = accepted_def answered_def pending_def

lemma srv_requests_run: "srv_requests X s es = run_out (srv_dispatch X) s es"
  by (induction es arbitrary: s) (simp_all split: prod.splits)

definition round_step :: "srv_ext \<Rightarrow> coap_server \<Rightarrow> srv_event list \<Rightarrow> coap_server \<times> srv_eff list" where
  "round_step X s reqs = (if quit s then (s, []) else srv_round X reqs s)"

lemma run_out_quit: "quit s \<Longrightarrow> run_out (round_step X) s rounds = (s, [])"
  by (induction rounds) (simp_all add: round_step_def)

lemma srv_loop_run: "srv_loop X s rounds = run_out (round_step X) s rounds"
  by (induction rounds arbitrary: s) (simp_all add: round_step_def run_out_quit split: prod.splits)

lemma async_next_call [simp]: "async (next_call s) = async s" "quit (next_call s) = quit s"
  by (simp_all add: next_call_def)

lemma async_get_time:
  "hnd_get_time X q room s = (s', es) \<Longrightarrow>
   async s' = async s \<and> (\<exists>r. es = [Respond r] \<or> (\<exists>p t b. es = [Subscribed p t b, Respond r]))"
  by (auto simp: hnd_get_time_def Let_def split: if_splits option.splits)

interpretation dispatch_queue: fifo "srv_dispatch X" pending accepted answered
proof
  fix s s' :: coap_server and e fs
  assume "srv_dispatch X s e = (s', fs)"
  then show "pending s @ concat (map accepted fs) = concat (map answered fs) @ pending s'"
    by (cases e) (auto simp: srv_dispatch_def hnd_get_index_def hnd_put_time_def hnd_delete_time_def
        hnd_get_async_def Let_def effect_simps dest!: async_get_time split: option.splits if_splits)
qed

interpretation check_queue: fifo "\<lambda>s now. check_async X now s" pending accepted answered
  by unfold_locales (auto simp: check_async_def effect_simps split: option.splits if_splits)

interpretation round_queue: fifo "round_step X" pending accepted answered
proof
  fix s s' :: coap_server and reqs fs
  assume r: "round_step X s reqs = (s', fs)"
  show "pending s @ concat (map accepted fs) = concat (map answered fs) @ pending s'"
  proof (cases "quit s")
    case True
    with r show ?thesis by (simp add: round_step_def)
  next
    case False
    define now where "now = coap_ticks X (n_calls s)"
    obtain s1 es where 1: "run_out (srv_dispatch X) (next_call s) reqs = (s1, es)"
      by (cases "run_out (srv_dispatch X) (next_call s) reqs")
    obtain s2 gs where 2: "check_async X now s1 = (s2, gs)" by (cases "check_async X now s1")
    from r False 1 2 have "pending s' = pending s2" "fs = es @ gs @ [Check_Notify]"
      by (auto simp: round_step_def srv_round_def srv_requests_run now_def pending_def Let_def)
    moreover have "pending (next_call s) = pending s" by (simp add: pending_def)
    ultimately have "pending s @ concat (map accepted fs) =
        (pending (next_call s) @ concat (map accepted es)) @ concat (map accepted gs)"
      by (simp add: accepted_def)
    also have "\<dots> = concat (map answered es) @ pending s1 @ concat (map accepted gs)"
      using dispatch_queue.run_fifo [OF 1] by simp
    also have "\<dots> = concat (map answered fs) @ pending s'"
      using check_queue.step_fifo [OF 2] \<open>pending s' = pending s2\<close> \<open>fs = es @ gs @ [Check_Notify]\<close>
      by (simp add: answered_def)
    finally show ?thesis .
  qed
qed

text \<open>
  C35. Delayed answers: along every run of the server, for any requests in any rounds, the
  requests that were accepted for a later answer are the ones answered so far, in the same
  order, followed by the one that is still pending, if there is one. So each is answered once,
  with its own token, none is lost, and at most one is pending.
\<close>

theorem delayed_answers_in_order:
  assumes "server_cmd X srv_start rounds = (r, s', fs)"
  shows "concat (map accepted fs) = concat (map answered fs) @ pending s' \<and> length (pending s') \<le> 1"
proof -
  have start: "pending srv_start = []" by (simp add: pending_def srv_start_def)
  have "concat (map accepted fs) = concat (map answered fs) @ pending s'"
  proof (cases "new_context_ok X")
    case True
    obtain s1 es where 1: "init_resources X srv_start = (s1, es)" by (cases "init_resources X srv_start")
    obtain s2 gs where 2: "run_out (round_step X) s1 rounds = (s2, gs)"
      by (cases "run_out (round_step X) s1 rounds")
    from 1 start have "pending s1 = []" "concat (map accepted es) = concat (map answered es)"
      by (auto simp: init_resources_def effect_simps Let_def)
    with round_queue.run_fifo [OF 2] assms 1 2 True show ?thesis
      by (auto simp: server_cmd_def srv_loop_run)
  qed (use assms start in \<open>auto simp: server_cmd_def\<close>)
  moreover have "length (pending s') \<le> 1" by (simp add: pending_def split: option.splits)
  ultimately show ?thesis by blast
qed

definition ex_srv :: srv_ext where
  "ex_srv = \<lparr>coap_ticks = of_nat, ticks_per_second = 1, clock_offset = 1000, observe_counter = of_nat,
     add_observer_ok = (\<lambda>_. True), register_async = (\<lambda>n. Some (7, of_nat n)), pdu_init_ok = (\<lambda>_. True),
     new_message_id = of_nat, check_notify = (\<lambda>_ _. False), new_context_ok = True\<rparr>"

definition ex_request :: "nat \<Rightarrow> u8 list \<Rightarrow> u8 list option \<Rightarrow> u8 list \<Rightarrow> srv_request" where
  "ex_request peer token query payload =
     \<lparr>q_peer = peer, q_id = 3, q_token = token, q_non = False, q_observe = False, q_query = query, q_payload = payload\<rparr>"

lemmas srv_eval_simps = server_cmd_def init_resources_def srv_start_def srv_round_def srv_dispatch_def
  hnd_get_async_def check_async_def next_call_def ex_srv_def ex_request_def effect_simps

text \<open>
  A second request while the first is pending is refused, and the first is answered when its
  delay of 2 is over.
\<close>

lemma delayed_answers_in_order_witness:
  "\<exists>r s' fs. server_cmd ex_srv srv_start
      [[Get_Async (ex_request 1 [9] (Some [50]) [])], [Get_Async (ex_request 2 [8] None [])], []] = (r, s', fs) \<and>
    concat (map accepted fs) = [(1, [9])] \<and> concat (map answered fs) @ pending s' = [(1, [9])]"
proof -
  obtain r s' fs where r: "server_cmd ex_srv srv_start
      [[Get_Async (ex_request 1 [9] (Some [50]) [])], [Get_Async (ex_request 2 [8] None [])], []] = (r, s', fs)"
    by (cases "server_cmd ex_srv srv_start
      [[Get_Async (ex_request 1 [9] (Some [50]) [])], [Get_Async (ex_request 2 [8] None [])], []]")
  then have "concat (map accepted fs) = [(1, [9])]" by (auto simp: srv_eval_simps)
  with delayed_answers_in_order [OF r] r show ?thesis by simp
qed

text \<open>A pending answer leaves in the first round whose time has come, whatever the requests are.\<close>

lemma pending_requests:
  "async s = Some a \<Longrightarrow> srv_requests X s es = (s', fs) \<Longrightarrow> async s' = Some a"
proof (induction es arbitrary: s s' fs)
  case (Cons e es)
  obtain t fs1 where 1: "srv_dispatch X s e = (t, fs1)" by (cases "srv_dispatch X s e")
  obtain t' fs2 where 2: "srv_requests X t es = (t', fs2)" by (cases "srv_requests X t es")
  from 1 Cons.prems(1) have "async t = Some a"
    by (cases e) (auto simp: srv_dispatch_def hnd_put_time_def hnd_delete_time_def hnd_get_async_def Let_def
        dest!: async_get_time split: if_splits)
  from Cons.IH [OF this 2] Cons.prems(2) 1 2 show ?case by simp
qed simp

lemma due_answer_leaves:
  assumes "async s = Some a" "coap_ticks X (n_calls s) \<ge> as_created a + as_appdata a" "\<forall>n. pdu_init_ok X n"
    and "srv_round X reqs s = (s', fs)"
  shows "async s' = None \<and> (\<exists>i. Separate i (as_peer a) (as_token a) ''done'' \<in> set fs)"
proof -
  obtain s1 es where 1: "srv_requests X (next_call s) reqs = (s1, es)"
    by (cases "srv_requests X (next_call s) reqs")
  have "async s1 = Some a" by (rule pending_requests [OF _ 1]) (simp add: assms(1))
  with assms 1 show ?thesis
    by (auto simp: srv_round_def check_async_def next_call_def Let_def not_less [symmetric])
qed

text \<open>
  The only thing that makes the loop end is the signal handler, which is never registered: the
  command never returns.
\<close>

lemma quit_dispatch: "srv_dispatch X s e = (s', es) \<Longrightarrow> quit s' = quit s"
  by (cases e) (auto simp: srv_dispatch_def hnd_get_time_def hnd_put_time_def hnd_delete_time_def
      hnd_get_async_def Let_def split: if_splits option.splits)

lemma quit_requests: "srv_requests X s es = (s', fs) \<Longrightarrow> quit s' = quit s"
  by (induction es arbitrary: s s' fs) (auto dest: quit_dispatch split: prod.splits)

lemma quit_round: "srv_round X reqs s = (s', fs) \<Longrightarrow> quit s' = quit s"
  by (auto simp: srv_round_def check_async_def Let_def dest!: quit_requests split: prod.splits option.splits if_splits)

lemma quit_loop: "srv_loop X s rounds = (s', fs) \<Longrightarrow> quit s' = quit s"
  by (induction rounds arbitrary: s s' fs) (auto dest: quit_round split: prod.splits if_splits)

lemma server_never_returns:
  assumes "new_context_ok X" "server_cmd X srv_start rounds = (r, s', fs)"
  shows "r = None"
  using assms by (auto simp: server_cmd_def init_resources_def srv_start_def Let_def dest!: quit_loop split: prod.splits)

section \<open>Setting the clock\<close>

text \<open>\<open>repunit k\<close> is the number whose decimal digits are \<open>k\<close> ones.\<close>

fun repunit :: "nat \<Rightarrow> nat" where
  "repunit 0 = 0"
| "repunit (Suc k) = 10 * repunit k + 1"

text \<open>The bytes of a decimal text are added up as they are, so every digit counts 48 too much.\<close>

definition put_value :: "u8 list \<Rightarrow> u32" where
  "put_value bytes = foldl (\<lambda>b c. b * 10 + ucast c) 0 bytes"

lemma ucast_digit: "d < 10 \<Longrightarrow> ucast (of_char (digit d) :: u8) = (of_nat (48 + d) :: u32)"
proof -
  have "list_all (\<lambda>d. ucast (of_char (digit d) :: u8) = (of_nat (48 + d) :: u32)) [0..<10]" by code_simp
  then show "d < 10 \<Longrightarrow> ?thesis" by (simp add: list_all_iff)
qed

lemma put_value_dec: "put_value (map of_char (dec n)) = of_nat (n + 48 * repunit (length (dec n)))"
proof (induction n rule: dec.induct)
  case (1 n)
  show ?case
  proof (cases "n < 10")
    case True
    then show ?thesis by (subst (1 2) dec.simps) (simp add: put_value_def ucast_digit)
  next
    case False
    have d: "dec n = dec (n div 10) @ [digit (n mod 10)]" using False by (subst dec.simps) simp
    have "put_value (map of_char (dec n)) = put_value (map of_char (dec (n div 10))) * 10 + of_nat (48 + n mod 10)"
      by (simp add: d put_value_def ucast_digit)
    also have "\<dots> = of_nat ((n div 10 + 48 * repunit (length (dec (n div 10)))) * 10 + (48 + n mod 10))"
      by (simp only: "1.IH" [OF False] of_nat_add of_nat_mult of_nat_numeral)
    also have "(n div 10 + 48 * repunit (length (dec (n div 10)))) * 10 + (48 + n mod 10) =
        n + 48 * repunit (length (dec n))"
      by (simp add: d)
    finally show ?thesis .
  qed
qed

text \<open>
  C36. Setting the clock: after a number of \<open>k\<close> decimal digits has been put, the clock does not
  show that number: asked for its ticks, it gives the number plus 48 for every digit, times the
  digit's power of ten, and the seconds since then, in 32 bits. The answer to the put is
  \<^verbatim>\<open>2.01\<close> exactly if there was no clock, and the clock is readable unless its base is 0, which
  stands for a deleted clock.
\<close>

theorem put_clock_reads_back:
  assumes "q_payload q = map of_char (dec n)" "q_query g = Some (map of_char ''ticks'')" "\<not> q_observe g"
    and "room \<ge> 11"
    and "hnd_put_time X q s = (s1, es)" "hnd_get_time X (Some g) room s1 = (s2, fs)"
  shows "let t1 = coap_ticks X (n_calls s) div ticks_per_second X;
             t2 = coap_ticks X (n_calls s1) div ticks_per_second X;
             v = of_nat (n + 48 * repunit (length (dec n)));
             text = dec (unat (v + (t2 - t1)));
             changed = Opt_Observe (observe_counter X (n_calls s1))
         in es = [Respond [Set_Code (if my_clock_base s \<noteq> 0 then 204 else 201)]] \<and>
            fs = (if v = t1 then [Respond [Set_Code 404, changed, Opt_Max_Age 1]]
                  else [Respond [Set_Code 205, changed, Opt_Content_Format 0, Opt_Max_Age 1,
                                 Add_Data text (length text)]])"
proof -
  define t1 where "t1 = coap_ticks X (n_calls s) div ticks_per_second X"
  define v :: u32 where "v = of_nat (n + 48 * repunit (length (dec n)))"
  have v: "put_value (map of_char (dec n)) = v" by (simp add: v_def put_value_dec)
  from assms(1,5) v have s1: "s1 = (next_call s)\<lparr>dirty := True, my_clock_base := v - t1\<rparr>"
    and es: "es = [Respond [Set_Code (if my_clock_base s \<noteq> 0 then 204 else 201)]]"
    by (auto simp: hnd_put_time_def next_call_def t1_def put_value_def Let_def)
  have len: "length (dec (unat w)) \<le> 10" for w :: u32
    using unsigned_less [of w, where ?'a = nat] by (intro length_dec_le) simp_all
  have ticks: "print_ticks room w = Add_Data (dec (unat w)) (length (dec (unat w)))" for w
    using len [of w] assms(4) by (simp add: print_ticks_def Let_def)
  have d: "dirty s1" "my_clock_base s1 = v - t1" by (simp_all add: s1)
  have asks: "asks_for_ticks (q_query g)" by (simp add: asks_for_ticks_def assms(2))
  from assms(3,6) d asks ticks have "fs = (if v = t1 then [Respond [Set_Code 404, Opt_Observe (observe_counter X (n_calls s1)), Opt_Max_Age 1]]
      else (let text = dec (unat (v - t1 + coap_ticks X (n_calls s1) div ticks_per_second X))
        in [Respond [Set_Code 205, Opt_Observe (observe_counter X (n_calls s1)), Opt_Content_Format 0,
              Opt_Max_Age 1, Add_Data text (length text)]]))"
    by (auto simp: hnd_get_time_def COAP_MEDIATYPE_TEXT_PLAIN_def next_call_def Let_def)
  with es show ?thesis
    unfolding t1_def v_def Let_def by (simp add: algebra_simps)
qed

lemma put_clock_reads_back_witness:
  "\<exists>s1 s2 fs. hnd_put_time ex_srv (ex_request 1 [] None (map of_char (dec 25))) srv_start =
      (s1, [Respond [Set_Code 201]]) \<and>
    hnd_get_time ex_srv (Some (ex_request 1 [] (Some (map of_char ''ticks'')) [])) 20 s1 = (s2, fs) \<and>
    fs = [Respond [Set_Code 205, Opt_Observe 1, Opt_Content_Format 0, Opt_Max_Age 1, Add_Data (dec 554) (length (dec 554))]]"
proof -
  obtain s1 es where 1: "hnd_put_time ex_srv (ex_request 1 [] None (map of_char (dec 25))) srv_start = (s1, es)"
    by (cases "hnd_put_time ex_srv (ex_request 1 [] None (map of_char (dec 25))) srv_start")
  obtain s2 fs where 2: "hnd_get_time ex_srv (Some (ex_request 1 [] (Some (map of_char ''ticks'')) [])) 20 s1 = (s2, fs)"
    by (cases "hnd_get_time ex_srv (Some (ex_request 1 [] (Some (map of_char ''ticks'')) [])) 20 s1")
  have n: "n_calls s1 = 1" using 1 by (auto simp: hnd_put_time_def ex_request_def next_call_def srv_start_def Let_def)
  have r: "repunit 2 = 11" by code_simp
  have l: "length (dec 25) = 2" by code_simp
  from put_clock_reads_back [OF _ _ _ _ 1 2, of 25] n 1 2 show ?thesis
    by (simp add: ex_request_def ex_srv_def srv_start_def l r Let_def)
qed

text \<open>A deleted clock is created again by the next put, and not found until then.\<close>

lemma deleted_clock:
  assumes "hnd_delete_time s = (s1, es)"
  shows "snd (hnd_put_time X q s1) = [Respond [Set_Code 201]]"
    and "hnd_get_time X None room s1 = (s1, [Respond ([Set_Code 404] @
      (if dirty s1 then [Opt_Observe (observe_counter X (n_calls s1))] else []) @ [Opt_Max_Age 1])])"
  using assms by (auto simp: hnd_delete_time_def hnd_put_time_def hnd_get_time_def Let_def)

text \<open>Any query that \<^verbatim>\<open>ticks\<close> starts with, even the empty one, asks for the ticks.\<close>

lemma asks_for_ticks_prefix:
  "asks_for_ticks (Some q) \<longleftrightarrow> (let p = take 5 q in p = take (length p) (map of_char ''ticks''))"
  by (cases "length q \<le> 5") (simp_all add: asks_for_ticks_def Let_def)

end
