(* ===== verification/Coap_Client.thy ===== *)
theory Coap_Client
  imports Decimal
begin

text \<open>
  The CoAP client of \<^verbatim>\<open>src/libcoap_client\<close> (\<^verbatim>\<open>client.c\<close>): the options of a request from the
  arguments of the shell command, the handler of responses with its transfer in blocks, and the
  loop with its timeouts. The library libcoap is not under \<^verbatim>\<open>src/\<close>: what its calls give is the
  record \<open>cl_ext\<close>, an argument, by the number of the call where it may vary. Response codes are
  written as in the argument of \<^verbatim>\<open>COAP_RESPONSE_CODE\<close>, option numbers are those of the protocol.
\<close>

unbundle bit_operations_syntax

section \<open>State\<close>

type_synonym copt = "nat \<times> u8 list"

record coap_uri =
  u_host :: string
  u_port :: u16
  u_path :: string
  u_query :: string

record cl_ext =
  cl_ticks :: "nat \<Rightarrow> u32"
  cl_tps :: u32
  alloc_ok :: "nat \<Rightarrow> bool"
  new_pdu_ok :: "nat \<Rightarrow> bool"
  takes_token :: "nat \<Rightarrow> bool"
  send_ok :: "nat \<Rightarrow> bool"
  message_id :: "nat \<Rightarrow> u16"
  coap_insert :: "(copt \<Rightarrow> copt \<Rightarrow> int) \<Rightarrow> copt \<Rightarrow> copt list \<Rightarrow> copt list"
  coap_fls :: "nat \<Rightarrow> int"
  encode_var :: "u32 \<Rightarrow> u8 list"
  split_uri :: "string \<Rightarrow> coap_uri \<Rightarrow> coap_uri"
  split_path :: "string \<Rightarrow> nat \<Rightarrow> u8 list list"
  split_query :: "string \<Rightarrow> nat \<Rightarrow> u8 list list"
  fopen_ok :: bool
  fwrite :: "nat \<Rightarrow> nat \<Rightarrow> nat"
  ntop_ok :: bool
  context_ok :: bool

datatype msg_type = CON | NON | ACK | RST

text \<open>The output file: not opened yet, open, or closed with its pointer still set.\<close>

datatype out_file = Not_Opened | Opened | Closed

record client =
  flag_block :: bool
  token_data :: "u8 list"
  token_length :: nat
  optlist :: "copt list"
  req_uri :: coap_uri
  proxy :: string
  proxy_port :: u16
  ready :: bool
  output_file :: "string option"
  outfile :: out_file
  written :: "u8 list"
  payload :: "u8 list"
  msgtype :: msg_type
  req_method :: u8
  block_num :: u32
  block_szx :: nat
  wait_seconds :: u32
  max_wait :: u32
  obs_seconds :: u32
  obs_wait :: u32
  cl_calls :: nat

datatype pdu_data = No_Data | Data "u8 list" | Block "u8 list" u32 nat

record request =
  rq_type :: msg_type
  rq_code :: nat
  rq_id :: u16
  rq_token :: "u8 list"
  rq_options :: "copt list"
  rq_data :: pdu_data

text \<open>
  A response: its block option is whether it is the option \<^verbatim>\<open>Block1\<close>, the number, the mark for
  more, and the exponent of the size.
\<close>

record response =
  rs_type :: msg_type
  rs_code :: nat
  rs_token :: "u8 list"
  rs_observe :: bool
  rs_block :: "(bool \<times> u32 \<times> bool \<times> nat) option"
  rs_data :: "u8 list option"

datatype cl_eff =
  Transmit bool request | Send_Rst | Print_Error nat "u8 list"

definition COAP_DEFAULT_PORT :: u16 where "COAP_DEFAULT_PORT = 5683"
definition URI_HOST :: nat where "URI_HOST = 3"
definition SUBSCRIPTION :: nat where "SUBSCRIPTION = 6"
definition URI_PORT :: nat where "URI_PORT = 7"
definition URI_PATH :: nat where "URI_PATH = 11"
definition CONTENT_TYPE :: nat where "CONTENT_TYPE = 12"
definition URI_QUERY :: nat where "URI_QUERY = 15"
definition ACCEPT :: nat where "ACCEPT = 17"
definition BLOCK2 :: nat where "BLOCK2 = 23"
definition BLOCK1 :: nat where "BLOCK1 = 27"
definition PROXY_URI :: nat where "PROXY_URI = 35"

lemmas option_numbers = URI_HOST_def SUBSCRIPTION_def URI_PORT_def URI_PATH_def CONTENT_TYPE_def
  URI_QUERY_def ACCEPT_def BLOCK2_def BLOCK1_def PROXY_URI_def

definition cl_tick :: "client \<Rightarrow> client" where
  "cl_tick s = s\<lparr>cl_calls := cl_calls s + 1\<rparr>"

section \<open>Output\<close>

definition is_stdout :: "client \<Rightarrow> bool" where
  "is_stdout s = (case output_file s of None \<Rightarrow> True | Some name \<Rightarrow> name \<noteq> [] \<and> hd name = CHR ''-'')"

text \<open>Bytes are written until all are or the file takes none.\<close>

function write_out :: "cl_ext \<Rightarrow> u8 list \<Rightarrow> client \<Rightarrow> client" where
  "write_out X bytes s =
     (let fw = min (fwrite X (cl_calls s) (length bytes)) (length bytes);
          s = (cl_tick s)\<lparr>written := written s @ take fw bytes\<rparr>
      in if fw \<noteq> 0 \<and> fw < length bytes then write_out X (drop fw bytes) s else s)"
  by pat_completeness auto
termination by (relation "measure (\<lambda>(X, bytes, s). length bytes)") auto

declare write_out.simps [simp del]

definition append_to_output :: "cl_ext \<Rightarrow> u8 list \<Rightarrow> client \<Rightarrow> fault + client" where
  "append_to_output X bytes s =
     (case outfile s of
        Closed \<Rightarrow> Inl OutOfBounds
      | Opened \<Rightarrow> Inr (write_out X bytes s)
      | Not_Opened \<Rightarrow>
          if is_stdout s \<or> fopen_ok X then Inr (write_out X bytes (s\<lparr>outfile := Opened\<rparr>)) else Inr s)"

definition close_output :: "client \<Rightarrow> fault + client" where
  "close_output s =
     (case outfile s of
        Not_Opened \<Rightarrow> Inr s
      | Closed \<Rightarrow> Inl OutOfBounds
      | Opened \<Rightarrow>
          Inr ((if is_stdout s then s\<lparr>written := written s @ [0x0A]\<rparr> else s)\<lparr>outfile := Closed\<rparr>))"

section \<open>The list of options\<close>

definition order_opts :: "copt \<Rightarrow> copt \<Rightarrow> int" where
  "order_opts a b = (if fst a < fst b then -1 else if fst a = fst b then 1 else 0)"

text \<open>A new node is inserted if there is memory for it.\<close>

definition insert_option :: "cl_ext \<Rightarrow> nat \<Rightarrow> u8 list \<Rightarrow> client \<Rightarrow> client" where
  "insert_option X key bytes s =
     (let ok = alloc_ok X (cl_calls s); s = cl_tick s
      in if ok then s\<lparr>optlist := coap_insert X order_opts (key, bytes) (optlist s)\<rparr> else s)"

definition insert_options :: "cl_ext \<Rightarrow> nat \<Rightarrow> u8 list list \<Rightarrow> client \<Rightarrow> client" where
  "insert_options X key values s = foldl (\<lambda>s v. insert_option X key v s) s values"

section \<open>The arguments of the command\<close>

definition content_types :: "(u8 \<times> string) list" where
  "content_types =
     [(0, ''plain''), (0, ''text/plain''), (40, ''link''), (40, ''link-format''), (40, ''application/link-format''),
      (41, ''xml''), (42, ''binary''), (42, ''octet-stream''), (42, ''application/octet-stream''),
      (47, ''exi''), (47, ''application/exi''), (50, ''json''), (50, ''application/json'')]"

text \<open>A type is found by the beginning of its name.\<close>

definition find_type :: "string \<Rightarrow> u8 option" where
  "find_type q = map_option fst (List.find (\<lambda>(_, name). take (length q) name = q) content_types)"

function content_values :: "bool \<Rightarrow> string \<Rightarrow> u8 list \<Rightarrow> fault + u8 list" where
  "content_values only_first q vals =
     (if q = [] then Inr vals
      else
        (let seg = takeWhile (\<lambda>c. c \<noteq> CHR '','') q;
             rest = drop (length seg) q;
             v = (if digit_val (hd q) \<noteq> None then Some (word_of_int (atoi seg)) else find_type seg)
         in if v \<noteq> None \<and> length vals \<ge> 10 then Inl OutOfBounds
            else
              (let vals = vals @ (case v of None \<Rightarrow> [] | Some x \<Rightarrow> [x])
               in if rest = [] \<or> only_first then Inr vals
                  else content_values only_first (tl rest) vals)))"
  by pat_completeness auto
termination
  by (relation "measure (\<lambda>(b, q, vals). length q)") (auto simp: length_tl less_le_trans split: nat_diff_split)

declare content_values.simps [simp del]

definition cmdline_content_type :: "cl_ext \<Rightarrow> string \<Rightarrow> nat \<Rightarrow> client \<Rightarrow> fault + client" where
  "cmdline_content_type X arg key s =
     and_then (content_values (key = CONTENT_TYPE) arg []) (\<lambda>vals.
       Inr (insert_options X key (map (\<lambda>v. encode_var X (ucast v)) vals) s))"

text \<open>The pieces of 270 bytes of an argument.\<close>

function pieces270 :: "u8 list \<Rightarrow> u8 list list" where
  "pieces270 bytes = (if length bytes > 270 then take 270 bytes # pieces270 (drop 270 bytes) else [bytes])"
  by pat_completeness auto
termination by (relation "measure length") auto

declare pieces270.simps [simp del]

definition BUFSIZE :: nat where "BUFSIZE = 40"

definition cmdline_uri :: "cl_ext \<Rightarrow> string \<Rightarrow> client \<Rightarrow> client" where
  "cmdline_uri X arg s =
     (if proxy s \<noteq> [] then insert_options X PROXY_URI (pieces270 (map of_char arg)) s
      else
        (let u = split_uri X arg (req_uri s);
             s = s\<lparr>req_uri := u\<rparr>;
             s = (if u_port u \<noteq> COAP_DEFAULT_PORT
                  then insert_option X URI_PORT (encode_var X (ucast (u_port u))) s else s);
             s = (if u_path u \<noteq> [] then insert_options X URI_PATH (split_path X (u_path u) BUFSIZE) s else s)
         in if u_query u \<noteq> [] then insert_options X URI_QUERY (split_query X (u_query u) BUFSIZE) s else s))"

text \<open>
  Digits are added up in 16 bits, whatever the characters are. Characters from 128 on count as
  unsigned, as plain \<^verbatim>\<open>char\<close> is on ARM, the platform of RIOT's boards; with a signed \<^verbatim>\<open>char\<close> they would be
  256 less. The same holds for \<open>digits32\<close>.
\<close>

definition digits16 :: "string \<Rightarrow> u16" where
  "digits16 cs = foldl (\<lambda>n c. n * 10 + (of_char c - of_char (CHR ''0''))) 0 cs"

function cmdline_blocksize :: "cl_ext \<Rightarrow> string \<Rightarrow> client \<Rightarrow> client" where
  "cmdline_blocksize X arg s =
     (let seg = takeWhile (\<lambda>c. c \<noteq> CHR '','') arg;
          rest = drop (length seg) arg;
          size = digits16 seg
      in if rest \<noteq> [] then cmdline_blocksize X (tl rest) (s\<lparr>block_num := ucast size\<rparr>)
         else
           (let s = (if size \<noteq> 0 then s\<lparr>block_szx := nat ((coap_fls X (unat size div 16) - 1) mod 8)\<rparr> else s)
            in s\<lparr>flag_block := True\<rparr>))"
  by pat_completeness auto
termination
  by (relation "measure (\<lambda>(X, arg, s). length arg)") (auto simp: length_tl less_le_trans split: nat_diff_split)

declare cmdline_blocksize.simps [simp del]

definition METHOD_GET :: u8 where "METHOD_GET = 1"
definition METHOD_DELETE :: u8 where "METHOD_DELETE = 4"

definition set_blocksize :: "cl_ext \<Rightarrow> client \<Rightarrow> client" where
  "set_blocksize X s =
     (if req_method s \<noteq> METHOD_DELETE then
        insert_option X (if req_method s = METHOD_GET then BLOCK2 else BLOCK1)
          (encode_var X (push_bit 4 (block_num s) OR of_nat (block_szx s))) s
      else s)"

text \<open>
  The number of seconds is read from \<^verbatim>\<open>optarg\<close>, a variable of the C library that only
  \<^verbatim>\<open>getopt\<close> sets, which is never called: it is null.
\<close>

definition cmdline_subscribe :: "cl_ext \<Rightarrow> string \<Rightarrow> client \<Rightarrow> fault + client" where
  "cmdline_subscribe X arg s =
     (let optarg = None :: string option
      in and_then (deref optarg) (\<lambda>text.
           Inr (insert_option X SUBSCRIPTION [] (s\<lparr>obs_seconds := word_of_int (atoi text)\<rparr>))))"

text \<open>The first and the last place of a character, as \<^verbatim>\<open>strchr\<close> and \<^verbatim>\<open>strrchr\<close> give them.\<close>

definition strchr :: "char \<Rightarrow> string \<Rightarrow> nat option" where
  "strchr c s = (if c \<in> set s then Some (length (takeWhile (\<lambda>d. d \<noteq> c) s)) else None)"

definition strrchr :: "char \<Rightarrow> string \<Rightarrow> nat option" where
  "strrchr c s = map_option (\<lambda>i. length s - 1 - i) (strchr c (rev s))"

definition cmdline_proxy :: "cl_ext \<Rightarrow> string \<Rightarrow> client \<Rightarrow> int \<times> client" where
  "cmdline_proxy X arg s =
     (let found =
        (case strrchr CHR '':'' arg of
           None \<Rightarrow> Some (arg, s)
         | Some i \<Rightarrow>
             (case strrchr CHR '']'' arg of
                None \<Rightarrow>
                  if Some i = strchr CHR '':'' arg
                  then Some (take i arg, s\<lparr>proxy_port := word_of_int (atoi (drop (i + 1) arg))\<rparr>)
                  else Some (arg, s)
              | Some j \<Rightarrow>
                  (case strchr CHR ''['' arg of
                     None \<Rightarrow> None
                   | Some b \<Rightarrow>
                       Some (if b < j then drop (b + 1) (take j arg) else drop (b + 1) arg,
                             if j + 1 = i then s\<lparr>proxy_port := word_of_int (atoi (drop (i + 1) arg))\<rparr> else s))))
      in case found of None \<Rightarrow> (0, s)
         | Some (host, s) \<Rightarrow>
             if alloc_ok X (cl_calls s) then (1, (cl_tick s)\<lparr>proxy := host\<rparr>) else (0, (cl_tick s)\<lparr>proxy := []\<rparr>))"

definition cmdline_token :: "string \<Rightarrow> client \<Rightarrow> client" where
  "cmdline_token arg s =
     (let n = min 8 (length arg)
      in s\<lparr>token_data := take n (map of_char arg) @ drop n (token_data s), token_length := length arg\<rparr>)"

definition digits32 :: "string \<Rightarrow> u32" where
  "digits32 cs = foldl (\<lambda>n c. n * 10 + (of_char c - of_char (CHR ''0''))) 0 cs"

definition cmdline_option :: "cl_ext \<Rightarrow> string \<Rightarrow> client \<Rightarrow> client" where
  "cmdline_option X arg s =
     (let seg = takeWhile (\<lambda>c. c \<noteq> CHR '','') arg;
          rest = drop (length seg) arg
      in insert_option X (unat (ucast (digits32 seg) :: u16)) (map of_char (tl rest)) s)"

definition to_lower :: "char \<Rightarrow> char" where
  "to_lower c = (let n = of_char c :: nat in if 65 \<le> n \<and> n \<le> 90 then char_of (n + 32) else c)"

definition strcasecmp_eq :: "string \<Rightarrow> string \<Rightarrow> bool" where
  "strcasecmp_eq a b \<longleftrightarrow> map to_lower a = map to_lower b"

definition cmdline_method :: "string \<Rightarrow> u8" where
  "cmdline_method arg =
     1 + of_nat (length (takeWhile (\<lambda>m. \<not> strcasecmp_eq arg m) [''get'', ''post'', ''put'', ''delete'']))"

section \<open>Requests\<close>

definition set_timeout :: "cl_ext \<Rightarrow> u32 \<Rightarrow> client \<Rightarrow> u32 \<times> client" where
  "set_timeout X seconds s = (cl_ticks X (cl_calls s) + seconds * cl_tps X, cl_tick s)"

text \<open>The token is read from its array of eight bytes, as long as its length says.\<close>

definition add_token :: "cl_ext \<Rightarrow> client \<Rightarrow> fault + u8 list" where
  "add_token X s =
     (if takes_token X (token_length s)
      then (if token_length s > length (token_data s) then Inl OutOfBounds
            else Inr (take (token_length s) (token_data s)))
      else Inr [])"

definition coap_new_request :: "cl_ext \<Rightarrow> copt list \<Rightarrow> client \<Rightarrow> fault + request option \<times> client" where
  "coap_new_request X options s =
     (if \<not> new_pdu_ok X (cl_calls s) then Inr (None, cl_tick s)
      else
        (let s = cl_tick s; i = message_id X (cl_calls s); s = cl_tick s
         in and_then (add_token X s) (\<lambda>token.
              Inr (Some \<lparr>rq_type = msgtype s, rq_code = unat (req_method s), rq_id = i, rq_token = token,
                rq_options = options,
                rq_data = (if payload s = [] then No_Data
                           else if \<not> flag_block s then Data (payload s)
                           else Block (payload s) (block_num s) (block_szx s))\<rparr>, s))))"

definition clear_obs :: "cl_ext \<Rightarrow> client \<Rightarrow> fault + client \<times> cl_eff list" where
  "clear_obs X s =
     (let i = message_id X (cl_calls s); s = cl_tick s; ok = new_pdu_ok X (cl_calls s); s = cl_tick s
      in if \<not> ok then Inr (s, [])
         else and_then (add_token X s) (\<lambda>token.
           if \<not> takes_token X (token_length s) then Inr (s, [])
           else Inr (cl_tick s, [Transmit (msgtype s = CON)
             \<lparr>rq_type = msgtype s, rq_code = 731, rq_id = i, rq_token = token, rq_options = [], rq_data = No_Data\<rparr>])))"

section \<open>Responses\<close>

definition check_token :: "response \<Rightarrow> client \<Rightarrow> fault + bool" where
  "check_token received s =
     (if length (rs_token received) \<noteq> token_length s then Inr False
      else if token_length s > length (token_data s) then Inl OutOfBounds
      else Inr (rs_token received = take (token_length s) (token_data s)))"

definition output_data :: "cl_ext \<Rightarrow> response \<Rightarrow> client \<Rightarrow> fault + client" where
  "output_data X received s =
     (case rs_data received of None \<Rightarrow> Inr s | Some bytes \<Rightarrow> append_to_output X bytes s)"

text \<open>The request for the next block has the address of the first one, and the number of the block.\<close>

definition next_block :: "cl_ext \<Rightarrow> response \<Rightarrow> bool \<times> u32 \<times> bool \<times> nat \<Rightarrow> client \<Rightarrow>
    fault + request option \<times> client" where
  "next_block X received b s =
     (case b of (block1, num, _, szx) \<Rightarrow>
        and_then (coap_new_request X [] s) (\<lambda>(pdu, s). case pdu of
          None \<Rightarrow> Inr (None, s)
        | Some p \<Rightarrow>
            Inr (Some (p\<lparr>rq_options :=
              filter (\<lambda>o1. fst o1 \<in> {URI_HOST, URI_PORT, URI_PATH, URI_QUERY}) (optlist s) @
              [(if block1 then BLOCK1 else BLOCK2,
                encode_var X (push_bit 4 (num + 1) OR of_nat szx))]\<rparr>), s)))"

definition message_handler :: "cl_ext \<Rightarrow> bool \<Rightarrow> response \<Rightarrow> client \<Rightarrow> fault + client \<times> cl_eff list" where
  "message_handler X sent received s =
     and_then (check_token received s) (\<lambda>ours.
       if \<not> ours then
         Inr (s, if \<not> sent \<and> (rs_type received = CON \<or> rs_type received = NON) then [Send_Rst] else [])
       else if rs_type received = RST then Inr (s, [])
       else if rs_code received = 205 then
         (let s = (if sent \<and> rs_observe received
                   then (case set_timeout X (obs_seconds s) s of (t, s) \<Rightarrow> s\<lparr>obs_wait := t\<rparr>) else s)
          in and_then (output_data X received s) (\<lambda>s.
               let finish = (\<lambda>s. Inr (s\<lparr>ready := \<not> rs_observe received\<rparr>, []))
               in case rs_block received of
                    None \<Rightarrow> finish s
                  | Some b \<Rightarrow>
                      if \<not> fst (snd (snd b)) then finish s
                      else and_then (next_block X received b s) (\<lambda>(pdu, s). case pdu of
                             None \<Rightarrow> finish s
                           | Some p \<Rightarrow>
                               (let ok = send_ok X (cl_calls s); s = cl_tick s;
                                    s = (if ok then (case set_timeout X (wait_seconds s) s of
                                                       (t, s) \<Rightarrow> s\<lparr>max_wait := t\<rparr>) else s)
                                in Inr (s, [Transmit (rs_type received = CON) p])))))
       else
         Inr (s\<lparr>ready := \<not> rs_observe received\<rparr>,
              if rs_code received div 100 \<ge> 4
              then [Print_Error (rs_code received) (case rs_data received of None \<Rightarrow> [] | Some d \<Rightarrow> d)]
              else []))"

section \<open>The command\<close>

text \<open>
  One round of the loop: the responses that are dispatched in it, each with whether it belongs
  to a message sent, and whether the library has nothing left to send. Retransmissions are the
  library's.
\<close>

record cl_round =
  rd_responses :: "(bool \<times> response) list"
  rd_can_exit :: bool

fun cl_dispatch :: "cl_ext \<Rightarrow> client \<Rightarrow> (bool \<times> response) list \<Rightarrow> fault + client \<times> cl_eff list" where
  "cl_dispatch X s [] = Inr (s, [])"
| "cl_dispatch X s ((sent, r) # rs) =
     and_then (message_handler X sent r s) (\<lambda>(s, es).
     and_then (cl_dispatch X s rs) (\<lambda>(s, fs). Inr (s, es @ fs)))"

text \<open>The loop also says whether it has ended, within the rounds given.\<close>

fun client_loop :: "cl_ext \<Rightarrow> client \<Rightarrow> cl_round list \<Rightarrow> fault + client \<times> cl_eff list \<times> bool" where
  "client_loop X s [] = Inr (s, [], False)"
| "client_loop X s (r # rounds) =
     (if ready s \<and> rd_can_exit r then Inr (s, [], True)
      else
        and_then (cl_dispatch X (cl_tick s) (rd_responses r)) (\<lambda>(s, es).
          let now = cl_ticks X (cl_calls s); s = cl_tick s
          in if max_wait s \<le> now then Inr (s, es, True)
             else
               and_then (if obs_wait s \<noteq> 0 \<and> obs_wait s \<le> now
                         then and_then (clear_obs X s) (\<lambda>(s, fs). Inr (s\<lparr>obs_wait := 0, obs_seconds := 0\<rparr>, fs))
                         else Inr (s, [])) (\<lambda>(s, fs).
               and_then (client_loop X s rounds) (\<lambda>(s, gs, e). Inr (s, es @ fs @ gs, e)))))"

text \<open>The switch over the first argument.\<close>

definition cmd_switch :: "cl_ext \<Rightarrow> string list \<Rightarrow> client \<Rightarrow> fault + int \<times> client" where
  "cmd_switch X argv s =
     and_then (nth_res argv 1) (\<lambda>a1.
       let c = (a1 @ [CHR 0x00]) ! 0;
           arg = nth_res argv 2
       in if c = CHR ''b'' then and_then arg (\<lambda>a. Inr (1, cmdline_blocksize X a s))
          else if c = CHR ''m'' then and_then arg (\<lambda>a. Inr (1, s\<lparr>req_method := cmdline_method a\<rparr>))
          else if c = CHR ''N'' then Inr (1, s\<lparr>msgtype := NON\<rparr>)
          else if c = CHR ''s'' then and_then arg (\<lambda>a. and_then (cmdline_subscribe X a s) (\<lambda>s. Inr (1, s)))
          else if c = CHR ''A'' then and_then arg (\<lambda>a. and_then (cmdline_content_type X a ACCEPT s) (\<lambda>s. Inr (1, s)))
          else if c = CHR ''t'' then and_then arg (\<lambda>a. and_then (cmdline_content_type X a CONTENT_TYPE s) (\<lambda>s. Inr (1, s)))
          else if c = CHR ''O'' then and_then arg (\<lambda>a. Inr (1, cmdline_option X a s))
          else if c = CHR ''P'' then and_then arg (\<lambda>a. Inr (cmdline_proxy X a s))
          else if c = CHR ''T'' then and_then arg (\<lambda>a. Inr (1, cmdline_token a s))
          else if c = CHR ''v'' then and_then arg (\<lambda>_. Inr (1, s))
          else Inr (1, s))"

text \<open>
  \<^verbatim>\<open>memcmp\<close> of the host with the three bytes of the string \<^verbatim>\<open>::\<close> stops at the first difference.
\<close>

definition differs_from_any :: "string \<Rightarrow> bool" where
  "differs_from_any host \<longleftrightarrow> \<not> (length host \<le> 2 \<and> host = take (length host) ''::'')"

text \<open>The request that the command sends, with the options inserted so far.\<close>

definition first_request :: "cl_ext \<Rightarrow> client \<Rightarrow> fault + request option \<times> client" where
  "first_request X s =
     (let s = (if proxy s = [] \<and> ntop_ok X \<or> differs_from_any (u_host (req_uri s))
               then insert_option X URI_HOST (map of_char (u_host (req_uri s))) s else s);
          s = (if flag_block s then set_blocksize X s else s)
      in coap_new_request X (optlist s) s)"

text \<open>The result of the command, which is none as long as its loop has not ended.\<close>

definition client_cmd :: "cl_ext \<Rightarrow> string list \<Rightarrow> cl_round list \<Rightarrow> client \<Rightarrow>
    fault + int option \<times> client \<times> cl_eff list" where
  "client_cmd X argv rounds s =
     and_then (cmd_switch X argv s) (\<lambda>(ok, s).
     if ok = 0 then Inr (Some (-1), s, [])
     else
       and_then (nth_res argv 3) (\<lambda>a3.
       let s = cmdline_uri X a3 s
       in if \<not> context_ok X then Inr (Some (-1), s, [])
          else
            and_then (first_request X s) (\<lambda>(pdu, s). case pdu of
              None \<Rightarrow> Inr (Some (-1), s, [])
            | Some p \<Rightarrow>
                (let s = cl_tick s; (t, s) = set_timeout X (wait_seconds s) s
                 in and_then (client_loop X (s\<lparr>max_wait := t\<rparr>) rounds) (\<lambda>(s, es, ended).
                      if \<not> ended then Inr (None, s, Transmit (rq_type p = CON) p # es)
                      else and_then (close_output s) (\<lambda>s.
                             Inr (Some 0, s, Transmit (rq_type p = CON) p # es)))))))"

definition client_start :: client where
  "client_start = \<lparr>flag_block = False, token_data = replicate 8 0, token_length = 0, optlist = [],
     req_uri = \<lparr>u_host = [], u_port = 0, u_path = [], u_query = []\<rparr>, proxy = [], proxy_port = COAP_DEFAULT_PORT,
     ready = False, output_file = None, outfile = Not_Opened, written = [], payload = [], msgtype = CON,
     req_method = 1, block_num = 0, block_szx = 6, wait_seconds = 90, max_wait = 0, obs_seconds = 30,
     obs_wait = 0, cl_calls = 0\<rparr>"

end
