(* ===== verification/Coap_Block.thy ===== *)
theory Coap_Block
  imports Coap_Client
begin

unbundle bit_operations_syntax

text \<open>
  The transfer in blocks: the client's handler of responses together with any server that
  answers a request for a block with that block of a resource.
\<close>

section \<open>Writing\<close>

text \<open>A file that takes at least one byte of every piece takes all of them, in order.\<close>

lemma write_out_all:
  assumes "\<forall>n len. 0 < len \<longrightarrow> 0 < fwrite X n len"
  shows "\<exists>c. write_out X bytes s = s\<lparr>written := written s @ bytes, cl_calls := c\<rparr>"
  using assms
proof (induction X bytes s rule: write_out.induct)
  case (1 X bytes s)
  define w where "w = min (fwrite X (cl_calls s) (length bytes)) (length bytes)"
  define t where "t = (cl_tick s)\<lparr>written := written s @ take w bytes\<rparr>"
  have step: "write_out X bytes s = (if w \<noteq> 0 \<and> w < length bytes then write_out X (drop w bytes) t else t)"
    by (subst write_out.simps) (simp add: w_def t_def Let_def)
  show ?case
  proof (cases "w \<noteq> 0 \<and> w < length bytes")
    case True
    from "1.IH" [OF w_def t_def True] "1.prems" obtain c where
      "write_out X (drop w bytes) t = t\<lparr>written := written t @ drop w bytes, cl_calls := c\<rparr>" by blast
    with step True show ?thesis by (auto simp: t_def cl_tick_def)
  next
    case False
    then have "w = length bytes" using "1.prems" by (cases "bytes = []") (auto simp: w_def)
    with step have "write_out X bytes s = s\<lparr>written := written s @ bytes, cl_calls := cl_calls s + 1\<rparr>"
      by (simp add: t_def cl_tick_def)
    then show ?thesis by blast
  qed
qed

section \<open>The server and the exchange\<close>

text \<open>
  The number of the block that a request asks for: its option \<^verbatim>\<open>Block2\<close>, decoded, without which
  it asks for the first block. \<open>decode\<close> is the inverse of the library's encoding.
\<close>

definition asked_block :: "(u8 list \<Rightarrow> u32) \<Rightarrow> request \<Rightarrow> u32" where
  "asked_block decode q =
     (case map_of (rq_options q) BLOCK2 of None \<Rightarrow> 0 | Some bytes \<Rightarrow> drop_bit 4 (decode bytes))"

definition block_response :: "u8 list \<Rightarrow> nat \<Rightarrow> msg_type \<Rightarrow> u32 \<Rightarrow> u8 list \<Rightarrow> response" where
  "block_response resource szx t k tok =
     (let size = 2 ^ (szx + 4)
      in \<lparr>rs_type = t, rs_code = 205, rs_token = tok, rs_observe = False,
          rs_block = Some (False, k, (unat k + 1) * size < length resource, szx),
          rs_data = Some (take size (drop (unat k * size) resource))\<rparr>)"

text \<open>The exchange: every response is handled, and a request that the client sends is answered.\<close>

fun exchange :: "nat \<Rightarrow> cl_ext \<Rightarrow> (request \<Rightarrow> response) \<Rightarrow> client \<Rightarrow> request \<Rightarrow> fault + client" where
  "exchange 0 X server s q = Inl OutOfFuel"
| "exchange (Suc n) X server s q =
     and_then (message_handler X True (server q) s) (\<lambda>(s, es). case es of
       Transmit _ p # _ \<Rightarrow> exchange n X server s p
     | _ \<Rightarrow> Inr s)"

section \<open>One block\<close>

text \<open>What the handler needs of the client's state, and what it keeps.\<close>

definition can_receive :: "client \<Rightarrow> bool" where
  "can_receive s \<longleftrightarrow> length (token_data s) = 8 \<and> token_length s \<le> 8 \<and> outfile s \<noteq> Closed \<and>
     is_stdout s"

definition own_token :: "client \<Rightarrow> u8 list" where
  "own_token s = take (token_length s) (token_data s)"

lemma own_token_checked: "can_receive s \<Longrightarrow> rs_token r = own_token s \<Longrightarrow> check_token r s = Inr True"
  by (simp add: check_token_def can_receive_def own_token_def)

lemma append_out:
  assumes "can_receive s" "\<forall>n len. 0 < len \<longrightarrow> 0 < fwrite X n len"
  shows "\<exists>c. append_to_output X bytes s = Inr (s\<lparr>outfile := Opened, written := written s @ bytes, cl_calls := c\<rparr>)"
proof -
  obtain c where c: "write_out X bytes (s\<lparr>outfile := Opened\<rparr>) =
      s\<lparr>outfile := Opened, written := written s @ bytes, cl_calls := c\<rparr>"
    using write_out_all [OF assms(2), of bytes "s\<lparr>outfile := Opened\<rparr>"] by auto
  have "append_to_output X bytes s = Inr (write_out X bytes (s\<lparr>outfile := Opened\<rparr>))"
  proof (cases "outfile s")
    case Opened
    then have "s\<lparr>outfile := Opened\<rparr> = s" by simp
    then show ?thesis unfolding append_to_output_def Opened by simp
  qed (use assms(1) in \<open>auto simp: append_to_output_def can_receive_def\<close>)
  with c show ?thesis by auto
qed

definition next_options :: "cl_ext \<Rightarrow> copt list \<Rightarrow> u32 \<Rightarrow> nat \<Rightarrow> copt list" where
  "next_options X opts k szx =
     filter (\<lambda>o1. fst o1 \<in> {URI_HOST, URI_PORT, URI_PATH, URI_QUERY}) opts @
     [(BLOCK2, encode_var X (push_bit 4 (k + 1) OR of_nat szx))]"

text \<open>What relates the states before and after a block.\<close>

definition received_block :: "u8 list \<Rightarrow> client \<Rightarrow> client \<Rightarrow> bool" where
  "received_block bytes s s' \<longleftrightarrow> written s' = written s @ bytes \<and> can_receive s' \<and>
     own_token s' = own_token s \<and> token_length s' = token_length s \<and> optlist s' = optlist s"

lemma received_block_trans:
  "received_block b s t \<Longrightarrow> received_block c t u \<Longrightarrow> received_block (b @ c) s u"
  by (simp add: received_block_def)

lemma new_request_ok:
  assumes "\<forall>n. new_pdu_ok X n" "takes_token X (token_length s)" "can_receive s"
  shows "\<exists>p. coap_new_request X opts s = Inr (Some p, s\<lparr>cl_calls := cl_calls s + 2\<rparr>) \<and>
    rq_token p = own_token s \<and> rq_options p = opts"
proof -
  have "add_token X (s\<lparr>cl_calls := c\<rparr>) = Inr (own_token s)" for c
    using assms(2,3) by (simp add: add_token_def can_receive_def own_token_def)
  then show ?thesis using assms(1) by (simp add: coap_new_request_def cl_tick_def Let_def)
qed

lemma next_block_ok:
  assumes "\<forall>n. new_pdu_ok X n" "takes_token X (token_length s)" "can_receive s"
  shows "\<exists>p. next_block X r (False, k, m, szx) s = Inr (Some p, s\<lparr>cl_calls := cl_calls s + 2\<rparr>) \<and>
    rq_token p = own_token s \<and> rq_options p = next_options X (optlist s) k szx"
  using new_request_ok [OF assms, of "[]"] by (auto simp: next_block_def next_options_def)

lemma handle_block:
  assumes s: "can_receive s" and w: "\<forall>n len. 0 < len \<longrightarrow> 0 < fwrite X n len"
    and p: "\<forall>n. new_pdu_ok X n" "takes_token X (token_length s)"
    and r: "r = block_response D szx t k (own_token s)" and t: "t \<noteq> RST"
  shows "\<exists>s'. received_block (take (2 ^ (szx + 4)) (drop (unat k * 2 ^ (szx + 4)) D)) s s' \<and>
    (if (unat k + 1) * 2 ^ (szx + 4) < length D
     then \<exists>b q. message_handler X True r s = Inr (s', [Transmit b q]) \<and>
       rq_token q = own_token s \<and> rq_options q = next_options X (optlist s) k szx
     else message_handler X True r s = Inr (s', []) \<and> ready s')"
proof -
  define bytes where "bytes = take (2 ^ (szx + 4)) (drop (unat k * 2 ^ (szx + 4)) D)"
  define more where "more \<longleftrightarrow> (unat k + 1) * 2 ^ (szx + 4) < length D"
  obtain c where a: "append_to_output X bytes s =
      Inr (s\<lparr>outfile := Opened, written := written s @ bytes, cl_calls := c\<rparr>)"
    using append_out [OF s w] by blast
  define s1 where "s1 = s\<lparr>outfile := Opened, written := written s @ bytes, cl_calls := c\<rparr>"
  have r': "rs_type r = t" "rs_code r = 205" "\<not> rs_observe r" "rs_block r = Some (False, k, more, szx)"
    "rs_data r = Some bytes"
    by (simp_all add: r block_response_def bytes_def more_def Let_def)
  have ours: "check_token r s = Inr True" by (rule own_token_checked [OF s]) (simp add: r block_response_def Let_def)
  have keep: "received_block bytes s (s1\<lparr>cl_calls := x, max_wait := y, ready := z\<rparr>)"
    for x y z using s by (simp add: s1_def received_block_def can_receive_def own_token_def is_stdout_def)
  have out: "output_data X r s = Inr s1" by (simp add: output_data_def r' a s1_def)
  have handler: "message_handler X True r s = (if more
      then and_then (next_block X r (False, k, more, szx) s1) (\<lambda>(pdu, s). case pdu of
             None \<Rightarrow> Inr (s\<lparr>ready := True\<rparr>, [])
           | Some p \<Rightarrow>
               (let ok = send_ok X (cl_calls s); s = cl_tick s;
                    s = (if ok then (case set_timeout X (wait_seconds s) s of (t, s) \<Rightarrow> s\<lparr>max_wait := t\<rparr>) else s)
                in Inr (s, [Transmit (rs_type r = CON) p])))
      else Inr (s1\<lparr>ready := True\<rparr>, []))"
    using t by (simp add: message_handler_def ours r' out)
  show ?thesis
  proof (cases more)
    case False
    define s2 where "s2 = s1\<lparr>cl_calls := cl_calls s1, max_wait := max_wait s1, ready := True\<rparr>"
    have "received_block bytes s s2" unfolding s2_def by (rule keep)
    moreover have "message_handler X True r s = Inr (s2, [])" "ready s2"
      using False by (simp_all add: handler s2_def)
    ultimately show ?thesis using False unfolding bytes_def [symmetric] more_def [symmetric] by auto
  next
    case True
    have "can_receive s1" "own_token s1 = own_token s" "optlist s1 = optlist s"
      using s by (simp_all add: s1_def can_receive_def own_token_def is_stdout_def)
    moreover have "takes_token X (token_length s1)" using p(2) by (simp add: s1_def)
    ultimately obtain q where n: "next_block X r (False, k, more, szx) s1 = Inr (Some q, s1\<lparr>cl_calls := cl_calls s1 + 2\<rparr>)"
      and q: "rq_token q = own_token s" "rq_options q = next_options X (optlist s) k szx"
      using next_block_ok [OF p(1), of s1 r k more szx] by auto
    define x where "x = (if send_ok X (cl_calls s1 + 2) then cl_calls s1 + 4 else cl_calls s1 + 3)"
    define y where "y = (if send_ok X (cl_calls s1 + 2)
      then cl_ticks X (cl_calls s1 + 3) + wait_seconds s1 * cl_tps X else max_wait s1)"
    define s2 where "s2 = s1\<lparr>cl_calls := x, max_wait := y, ready := ready s1\<rparr>"
    have "message_handler X True r s = Inr (s2, [Transmit (rs_type r = CON) q])"
      using True n by (simp add: handler cl_tick_def set_timeout_def x_def y_def s2_def Let_def eval_nat_numeral)
    moreover have "received_block bytes s s2" unfolding s2_def by (rule keep)
    ultimately show ?thesis using True q unfolding bytes_def [symmetric] more_def [symmetric] by auto
  qed
qed

section \<open>All blocks\<close>

definition serves :: "(request \<Rightarrow> response) \<Rightarrow> (u8 list \<Rightarrow> u32) \<Rightarrow> u8 list \<Rightarrow> nat \<Rightarrow> bool" where
  "serves server decode D szx \<longleftrightarrow>
     (\<forall>q. \<exists>t. t \<noteq> RST \<and> server q = block_response D szx t (asked_block decode q) (rq_token q))"

lemma block_number:
  assumes "szx < 8" "unat (k :: u32) < 2 ^ 28"
  shows "drop_bit 4 (push_bit 4 k OR of_nat szx) = k"
proof -
  have "szx \<in> {0, 1, 2, 3, 4, 5, 6, 7}" using assms(1) by auto
  then have "drop_bit 4 (of_nat szx :: u32) = 0" by auto
  moreover have "drop_bit 4 (push_bit 4 k) = k"
    using assms(2) by (intro word_unat_eq_iff [THEN iffD2])
      (simp add: unat_drop_bit_eq drop_bit_eq_div push_bit_eq_mult unat_word_ariths)
  ultimately show ?thesis by (simp add: drop_bit_or)
qed

lemma asked_next:
  assumes "\<forall>v. decode (encode_var X v) = v" "szx < 8" "unat (k + 1) < 2 ^ 28"
    and "rq_options q = next_options X opts k szx"
  shows "asked_block decode q = k + 1"
proof -
  have "map_of (filter (\<lambda>o1. fst o1 \<in> {URI_HOST, URI_PORT, URI_PATH, URI_QUERY}) opts) BLOCK2 = None"
    by (auto simp: map_of_eq_None_iff option_numbers)
  moreover have "drop_bit 4 (push_bit 4 (k + 1) OR of_nat szx) = k + 1" by (rule block_number [OF assms(2,3)])
  ultimately show ?thesis using assms(1,4) by (simp add: asked_block_def next_options_def map_add_def)
qed

text \<open>One exchange: either all is there, or the next block is asked for.\<close>

lemma exchange_step:
  assumes w: "\<forall>n len. 0 < len \<longrightarrow> 0 < fwrite X n len"
    and p: "\<forall>n. new_pdu_ok X n" "\<forall>len \<le> 8. takes_token X len"
    and e: "\<forall>v. decode (encode_var X v) = v" and szx: "szx < 8" and D: "length D < 2 ^ 28"
    and sv: "serves server decode D szx"
    and s: "can_receive s" "rq_token q = own_token s"
    and k: "unat (asked_block decode q) * 2 ^ (szx + 4) \<le> length D"
  defines "at \<equiv> unat (asked_block decode q) * 2 ^ (szx + 4)"
  shows "\<exists>s'. received_block (take (2 ^ (szx + 4)) (drop at D)) s s' \<and>
    (if at + 2 ^ (szx + 4) < length D
     then \<exists>b q'. message_handler X True (server q) s = Inr (s', [Transmit b q']) \<and> rq_token q' = own_token s' \<and>
       unat (asked_block decode q') * 2 ^ (szx + 4) = at + 2 ^ (szx + 4)
     else message_handler X True (server q) s = Inr (s', []) \<and> ready s')"
proof -
  define kk where "kk = asked_block decode q"
  obtain t where t: "t \<noteq> RST" "server q = block_response D szx t kk (own_token s)"
    using sv s(2) unfolding serves_def kk_def by metis
  have tok: "takes_token X (token_length s)" using p(2) s(1) by (simp add: can_receive_def)
  have eq: "(unat kk + 1) * 2 ^ (szx + 4) = at + 2 ^ (szx + 4)" by (simp add: at_def kk_def)
  from handle_block [OF s(1) w p(1) tok t(2,1)] obtain s' where
    r: "received_block (take (2 ^ (szx + 4)) (drop at D)) s s'"
    and h: "if at + 2 ^ (szx + 4) < length D
     then \<exists>b q'. message_handler X True (server q) s = Inr (s', [Transmit b q']) \<and>
       rq_token q' = own_token s \<and> rq_options q' = next_options X (optlist s) kk szx
     else message_handler X True (server q) s = Inr (s', []) \<and> ready s'"
    unfolding eq at_def [folded kk_def, symmetric] by blast
  show ?thesis
  proof (cases "at + 2 ^ (szx + 4) < length D")
    case False
    with r h show ?thesis by auto
  next
    case True
    with h obtain b q' where q': "message_handler X True (server q) s = Inr (s', [Transmit b q'])"
      "rq_token q' = own_token s" "rq_options q' = next_options X (optlist s) kk szx" by auto
    have "unat kk + 1 \<le> (unat kk + 1) * 2 ^ (szx + 4)"
      using mult_le_mono2 [of 1 "2 ^ (szx + 4)" "unat kk + 1"] by simp
    with True D eq have lt: "unat kk + 1 < 2 ^ 28" by linarith
    then have u: "unat (kk + 1) = unat kk + 1" by (simp add: unat_word_ariths)
    from asked_next [OF e szx _ q'(3)] lt u have "asked_block decode q' = kk + 1" by simp
    with u eq have "unat (asked_block decode q') * 2 ^ (szx + 4) = at + 2 ^ (szx + 4)" by simp
    with True r q' show ?thesis by (auto simp: received_block_def)
  qed
qed

lemma exchange_blocks:
  assumes w: "\<forall>n len. 0 < len \<longrightarrow> 0 < fwrite X n len"
    and p: "\<forall>n. new_pdu_ok X n" "\<forall>len \<le> 8. takes_token X len"
    and e: "\<forall>v. decode (encode_var X v) = v" and szx: "szx < 8" and D: "length D < 2 ^ 28"
    and sv: "serves server decode D szx"
  shows "can_receive s \<Longrightarrow> rq_token q = own_token s \<Longrightarrow> unat (asked_block decode q) * 2 ^ (szx + 4) \<le> length D \<Longrightarrow>
    (length D - unat (asked_block decode q) * 2 ^ (szx + 4)) div 2 ^ (szx + 4) \<le> n \<Longrightarrow>
    \<exists>s'. exchange (Suc n) X server s q = Inr s' \<and> ready s' \<and>
      received_block (drop (unat (asked_block decode q) * 2 ^ (szx + 4)) D) s s'"
proof (induction n arbitrary: s q)
  case (0 s q)
  note step = exchange_step [OF w p e szx D sv 0(1,2,3)]
  from 0(4) have "\<not> (unat (asked_block decode q) + 1) * 2 ^ (szx + 4) < length D" by (simp add: div_eq_0_iff)
  with step 0(3) show ?case by fastforce
next
  case (Suc n s q)
  define at where "at = unat (asked_block decode q) * 2 ^ (szx + 4)"
  from exchange_step [OF w p e szx D sv Suc.prems(1,2,3)] obtain s1 where
    r: "received_block (take (2 ^ (szx + 4)) (drop at D)) s s1"
    and h: "if at + 2 ^ (szx + 4) < length D
     then \<exists>b q'. message_handler X True (server q) s = Inr (s1, [Transmit b q']) \<and> rq_token q' = own_token s1 \<and>
       unat (asked_block decode q') * 2 ^ (szx + 4) = at + 2 ^ (szx + 4)
     else message_handler X True (server q) s = Inr (s1, []) \<and> ready s1"
    unfolding at_def by blast
  show ?case
  proof (cases "at + 2 ^ (szx + 4) < length D")
    case False
    with h r show ?thesis by (auto simp: at_def)
  next
    case True
    with h obtain b q' where q': "message_handler X True (server q) s = Inr (s1, [Transmit b q'])"
      "rq_token q' = own_token s1" "unat (asked_block decode q') * 2 ^ (szx + 4) = at + 2 ^ (szx + 4)" by auto
    have "(length D - (at + 2 ^ (szx + 4))) div 2 ^ (szx + 4) \<le> n"
    proof -
      define sz :: nat where "sz = 2 ^ (szx + 4)"
      have sz: "0 < sz" "length D - at = (length D - (at + sz)) + sz" using True by (simp_all add: sz_def)
      have "(length D - at) div sz = (length D - (at + sz)) div sz + 1" unfolding sz(2) by (rule div_add_self2) (use sz(1) in simp)
      then have "(length D - at) div 2 ^ (szx + 4) = (length D - (at + 2 ^ (szx + 4))) div 2 ^ (szx + 4) + 1"
        by (simp only: sz_def)
      with Suc.prems(4) show ?thesis by (simp add: at_def)
    qed
    with Suc.IH [of s1 q'] r q' True obtain s' where s': "exchange (Suc n) X server s1 q' = Inr s'" "ready s'"
      "received_block (drop (at + 2 ^ (szx + 4)) D) s1 s'"
      by (auto simp: received_block_def)
    have "drop at D = take (2 ^ (szx + 4)) (drop at D) @ drop (at + 2 ^ (szx + 4)) D"
      using append_take_drop_id [of "2 ^ (szx + 4)" "drop at D"] by (simp add: add.commute del: append_take_drop_id)
    with received_block_trans [OF r s'(3)] have "received_block (drop at D) s s'" by simp
    with s' q'(1) show ?thesis unfolding at_def [symmetric] by auto
  qed
qed

text \<open>
  C32. The transfer in blocks: with a server that answers every request for a block with that block of
  a resource, the client writes exactly the resource, whatever its length and the size of the
  blocks, after one request for every block, each of which carries the client's token; then it
  is ready. It is enough for it that the file takes at least one byte of every piece.
\<close>

theorem block_transfer_complete:
  assumes "\<forall>n len. 0 < len \<longrightarrow> 0 < fwrite X n len"
    and "\<forall>n. new_pdu_ok X n" "\<forall>len \<le> 8. takes_token X len" "\<forall>v. decode (encode_var X v) = v"
    and "szx < 8" "length resource < 2 ^ 28"
    and "serves server decode resource szx"
    and "can_receive s" "rq_token q = take (token_length s) (token_data s)" "asked_block decode q = 0"
  shows "\<exists>s'. exchange (length resource div 2 ^ (szx + 4) + 1) X server s q = Inr s' \<and>
    written s' = written s @ resource \<and> ready s'"
proof -
  from exchange_blocks [OF assms(1-8), of q "length resource div 2 ^ (szx + 4)"] assms(9,10)
  show ?thesis by (auto simp: own_token_def received_block_def)
qed

definition ex_cl :: cl_ext where
  "ex_cl = \<lparr>cl_ticks = of_nat, cl_tps = 1, alloc_ok = (\<lambda>_. True), new_pdu_ok = (\<lambda>_. True),
     takes_token = (\<lambda>n. n \<le> 8), send_ok = (\<lambda>_. True), message_id = of_nat,
     coap_insert = (\<lambda>order x xs. takeWhile (\<lambda>y. order x y \<ge> 0) xs @ x # dropWhile (\<lambda>y. order x y \<ge> 0) xs),
     coap_fls = (\<lambda>n. int (bit_len n)), encode_var = (\<lambda>v. [ucast v, ucast (drop_bit 8 v), ucast (drop_bit 16 v), ucast (drop_bit 24 v)]),
     split_uri = (\<lambda>arg u. u\<lparr>u_path := arg, u_port := COAP_DEFAULT_PORT\<rparr>),
     split_path = (\<lambda>path n. [map of_char path]), split_query = (\<lambda>_ _. []),
     fopen_ok = True, fwrite = (\<lambda>_ _. 1), ntop_ok = False, context_ok = True\<rparr>"

definition ex_decode :: "u8 list \<Rightarrow> u32" where
  "ex_decode bytes = ucast (bytes ! 0) OR push_bit 8 (ucast (bytes ! 1)) OR
     push_bit 16 (ucast (bytes ! 2)) OR push_bit 24 (ucast (bytes ! 3))"

definition ex_blocks :: "u8 list \<Rightarrow> request \<Rightarrow> response" where
  "ex_blocks resource q = block_response resource 0 ACK (asked_block ex_decode q) (rq_token q)"

lemma ex_decode_encode: "ex_decode (encode_var ex_cl v) = v"
proof (rule bit_word_eqI)
  fix n assume "n < LENGTH(32)"
  then show "bit (ex_decode (encode_var ex_cl v)) n = bit v n"
    by (cases "n < 8"; cases "n < 16"; cases "n < 24") (auto simp: ex_decode_def ex_cl_def bit_simps)
qed

lemma block_transfer_complete_witness:
  "\<exists>s'. exchange 3 ex_cl (ex_blocks (replicate 40 7)) client_start
      \<lparr>rq_type = CON, rq_code = 1, rq_id = 1, rq_token = [], rq_options = [], rq_data = No_Data\<rparr> = Inr s' \<and>
    written s' = replicate 40 7 \<and> ready s'"
proof -
  have "serves (ex_blocks (replicate 40 7)) ex_decode (replicate 40 7) 0"
    by (auto simp: serves_def ex_blocks_def)
  moreover have "can_receive client_start" by (simp add: can_receive_def client_start_def is_stdout_def)
  moreover have "asked_block ex_decode \<lparr>rq_type = CON, rq_code = 1, rq_id = 1, rq_token = [],
      rq_options = [], rq_data = No_Data\<rparr> = 0" by (simp add: asked_block_def)
  ultimately show ?thesis
    using block_transfer_complete [where X = ex_cl and decode = ex_decode and szx = 0 and
        resource = "replicate 40 7" and server = "ex_blocks (replicate 40 7)" and s = client_start and
        q = "\<lparr>rq_type = CON, rq_code = 1, rq_id = 1, rq_token = [], rq_options = [], rq_data = No_Data\<rparr>"]
      ex_decode_encode
    by (simp add: ex_cl_def client_start_def)
qed

end
