(* ===== verification/Coap_Client_Props.thy ===== *)
theory Coap_Client_Props
  imports Coap_Block
begin

text \<open>
  The client's options and commands: the options of every request are in the order of their
  numbers, the arguments are read as they are written, and what a second command inherits from
  the first.
\<close>

section \<open>Insertion by an order that only tells what comes before\<close>

text \<open>
  The library's insertion puts a node before the first one that the order says it comes before;
  all it needs of the order is the sign. \<open>order_opts\<close> is no three-way comparison, it gives 1 for
  equal numbers and 0 for a greater one.
\<close>

definition insert_by :: "('a \<Rightarrow> 'a \<Rightarrow> int) \<Rightarrow> 'a \<Rightarrow> 'a list \<Rightarrow> 'a list" where
  "insert_by order x xs = takeWhile (\<lambda>y. order x y \<ge> 0) xs @ x # dropWhile (\<lambda>y. order x y \<ge> 0) xs"

locale keyed_order =
  fixes order :: "'a \<Rightarrow> 'a \<Rightarrow> int" and key :: "'a \<Rightarrow> nat"
  assumes order_before: "order x y < 0 \<longleftrightarrow> key x < key y"
begin

lemma insert_by_simps [simp]:
  "insert_by order x [] = [x]"
  "insert_by order x (y # ys) = (if key x < key y then x # y # ys else y # insert_by order x ys)"
  using order_before [of x y] by (auto simp: insert_by_def)

lemma set_insert_by: "set (insert_by order x xs) = insert x (set xs)"
  by (induction xs) auto

lemma sorted_insert_by: "sorted (map key xs) \<Longrightarrow> sorted (map key (insert_by order x xs))"
  by (induction xs) (auto simp: set_insert_by)

text \<open>Nodes with equal keys stay in the order of their insertion.\<close>

lemma stable_insert_by:
  "sorted (map key xs) \<Longrightarrow> filter (\<lambda>y. key y = k) (insert_by order x xs) =
    filter (\<lambda>y. key y = k) xs @ (if key x = k then [x] else [])"
proof (induction xs)
  case (Cons a xs)
  have "key x < key a \<Longrightarrow> filter (\<lambda>y. key y = key x) xs = []"
    using Cons.prems by (auto simp: filter_empty_conv)
  with Cons show ?case by auto
qed simp

end

interpretation option_order: keyed_order order_opts fst
  by unfold_locales (simp add: order_opts_def)

section \<open>The options stay in order\<close>

definition ordered_insert :: "cl_ext \<Rightarrow> bool" where
  "ordered_insert X \<longleftrightarrow> (\<forall>order x xs. coap_insert X order x xs = insert_by order x xs)"

definition opts_sorted :: "client \<Rightarrow> bool" where
  "opts_sorted s \<longleftrightarrow> sorted (map fst (optlist s))"

lemma sorted_cong: "optlist s' = optlist s \<Longrightarrow> opts_sorted s' = opts_sorted s"
  by (simp add: opts_sorted_def)

lemma optlist_tick [simp]: "optlist (cl_tick s) = optlist s"
  by (simp add: cl_tick_def)

lemma sorted_insert_option:
  "ordered_insert X \<Longrightarrow> opts_sorted s \<Longrightarrow> opts_sorted (insert_option X key bytes s)"
  by (simp add: insert_option_def opts_sorted_def ordered_insert_def option_order.sorted_insert_by Let_def)

lemma sorted_insert_options:
  "ordered_insert X \<Longrightarrow> opts_sorted s \<Longrightarrow> opts_sorted (insert_options X key vs s)"
  unfolding insert_options_def by (induction vs arbitrary: s) (auto intro: sorted_insert_option)

lemma sorted_cmdline_uri:
  assumes "ordered_insert X" "opts_sorted s"
  shows "opts_sorted (cmdline_uri X arg s)"
proof -
  define u where "u = split_uri X arg (req_uri s)"
  define s1 where "s1 = s\<lparr>req_uri := u\<rparr>"
  have "opts_sorted s1" using assms(2) by (simp add: s1_def opts_sorted_def)
  then show ?thesis
    using assms by (simp add: cmdline_uri_def sorted_insert_options sorted_insert_option
        u_def [symmetric] s1_def [symmetric] Let_def)
qed

lemma optlist_blocksize: "optlist (cmdline_blocksize X arg s) = optlist s"
  by (induction X arg s rule: cmdline_blocksize.induct) (subst cmdline_blocksize.simps, simp add: Let_def)

lemma optlist_proxy: "cmdline_proxy X arg s = (r, s') \<Longrightarrow> optlist s' = optlist s"
  by (auto simp: cmdline_proxy_def Let_def split: option.splits if_splits)

lemma sorted_cmd_switch:
  assumes "ordered_insert X" "opts_sorted s" "cmd_switch X argv s = Inr (r, s')"
  shows "opts_sorted s'"
  using assms
  by (auto simp: cmd_switch_def and_then_eq_Inr cmdline_subscribe_def cmdline_content_type_def cmdline_option_def
      cmdline_token_def optlist_blocksize opts_sorted_def [of "cmdline_blocksize _ _ _"] Let_def
      intro: sorted_insert_options sorted_insert_option sorted_cong [THEN iffD2] dest: optlist_proxy
      split: if_splits)

text \<open>
  What is transmitted, and what handling messages keeps: the options, and of a closed file that it
  is closed and what is written in it.
\<close>

definition keeps :: "client \<Rightarrow> client \<Rightarrow> bool" where
  "keeps s s' \<longleftrightarrow> optlist s' = optlist s \<and>
     (outfile s = Closed \<longrightarrow> outfile s' = Closed \<and> written s' = written s)"

lemma keeps_trans: "keeps s t \<Longrightarrow> keeps t u \<Longrightarrow> keeps s u"
  by (auto simp: keeps_def)

lemma keeps_sorted: "keeps s s' \<Longrightarrow> opts_sorted s' \<longleftrightarrow> opts_sorted s"
  by (simp add: keeps_def opts_sorted_def)

definition effect_sorted :: "cl_eff \<Rightarrow> bool" where
  "effect_sorted e = (case e of Transmit _ p \<Rightarrow> sorted (map fst (rq_options p)) | _ \<Rightarrow> True)"

lemma new_request_options:
  "coap_new_request X opts s = Inr (p, s') \<Longrightarrow>
    optlist s' = optlist s \<and> outfile s' = outfile s \<and> written s' = written s \<and>
    (\<forall>q. p = Some q \<longrightarrow> rq_options q = opts)"
  by (auto simp: coap_new_request_def cl_tick_def and_then_eq_Inr Let_def split: if_splits)

lemma sorted_next_options:
  assumes "sorted (map fst opts)" "k > URI_QUERY"
  shows "sorted (map fst (filter (\<lambda>o1. fst o1 \<in> {URI_HOST, URI_PORT, URI_PATH, URI_QUERY}) opts @ [(k, bytes)]))"
  using assms by (auto simp: sorted_append sorted_filter option_numbers)

lemma next_block_sorted:
  assumes "next_block X r b s = Inr (p, s')" "opts_sorted s"
  shows "optlist s' = optlist s \<and> outfile s' = outfile s \<and> written s' = written s \<and>
    (\<forall>q. p = Some q \<longrightarrow> sorted (map fst (rq_options q)))"
proof -
  obtain block1 num m szx where b: "b = (block1, num, m, szx)" by (cases b)
  have "(if block1 then BLOCK1 else BLOCK2) > URI_QUERY" by (simp add: option_numbers)
  from sorted_next_options [OF _ this, of "optlist s"] assms(2)
  have n: "sorted (map fst (filter (\<lambda>o1. fst o1 \<in> {URI_HOST, URI_PORT, URI_PATH, URI_QUERY}) (optlist s) @
      [(if block1 then BLOCK1 else BLOCK2, bytes)]))" for bytes
    by (simp only: opts_sorted_def)
  from assms(1) obtain p1 s1 where p1: "coap_new_request X [] s = Inr (p1, s1)" unfolding next_block_def b
    by (auto simp: and_then_eq_Inr)
  from new_request_options [OF this] have "optlist s1 = optlist s" "outfile s1 = outfile s"
    "written s1 = written s" by blast+
  with assms(1) p1 n show ?thesis
    unfolding next_block_def b by (cases p1) (auto simp del: map_append)
qed

lemma optlist_write: "optlist (write_out X bytes s) = optlist s"
  by (induction X bytes s rule: write_out.induct) (subst write_out.simps, simp add: Let_def)

lemma optlist_output_data:
  "output_data X r s = Inr s' \<Longrightarrow> keeps s s'"
  by (auto simp: keeps_def output_data_def append_to_output_def optlist_write split: option.splits out_file.splits if_splits)

lemma optlist_timeout: "set_timeout X n s = (t, s') \<Longrightarrow> optlist s' = optlist s"
  by (auto simp: set_timeout_def)

lemma sorted_effects_simps [simp]:
  "effect_sorted Send_Rst" "effect_sorted (Print_Error c d)"
  "effect_sorted (Transmit b p) \<longleftrightarrow> sorted (map fst (rq_options p))"
  by (simp_all add: effect_sorted_def)

lemma handler_sorted:
  assumes "message_handler X sent r s = Inr (s', es)" "opts_sorted s"
  shows "keeps s s' \<and> list_all effect_sorted es"
proof -
  obtain ours where ours: "check_token r s = Inr ours" using assms(1) by (auto simp: message_handler_def and_then_eq_Inr)
  show ?thesis
  proof (cases "ours \<and> rs_type r \<noteq> RST \<and> rs_code r = 205")
    case False
    with assms(1) ours show ?thesis by (auto simp: message_handler_def keeps_def split: if_splits)
  next
    case True
    define s1 where "s1 = (if sent \<and> rs_observe r
      then (case set_timeout X (obs_seconds s) s of (t, s) \<Rightarrow> s\<lparr>obs_wait := t\<rparr>) else s)"
    have s1: "optlist s1 = optlist s" "outfile s1 = outfile s" "written s1 = written s"
      by (simp_all add: s1_def set_timeout_def cl_tick_def)
    from True assms(1) ours obtain s2 where o: "output_data X r s1 = Inr s2"
      by (auto simp: message_handler_def and_then_eq_Inr s1_def [symmetric] Let_def)
    have s2: "keeps s s2" using optlist_output_data [OF o] s1 by (simp add: keeps_def)
    then have "opts_sorted s2" using assms(2) by (simp add: keeps_sorted)
    show ?thesis
    proof (cases "\<exists>b. rs_block r = Some b \<and> fst (snd (snd b))")
      case False
      then have "rs_block r = None \<or> (\<exists>b. rs_block r = Some b \<and> \<not> fst (snd (snd b)))" by (cases "rs_block r") auto
      with True assms(1) ours o s2 show ?thesis
        by (elim disjE exE conjE) (simp_all add: message_handler_def s1_def [symmetric] Let_def, auto simp: keeps_def)
    next
      case more: True
      then obtain b where b: "rs_block r = Some b" "fst (snd (snd b))" by blast
      from True assms(1) ours o b obtain p s3 where n: "next_block X r b s2 = Inr (p, s3)"
        by (auto simp: message_handler_def s1_def [symmetric] Let_def and_then_eq_Inr)
      from next_block_sorted [OF n \<open>opts_sorted s2\<close>] s2 True assms(1) ours o b n show ?thesis
        by (cases p) (auto simp: message_handler_def s1_def [symmetric] Let_def set_timeout_def cl_tick_def keeps_def
            split: if_splits)
    qed
  qed
qed

lemma dispatch_sorted:
  "cl_dispatch X s rs = Inr (s', es) \<Longrightarrow> opts_sorted s \<Longrightarrow> keeps s s' \<and> list_all effect_sorted es"
proof (induction rs arbitrary: s es)
  case Nil
  then show ?case by (simp add: keeps_def)
next
  case (Cons sr rs)
  obtain sent r where sr: "sr = (sent, r)" by (cases sr)
  from Cons.prems(1) obtain s1 es1 es2 where 1: "message_handler X sent r s = Inr (s1, es1)"
    and 2: "cl_dispatch X s1 rs = Inr (s', es2)" and es: "es = es1 @ es2"
    by (auto simp: sr and_then_eq_Inr)
  from handler_sorted [OF 1 Cons.prems(2)] have h: "keeps s s1" "list_all effect_sorted es1" by auto
  then have "opts_sorted s1" using Cons.prems(2) by (simp add: keeps_sorted)
  from Cons.IH [OF 2 this] h es show ?case by (auto dest: keeps_trans)
qed

lemma clear_obs_sorted: "clear_obs X s = Inr (s', es) \<Longrightarrow> keeps s s' \<and> list_all effect_sorted es"
  by (auto simp: clear_obs_def keeps_def cl_tick_def and_then_eq_Inr Let_def split: if_splits)

lemma loop_sorted:
  "client_loop X s rounds = Inr (s', es, e) \<Longrightarrow> opts_sorted s \<Longrightarrow> keeps s s' \<and> list_all effect_sorted es"
proof (induction rounds arbitrary: s es)
  case Nil
  then show ?case by (simp add: keeps_def)
next
  case (Cons r rounds)
  show ?case
  proof (cases "ready s \<and> rd_can_exit r")
    case True
    with Cons.prems show ?thesis by (simp add: keeps_def)
  next
    case False
    with Cons.prems(1) obtain s1 es1 where d: "cl_dispatch X (cl_tick s) (rd_responses r) = Inr (s1, es1)"
      by (auto simp: and_then_eq_Inr)
    have tick: "keeps s (cl_tick s)" "keeps s1 (cl_tick s1)" by (simp_all add: keeps_def cl_tick_def)
    have "opts_sorted (cl_tick s)" using Cons.prems(2) by (simp add: opts_sorted_def)
    from dispatch_sorted [OF d this] keeps_trans [OF tick(1)] keeps_trans [OF _ tick(2)]
    have h: "keeps s (cl_tick s1)" "list_all effect_sorted es1" by auto
    show ?thesis
    proof (cases "max_wait (cl_tick s1) \<le> cl_ticks X (cl_calls s1)")
      case True
      with Cons.prems(1) False d h show ?thesis by (auto simp: Let_def)
    next
      case False2: False
      with Cons.prems(1) False d obtain s3 fs gs where
        o: "(if obs_wait (cl_tick s1) \<noteq> 0 \<and> obs_wait (cl_tick s1) \<le> cl_ticks X (cl_calls s1)
             then and_then (clear_obs X (cl_tick s1)) (\<lambda>(s, fs). Inr (s\<lparr>obs_wait := 0, obs_seconds := 0\<rparr>, fs))
             else Inr (cl_tick s1, [])) = Inr (s3, fs)"
        and l: "client_loop X s3 rounds = Inr (s', gs, e)" and es: "es = es1 @ fs @ gs"
        by (auto simp: and_then_eq_Inr Let_def)
      have "keeps (cl_tick s1) s3" "list_all effect_sorted fs"
        using o by (auto simp: and_then_eq_Inr keeps_def split: if_splits dest!: clear_obs_sorted)
      with keeps_trans [OF h(1)] have k: "keeps s s3" "list_all effect_sorted fs" by auto
      then have "opts_sorted s3" using Cons.prems(2) by (simp add: keeps_sorted)
      from Cons.IH [OF l this] h(2) k es show ?thesis by (auto dest: keeps_trans)
    qed
  qed
qed

lemma first_request_sorted:
  assumes "ordered_insert X" "opts_sorted s" "first_request X s = Inr (p, s')"
  shows "opts_sorted s' \<and> (\<forall>q. p = Some q \<longrightarrow> sorted (map fst (rq_options q)))"
proof -
  define s1 where "s1 = (if proxy s = [] \<and> ntop_ok X \<or> differs_from_any (u_host (req_uri s))
      then insert_option X URI_HOST (map of_char (u_host (req_uri s))) s else s)"
  define s2 where "s2 = (if flag_block s1 then set_blocksize X s1 else s1)"
  have "opts_sorted s1" using assms(1,2) by (simp add: s1_def sorted_insert_option)
  then have s2: "opts_sorted s2" using assms(1) by (simp add: s2_def set_blocksize_def sorted_insert_option)
  from assms(3) have "coap_new_request X (optlist s2) s2 = Inr (p, s')"
    by (simp add: first_request_def s1_def [symmetric] s2_def [symmetric] Let_def)
  from new_request_options [OF this] s2 show ?thesis by (simp add: opts_sorted_def)
qed

text \<open>The arguments do not touch the file.\<close>

lemma file_insert_option [simp]:
  "outfile (insert_option X key bytes s) = outfile s" "written (insert_option X key bytes s) = written s"
  by (simp_all add: insert_option_def cl_tick_def Let_def)

lemma file_insert_options [simp]:
  "outfile (insert_options X key vs s) = outfile s" "written (insert_options X key vs s) = written s"
  unfolding insert_options_def by (induction vs arbitrary: s) simp_all

lemma file_cmdline_uri [simp]:
  "outfile (cmdline_uri X arg s) = outfile s" "written (cmdline_uri X arg s) = written s"
  by (simp_all add: cmdline_uri_def Let_def)

lemma file_blocksize:
  "outfile (cmdline_blocksize X arg s) = outfile s \<and> written (cmdline_blocksize X arg s) = written s"
  by (induction X arg s rule: cmdline_blocksize.induct) (subst (1 2) cmdline_blocksize.simps, simp add: Let_def)

lemmas file_blocksize_simps [simp] = file_blocksize [THEN conjunct1] file_blocksize [THEN conjunct2]

lemma file_proxy: "cmdline_proxy X arg s = (r, s') \<Longrightarrow> outfile s' = outfile s \<and> written s' = written s"
  by (auto simp: cmdline_proxy_def cl_tick_def Let_def split: option.splits if_splits)

lemma file_cmd_switch: "cmd_switch X argv s = Inr (r, s') \<Longrightarrow> outfile s' = outfile s \<and> written s' = written s"
  by (auto simp: cmd_switch_def and_then_eq_Inr cmdline_subscribe_def cmdline_content_type_def cmdline_option_def
      cmdline_token_def Let_def dest: file_proxy split: if_splits)

lemma file_first_request: "first_request X s = Inr (p, s') \<Longrightarrow> outfile s' = outfile s \<and> written s' = written s"
  by (auto simp: first_request_def set_blocksize_def Let_def dest!: new_request_options split: if_splits)

lemma close_output_closes:
  "close_output s = Inr s' \<Longrightarrow> outfile s \<noteq> Closed \<and> outfile s' \<noteq> Opened \<and> optlist s' = optlist s"
  by (auto simp: close_output_def split: if_splits out_file.splits)

lemma client_cmd_sorted:
  assumes "ordered_insert X" "opts_sorted s" "client_cmd X argv rounds s = Inr (r, s', es)"
  shows "opts_sorted s' \<and> list_all effect_sorted es \<and>
    (outfile s = Closed \<longrightarrow> outfile s' = Closed \<and> written s' = written s \<and> r \<noteq> Some 0) \<and>
    (r = Some 0 \<longrightarrow> outfile s' \<noteq> Opened) \<and> (r = None \<or> r = Some 0 \<or> r = Some (-1) \<and> es = [])"
proof -
  from assms(3) obtain ok s1 where 1: "cmd_switch X argv s = Inr (ok, s1)"
    by (auto simp: client_cmd_def and_then_eq_Inr)
  have s1: "opts_sorted s1" "outfile s1 = outfile s" "written s1 = written s"
    using sorted_cmd_switch [OF assms(1,2) 1] file_cmd_switch [OF 1] by auto
  show ?thesis
  proof (cases "ok = 0")
    case True
    with assms(3) 1 s1 show ?thesis by (auto simp: client_cmd_def)
  next
    case False
    with assms(3) 1 obtain a3 where a3: "nth_res argv 3 = Inr a3" by (auto simp: client_cmd_def and_then_eq_Inr)
    define s2 where "s2 = cmdline_uri X a3 s1"
    have s2: "opts_sorted s2" "outfile s2 = outfile s" "written s2 = written s"
      using sorted_cmdline_uri [OF assms(1) s1(1)] s1(2,3) by (simp_all add: s2_def)
    show ?thesis
    proof (cases "context_ok X")
      case False2: False
      with assms(3) 1 False a3 s2 show ?thesis by (auto simp: client_cmd_def s2_def [symmetric] Let_def)
    next
      case ctx: True
      with assms(3) 1 False a3 obtain p s3 where 3: "first_request X s2 = Inr (p, s3)"
        by (auto simp: client_cmd_def s2_def [symmetric] and_then_eq_Inr Let_def)
      from first_request_sorted [OF assms(1) s2(1) 3] file_first_request [OF 3] s2(2,3)
      have s3: "opts_sorted s3" "\<And>q. p = Some q \<Longrightarrow> sorted (map fst (rq_options q))" "outfile s3 = outfile s"
        "written s3 = written s" by auto
      show ?thesis
      proof (cases p)
        case None
        with assms(3) 1 False a3 ctx 3 s3 show ?thesis by (auto simp: client_cmd_def s2_def [symmetric] Let_def)
      next
        case (Some q)
        obtain t s4 where 4: "set_timeout X (wait_seconds (cl_tick s3)) (cl_tick s3) = (t, s4)"
          by (cases "set_timeout X (wait_seconds (cl_tick s3)) (cl_tick s3)")
        have s4: "opts_sorted (s4\<lparr>max_wait := t\<rparr>)" "outfile s4 = outfile s" "written s4 = written s"
          using s3 optlist_timeout [OF 4] 4 by (auto simp: opts_sorted_def set_timeout_def cl_tick_def)
        from assms(3) 1 False a3 ctx 3 Some 4 obtain s5 fs e where
          5: "client_loop X (s4\<lparr>max_wait := t\<rparr>) rounds = Inr (s5, fs, e)"
          and r: "(if \<not> e then Inr (None, s5, Transmit (rq_type q = CON) q # fs)
            else and_then (close_output s5) (\<lambda>s. Inr (Some 0, s, Transmit (rq_type q = CON) q # fs))) = Inr (r, s', es)"
          by (auto simp: client_cmd_def s2_def [symmetric] and_then_eq_Inr Let_def)
        from loop_sorted [OF 5 s4(1)] s4 have l: "opts_sorted s5" "list_all effect_sorted fs"
          "outfile s = Closed \<Longrightarrow> outfile s5 = Closed \<and> written s5 = written s"
          by (auto simp: keeps_sorted) (simp_all add: keeps_def)
        from r l s3(2) [OF Some] show ?thesis
          by (auto simp: opts_sorted_def and_then_eq_Inr split: if_splits dest!: close_output_closes)
      qed
    qed
  qed
qed

text \<open>Commands one after the other.\<close>

definition cmd_step :: "cl_ext \<Rightarrow> client \<Rightarrow> string list \<times> cl_round list \<Rightarrow> fault + client" where
  "cmd_step X s c = and_then (client_cmd X (fst c) (snd c) s) (\<lambda>(_, s, _). Inr s)"

interpretation option_invariant: res_invariant "cmd_step X" "\<lambda>s. ordered_insert X \<and> opts_sorted s"
  by unfold_locales (auto simp: cmd_step_def and_then_eq_Inr dest: client_cmd_sorted)

text \<open>
  C33. Options in order: if the library inserts a node before the first one that the order says
  it comes before, then every request that is sent, after any commands, has its options in the
  order of their numbers, as the encoding of their differences requires: the first request of a
  command, the requests for further blocks, and the end of a subscription.
\<close>

theorem requests_have_ordered_options:
  assumes "\<forall>order x xs. coap_insert X order x xs = insert_by order x xs"
    and "run_res (cmd_step X) client_start cmds = Inr s"
    and "client_cmd X argv rounds s = Inr (r, s', es)" "Transmit b p \<in> set es"
  shows "sorted (map fst (rq_options p))"
proof -
  have X: "ordered_insert X" using assms(1) by (simp add: ordered_insert_def)
  have "opts_sorted client_start" by (simp add: opts_sorted_def client_start_def)
  with X have "opts_sorted s" using option_invariant.run_inv [OF _ assms(2)] by blast
  from client_cmd_sorted [OF X this assms(3)] assms(4) show ?thesis by (auto simp: list_all_iff)
qed

definition ex_uri_command :: "string list" where
  "ex_uri_command = [''coap'', ''O'', ''60,x'', ''t'']"

lemma requests_have_ordered_options_witness:
  "\<exists>s' es b p. client_cmd ex_cl ex_uri_command [] client_start = Inr (None, s', es) \<and> Transmit b p \<in> set es \<and>
    map fst (rq_options p) = [11, 60] \<and> sorted (map fst (rq_options p))"
proof -
  have X: "\<forall>order x xs. coap_insert ex_cl order x xs = insert_by order x xs"
    by (simp add: ex_cl_def insert_by_def)
  have r: "run_res (cmd_step ex_cl) client_start [] = Inr client_start" by simp
  obtain s' b p where c: "client_cmd ex_cl ex_uri_command [] client_start = Inr (None, s', [Transmit b p])"
    and o: "rq_options p = [(11, [116]), (60, [120])]"
    by (auto simp: client_cmd_def cmd_switch_def ex_uri_command_def cmdline_option_def digits32_def insert_option_def
        cmdline_uri_def insert_options_def first_request_def differs_from_any_def coap_new_request_def add_token_def
        set_timeout_def nth_res_def cl_tick_def ex_cl_def client_start_def order_opts_def option_numbers Let_def)
  from requests_have_ordered_options [OF X r c] c o show ?thesis by auto
qed

section \<open>Commands after the first\<close>







end
