(* ===== verification/Coap_Args_Props.thy ===== *)
theory Coap_Args_Props
  imports Coap_Client_Props
begin

text \<open>
  The arguments of the client's command, read back from their texts, and those that are read or
  stored outside their arrays.
\<close>

section \<open>The size of the blocks\<close>

lemma digits16_dec: "digits16 (dec n) = of_nat n"
proof (induction n rule: dec.induct)
  case (1 n)
  have d: "d < 10 \<Longrightarrow> (of_char (digit d) :: u16) - of_char (CHR ''0'') = of_nat d" for d
  proof -
    have "list_all (\<lambda>d. (of_char (digit d) :: u16) - of_char (CHR ''0'') = of_nat d) [0..<10]" by code_simp
    then show "d < 10 \<Longrightarrow> ?thesis" by (simp only: list_all_iff set_upt) simp
  qed
  show ?case
  proof (cases "n < 10")
    case True
    then show ?thesis using d [OF True] by (subst dec.simps) (simp add: digits16_def)
  next
    case False
    have m: "n mod 10 < 10" by simp
    have "dec n = dec (n div 10) @ [digit (n mod 10)]" using False by (subst dec.simps) simp
    then have "digits16 (dec n) = digits16 (dec (n div 10)) * 10 + ((of_char (digit (n mod 10)) :: u16) - of_char (CHR ''0''))"
      by (simp add: digits16_def)
    also have "\<dots> = of_nat (n div 10) * 10 + of_nat (n mod 10)"
      by (simp only: "1.IH" [OF False] d [OF m])
    also have "\<dots> = of_nat (n div 10 * 10 + n mod 10)"
      by (simp only: of_nat_add of_nat_mult of_nat_numeral)
    finally show ?thesis by simp
  qed
qed

lemma dec_no_comma: "CHR '','' \<notin> set (dec n)" "CHR '':'' \<notin> set (dec n)" "CHR '']'' \<notin> set (dec n)"
proof -
  have "list_all (\<lambda>d. digit d \<noteq> CHR '','' \<and> digit d \<noteq> CHR '':'' \<and> digit d \<noteq> CHR '']'') [0..<10]" by code_simp
  then have "d < 10 \<Longrightarrow> digit d \<noteq> CHR '','' \<and> digit d \<noteq> CHR '':'' \<and> digit d \<noteq> CHR '']''" for d
    by (simp only: list_all_iff set_upt) simp
  then have "\<forall>c \<in> set (dec n). c \<noteq> CHR '','' \<and> c \<noteq> CHR '':'' \<and> c \<noteq> CHR '']''"
    using all_digits_dec [of n] unfolding all_digits_def by metis
  then show "CHR '','' \<notin> set (dec n)" "CHR '':'' \<notin> set (dec n)" "CHR '']'' \<notin> set (dec n)" by auto
qed

lemma takeWhile_other: "c \<notin> set xs \<Longrightarrow> takeWhile (\<lambda>d. d \<noteq> c) (xs @ c # ys) = xs"
  "c \<notin> set xs \<Longrightarrow> takeWhile (\<lambda>d. d \<noteq> c) xs = xs"
  by (induction xs) auto

lemma blocksize_more:
  "CHR '','' \<notin> set seg \<Longrightarrow> cmdline_blocksize X (seg @ CHR '','' # r) s =
    cmdline_blocksize X r (s\<lparr>block_num := ucast (digits16 seg)\<rparr>)"
  by (subst cmdline_blocksize.simps) (simp add: takeWhile_other)

lemma blocksize_end:
  "CHR '','' \<notin> set seg \<Longrightarrow> cmdline_blocksize X seg s =
    (if digits16 seg \<noteq> 0 then s\<lparr>block_szx := nat ((coap_fls X (unat (digits16 seg) div 16) - 1) mod 8)\<rparr> else s)
      \<lparr>flag_block := True\<rparr>"
  by (subst cmdline_blocksize.simps) (simp add: takeWhile_other Let_def)

text \<open>
  The argument \<^verbatim>\<open>num,size\<close> gives the number of the block and the exponent of its size, for the
  sizes that the protocol has; a size below 16 is stored as the exponent 7, which it reserves.
\<close>

lemma blocksize_read:
  assumes "\<forall>n. coap_fls X n = int (bit_len n)" "num < 2 ^ 16"
  shows "cmdline_blocksize X (dec num @ '','' @ dec k) s =
    s\<lparr>block_num := of_nat num, flag_block := True,
      block_szx := (if k mod 2 ^ 16 = 0 then block_szx s
                    else nat ((int (bit_len (k mod 2 ^ 16 div 16)) - 1) mod 8))\<rparr>"
proof -
  have "(ucast (of_nat num :: u16) :: u32) = of_nat num"
    using assms(2) by (intro word_unat_eq_iff [THEN iffD2]) (simp add: unat_of_nat unsigned_ucast_eq take_bit_eq_mod)
  moreover have "(of_nat k :: u16) = 0 \<longleftrightarrow> k mod 2 ^ 16 = 0"
    by (simp add: word_of_nat_eq_0_iff dvd_eq_mod_eq_0)
  moreover have "unat (of_nat k :: u16) = k mod 2 ^ 16" by (simp add: unat_of_nat)
  ultimately show ?thesis
    by (simp add: blocksize_more blocksize_end dec_no_comma digits16_dec assms(1))
qed

lemma blocksize_exponent:
  assumes "\<forall>n. coap_fls X n = int (bit_len n)" "num < 2 ^ 16" "szx < 7"
  shows "cmdline_blocksize X (dec num @ '','' @ dec (2 ^ (szx + 4))) s =
    s\<lparr>block_num := of_nat num, block_szx := szx, flag_block := True\<rparr>"
proof -
  have "szx \<in> {0, 1, 2, 3, 4, 5, 6}" using assms(3) by auto
  then show ?thesis
    using blocksize_read [OF assms(1,2), of "2 ^ (szx + 4)" s] by (auto simp: bit_len_simps)
qed

section \<open>The proxy\<close>

lemma strchr_append: "c \<notin> set xs \<Longrightarrow> strchr c (xs @ c # ys) = Some (length xs)"
  by (simp add: strchr_def takeWhile_other)

lemma strchr_none: "strchr c xs = None \<longleftrightarrow> c \<notin> set xs" "strrchr c xs = None \<longleftrightarrow> c \<notin> set xs"
  by (simp_all add: strchr_def strrchr_def)

lemma strrchr_append: "c \<notin> set ys \<Longrightarrow> strrchr c (xs @ c # ys) = Some (length xs)"
  by (simp add: strrchr_def strchr_append)

text \<open>
  The proxy's address is read back from its text: from \<^verbatim>\<open>host:port\<close> for a host without colons and
  brackets, from \<^verbatim>\<open>[address]:port\<close> for an address with any colons, and without a port from either
  form, which leaves the port as it was.
\<close>

theorem proxy_read_back:
  assumes "alloc_ok X (cl_calls s)" "port < 2 ^ 16"
    and "CHR '':'' \<notin> set host" "CHR '']'' \<notin> set host" "CHR '']'' \<notin> set v6" "CHR ''['' \<notin> set v6"
  shows "cmdline_proxy X (host @ '':'' @ dec port) s = (1, (cl_tick s)\<lparr>proxy := host, proxy_port := of_nat port\<rparr>) \<and>
    cmdline_proxy X host s = (1, (cl_tick s)\<lparr>proxy := host\<rparr>) \<and>
    cmdline_proxy X (''['' @ v6 @ '']:'' @ dec port) s = (1, (cl_tick s)\<lparr>proxy := v6, proxy_port := of_nat port\<rparr>) \<and>
    (CHR '':'' \<in> set v6 \<longrightarrow> cmdline_proxy X (''['' @ v6 @ '']'') s = (1, (cl_tick s)\<lparr>proxy := v6\<rparr>))"
proof -
  have a: "atoi (dec port) = int port" by (simp add: atoi_all_digits [OF all_digits_dec] decnum_dec)
  note facts = cmdline_proxy_def assms(1) a cl_tick_def Let_def
  have 1: "cmdline_proxy X (host @ '':'' @ dec port) s = (1, (cl_tick s)\<lparr>proxy := host, proxy_port := of_nat port\<rparr>)"
  proof -
    have n: "strrchr CHR '':'' (host @ CHR '':'' # dec port) = Some (length host)"
      "strchr CHR '':'' (host @ CHR '':'' # dec port) = Some (length host)"
      "strrchr CHR '']'' (host @ CHR '':'' # dec port) = None"
      using assms(3,4) dec_no_comma [of port] by (simp_all add: strrchr_append strchr_append strchr_none)
    show ?thesis by (simp add: facts n)
  qed
  have 2: "cmdline_proxy X host s = (1, (cl_tick s)\<lparr>proxy := host\<rparr>)"
  proof -
    have n: "strrchr CHR '':'' host = None" using assms(3) by (simp add: strchr_none)
    show ?thesis by (simp add: facts n)
  qed
  have b: "strchr CHR ''['' (CHR ''['' # r) = Some 0" for r by (simp add: strchr_def)
  have 3: "cmdline_proxy X (''['' @ v6 @ '']:'' @ dec port) s = (1, (cl_tick s)\<lparr>proxy := v6, proxy_port := of_nat port\<rparr>)"
  proof -
    have n: "strrchr CHR '':'' (CHR ''['' # v6 @ CHR '']'' # CHR '':'' # dec port) = Some (length v6 + 2)"
      "strrchr CHR '']'' (CHR ''['' # v6 @ CHR '']'' # CHR '':'' # dec port) = Some (length v6 + 1)"
      using strrchr_append [of "CHR '':''" "dec port" "CHR ''['' # v6 @ [CHR '']'']"]
        strrchr_append [of "CHR '']''" "CHR '':'' # dec port" "CHR ''['' # v6"] dec_no_comma [of port] by simp_all
    show ?thesis by (simp add: facts n b)
  qed
  have 4: "cmdline_proxy X (''['' @ v6 @ '']'') s = (1, (cl_tick s)\<lparr>proxy := v6\<rparr>)" if c: "CHR '':'' \<in> set v6"
  proof -
    from split_list_last [OF c] obtain xs ys where v: "v6 = xs @ CHR '':'' # ys" "CHR '':'' \<notin> set ys" by blast
    have n: "strrchr CHR '':'' (CHR ''['' # xs @ CHR '':'' # ys @ [CHR '']'']) = Some (length xs + 1)"
      "strrchr CHR '']'' (CHR ''['' # xs @ CHR '':'' # ys @ [CHR '']'']) = Some (length xs + length ys + 2)"
      using strrchr_append [of "CHR '':''" "ys @ [CHR '']'']" "CHR ''['' # xs"] v(2)
        strrchr_append [of "CHR '']''" "[]" "CHR ''['' # xs @ CHR '':'' # ys"] by simp_all
    show ?thesis by (simp add: facts n b v(1))
  qed
  from 1 2 3 4 show ?thesis by blast
qed

lemma proxy_read_back_witness:
  "cmdline_proxy ex_cl ''[fe80::1]:80'' client_start =
    (1, (cl_tick client_start)\<lparr>proxy := ''fe80::1'', proxy_port := 80\<rparr>)"
proof -
  have d: "dec 80 = ''80''" by code_simp
  have ok: "alloc_ok ex_cl (cl_calls client_start)" "(80::nat) < 2 ^ 16" by (simp_all add: ex_cl_def)
  have c: "CHR '':'' \<notin> set ''host''" "CHR '']'' \<notin> set ''host''" "CHR '']'' \<notin> set ''fe80::1''" "CHR ''['' \<notin> set ''fe80::1''"
    by simp_all
  from proxy_read_back [OF ok c] show ?thesis unfolding d by (elim conjE) simp
qed

section \<open>Arguments that are read where they should not be\<close>

text \<open>The command to subscribe reads a variable that is never set, not its argument.\<close>

lemma subscribe_reads_null: "cmdline_subscribe X arg s = Inl NullPointer"
  by (simp add: cmdline_subscribe_def)

text \<open>
  A token of more than eight bytes is stored with its full length, so a response that has as
  long a token is compared with what is behind the array.
\<close>

lemma long_token_read_outside:
  assumes "length arg > 8" "length (token_data s) = 8" "length (rs_token r) = length arg"
  shows "message_handler X sent r (cmdline_token arg s) = Inl OutOfBounds"
  using assms by (simp add: message_handler_def check_token_def cmdline_token_def min_def)

text \<open>The values of more than ten content types are stored behind the array.\<close>

lemma eleven_types_written_outside:
  "content_values False ''0,0,0,0,0,0,0,0,0,0,0'' [] = Inl OutOfBounds"
  by code_simp

text \<open>An empty name of a content type, before a comma, is the first one of the table.\<close>

lemma empty_type_is_plain: "content_values False '',json'' [] = Inr [0, 50]"
  by code_simp

end
