(* ===== verification/Sixlow_App.thy ===== *)
theory Sixlow_App
  imports Decimal
begin

text \<open>
  The 6LoWPAN example of \<^verbatim>\<open>src/sixlowapp\<close>: the shell commands for an echo request and for
  netcat (\<^verbatim>\<open>sixlowshell.c\<close>), waiting for a message (\<^verbatim>\<open>helper.c\<close>), the monitor that sees every
  packet (\<^verbatim>\<open>monitor.c\<close>), the UDP server and sender (\<^verbatim>\<open>udp.c\<close>) and the sensors (\<^verbatim>\<open>sensors.c\<close>).
  RIOT's calls are the record \<open>sx_ext\<close>. A \<^verbatim>\<open>timex_t\<close> is its number of microseconds.
\<close>

section \<open>State\<close>

type_synonym ipv6 = "u16 list"

text \<open>
  \<open>pending\<close> are the messages sent to the shell's thread that it has not received yet, \<open>sx_now\<close> is
  the time of the last event, \<open>neighbours\<close> are the entries added to the neighbour cache, and
  \<open>buffer_main\<close> is the server's buffer on its stack. The process that waits for a reply is always
  the shell's. Events happen while it waits or between commands, not within one.
\<close>

record sixlow =
  waiting_for_pong :: u32
  listen_port :: u16
  nc_payload :: string
  buffer_main :: string
  neighbours :: "ipv6 list"
  pending :: "u16 list"
  sx_now :: "64 word"

record sx_ext =
  timex_sub :: "64 word \<Rightarrow> 64 word \<Rightarrow> 64 word"
  timex_cmp :: "64 word \<Rightarrow> 64 word \<Rightarrow> int"
  inet_pton :: "string \<Rightarrow> ipv6 option"
  cache_search :: "ipv6 list \<Rightarrow> ipv6 \<Rightarrow> bool"
  socket_ok :: bool
  bind_ok :: bool
  sx_htons :: "u16 \<Rightarrow> u16"
  sensor_modules :: bool
  lux :: int
  acc :: "int \<times> int \<times> int"
  temp :: int
  pres :: int
  mag :: "int \<times> int \<times> int"

datatype sx_eff =
  Echo_Request ipv6 string | Udp_Datagram ipv6 u16 string | Wakeup_Server | Print_Received string

definition MAX_PAYLOAD_SIZE :: nat where "MAX_PAYLOAD_SIZE = 32"
definition SX_BUFFER_SIZE :: nat where "SX_BUFFER_SIZE = 128"
definition ICMP_ECHO_REPLY_RCVD :: u16 where "ICMP_ECHO_REPLY_RCVD = 4444"
definition ICMP_TIMEOUT :: "64 word" where "ICMP_TIMEOUT = 100"
definition PROTO_NUM_ICMPV6 :: u8 where "PROTO_NUM_ICMPV6 = 58"
definition ICMPV6_TYPE_ECHO_REPLY :: u8 where "ICMPV6_TYPE_ECHO_REPLY = 129"

text \<open>The destination is added to the neighbour cache if it is not in it.\<close>

definition sixlowapp_ndp_workaround :: "sx_ext \<Rightarrow> ipv6 \<Rightarrow> sixlow \<Rightarrow> sixlow" where
  "sixlowapp_ndp_workaround X dest s =
     (if cache_search X (neighbours s) dest then s else s\<lparr>neighbours := neighbours s @ [dest]\<rparr>)"

section \<open>The monitor\<close>

text \<open>A received packet: its source, the next header, and the first byte behind its header.\<close>

record sx_packet =
  p_src :: ipv6
  p_nextheader :: u8
  p_type :: u8

datatype sx_msg = Ipv6_Packet_Received sx_packet | Other_Type u16

definition is_echo_reply :: "sx_packet \<Rightarrow> bool" where
  "is_echo_reply p \<longleftrightarrow> p_nextheader p = PROTO_NUM_ICMPV6 \<and> p_type p = ICMPV6_TYPE_ECHO_REPLY"

definition sixlowapp_monitor :: "sx_ext \<Rightarrow> sx_msg \<Rightarrow> sixlow \<Rightarrow> sixlow" where
  "sixlowapp_monitor X m s =
     (case m of Other_Type _ \<Rightarrow> s
      | Ipv6_Packet_Received p \<Rightarrow>
          (let s = (if is_echo_reply p \<and> waiting_for_pong s \<noteq> 0
                    then s\<lparr>waiting_for_pong := 0, pending := pending s @ [ICMP_ECHO_REPLY_RCVD]\<rparr> else s)
           in if cache_search X (neighbours s) (p_src p) then s
              else s\<lparr>neighbours := neighbours s @ [p_src p]\<rparr>))"

section \<open>Waiting for a message\<close>

text \<open>
  What happens while the shell waits, with its time: a message for the monitor, a message of
  another thread for the shell, or the end of the timer that the receiving call has set.
\<close>

datatype sx_event = Monitor "64 word" sx_msg | Message "64 word" u16 | Expired "64 word"

text \<open>
  Waiting for a type of messages, from the time \<open>t1\<close>: the result is what it returns, nothing if it
  still waits when the events are over, the state, and the events that are left.
\<close>

function sixlowapp_wait_for_msg_type ::
  "sx_ext \<Rightarrow> u16 \<Rightarrow> 64 word \<Rightarrow> 64 word \<Rightarrow> 64 word \<Rightarrow> sx_event list \<Rightarrow> sixlow \<Rightarrow>
   64 word option \<times> sixlow \<times> sx_event list" where
  "sixlowapp_wait_for_msg_type X mt t1 delta timeout es s =
     (if \<not> timex_cmp X delta timeout < 0 then (Some 0, s, es)
      else
        (case pending s of
           m # ms \<Rightarrow>
             (let delta = timex_sub X (sx_now s) t1; s = s\<lparr>pending := ms\<rparr>
              in if m = mt then (Some delta, s, es)
                 else sixlowapp_wait_for_msg_type X mt t1 delta (timex_sub X timeout delta) es s)
         | [] \<Rightarrow>
             (case es of
                [] \<Rightarrow> (None, s, [])
              | Expired t # es \<Rightarrow> (Some 0, s\<lparr>sx_now := t\<rparr>, es)
              | Message t m # es \<Rightarrow>
                  sixlowapp_wait_for_msg_type X mt t1 delta timeout es (s\<lparr>sx_now := t, pending := [m]\<rparr>)
              | Monitor t m # es \<Rightarrow>
                  sixlowapp_wait_for_msg_type X mt t1 delta timeout es
                    (sixlowapp_monitor X m (s\<lparr>sx_now := t\<rparr>)))))"
  by pat_completeness auto
termination
  by (relation "measure (\<lambda>(X, mt, t1, delta, timeout, es, s). 2 * length es + length (pending s))")
    (auto simp: sixlowapp_monitor_def Let_def split: sx_msg.splits)

declare sixlowapp_wait_for_msg_type.simps [simp del]

text \<open>The events between two commands.\<close>

definition sx_idle :: "sx_ext \<Rightarrow> sixlow \<Rightarrow> sx_event \<Rightarrow> sixlow" where
  "sx_idle X s e =
     (case e of Monitor t m \<Rightarrow> sixlowapp_monitor X m (s\<lparr>sx_now := t\<rparr>)
      | Message t m \<Rightarrow> s\<lparr>sx_now := t, pending := pending s @ [m]\<rparr>
      | Expired t \<Rightarrow> s\<lparr>sx_now := t\<rparr>)"

section \<open>The echo request\<close>

datatype ping_result = Usage | Invalid_Address | Reply "64 word" | Unreachable | Still_Waiting

text \<open>\<^verbatim>\<open>sizeof(icmp_data)\<close> is the size of a pointer, four on the boards of the Makefile.\<close>

definition sixlowapp_send_ping ::
  "sx_ext \<Rightarrow> string list \<Rightarrow> sx_event list \<Rightarrow> sixlow \<Rightarrow> ping_result \<times> sixlow \<times> sx_eff list \<times> sx_event list" where
  "sixlowapp_send_ping X argv es s =
     (if length argv \<noteq> 2 then (Usage, s, [], es)
      else
        (case inet_pton X (argv ! 1) of
           None \<Rightarrow> (Invalid_Address, s, [], es)
         | Some dest \<Rightarrow>
             (let s = (sixlowapp_ndp_workaround X dest s)\<lparr>waiting_for_pong := 1\<rparr>
              in case sixlowapp_wait_for_msg_type X ICMP_ECHO_REPLY_RCVD (sx_now s) 0 (ICMP_TIMEOUT * 1000) es s of
                   (rtt, s, es) \<Rightarrow>
                     ((case rtt of None \<Rightarrow> Still_Waiting
                       | Some t \<Rightarrow> if waiting_for_pong s = 0 then Reply t else Unreachable),
                      s, [Echo_Request dest (take 4 ''RIOT'')], es))))"

text \<open>Pings one after the other, each with the events until the next.\<close>

fun run_pings :: "sx_ext \<Rightarrow> sixlow \<Rightarrow> (string list \<times> sx_event list) list \<Rightarrow> ping_result list" where
  "run_pings X s [] = []"
| "run_pings X s ((argv, es) # rounds) =
     (case sixlowapp_send_ping X argv es s of
        (r, s, _, rest) \<Rightarrow> r # run_pings X (foldl (sx_idle X) s rest) rounds)"

section \<open>Netcat\<close>

text \<open>The text of a sensor.\<close>

definition triple_text :: "int \<times> int \<times> int \<Rightarrow> string \<Rightarrow> string" where
  "triple_text v name = (case v of (x, y, z) \<Rightarrow> fmt_i x @ '':'' @ fmt_i y @ '':'' @ fmt_i z @ '' '' @ name)"

definition sensor_text :: "sx_ext \<Rightarrow> int \<Rightarrow> string" where
  "sensor_text X sensor_id =
     (if sensor_id = 1 then fmt_i (lux X) @ '' LUX''
      else if sensor_id = 2 then triple_text (acc X) ''ACC''
      else if sensor_id = 3 then fmt_i (temp X) @ '' m'' @ [CHR 0xC2, CHR 0xB0] @ ''C''
      else if sensor_id = 4 then fmt_i (pres X) @ '' mBar''
      else triple_text (mag X) ''MAG'')"

text \<open>
  The text to send is put into \<open>payload\<close>, of 32 characters; the result is its new content and the
  number of characters to send.
\<close>

definition fill_payload :: "sx_ext \<Rightarrow> string list \<Rightarrow> string \<Rightarrow> fault + string \<times> nat" where
  "fill_payload X argv payload =
     (if length argv > 3 then
        (if sensor_modules X \<and> atoi (argv ! 3) \<noteq> 0 then
           (let text = sensor_text X (atoi (argv ! 3))
            in and_then (mem_write payload 0 (take (MAX_PAYLOAD_SIZE - 1) text @ [CHR 0x00])) (\<lambda>payload.
                 Inr (payload, length text)))
         else
           (let text = argv ! 3;
                plen = (if length text > MAX_PAYLOAD_SIZE then MAX_PAYLOAD_SIZE else length text + 1)
            in and_then (mem_write payload 0 (take plen (text @ [CHR 0x00]))) (\<lambda>payload.
               and_then (mem_write payload (int plen - 1) [CHR 0x00]) (\<lambda>payload.
                 Inr (payload, plen)))))
      else
        and_then (mem_write payload 0 (''RIOT'' @ [CHR 0x00])) (\<lambda>payload. Inr (payload, 5)))"

definition sixlowapp_udp_send :: "sx_ext \<Rightarrow> ipv6 \<Rightarrow> u16 \<Rightarrow> string \<Rightarrow> nat \<Rightarrow> fault + sx_eff list" where
  "sixlowapp_udp_send X dest port payload len =
     (if \<not> socket_ok X then Inr []
      else if len > length payload then Inl OutOfBounds
      else Inr [Udp_Datagram dest (sx_htons X port) (take len payload)])"

definition sixlowapp_netcat :: "sx_ext \<Rightarrow> string list \<Rightarrow> sixlow \<Rightarrow> fault + sixlow \<times> sx_eff list" where
  "sixlowapp_netcat X argv s =
     (if length argv < 3 then Inr (s, [])
      else if length (argv ! 1) = 2 then
        (if argv ! 1 \<noteq> ''-l'' then Inr (s, [])
         else Inr (s\<lparr>listen_port := word_of_int (atoi (argv ! 2))\<rparr>, [Wakeup_Server]))
      else
        (case inet_pton X (argv ! 1) of
           None \<Rightarrow> Inr (s, [])
         | Some dest \<Rightarrow>
             (let s = sixlowapp_ndp_workaround X dest s
              in and_then (fill_payload X argv (nc_payload s)) (\<lambda>(payload, plen).
                 and_then (sixlowapp_udp_send X dest (word_of_int (atoi (argv ! 2))) payload plen) (\<lambda>es.
                   Inr (s\<lparr>nc_payload := payload\<rparr>, es))))))"

text \<open>
  One round of the server, with the address it is bound to: it sleeps without a port, and prints
  what its buffer holds after the call, whether something was received or not.
\<close>

definition server_port :: "sx_ext \<Rightarrow> sixlow \<Rightarrow> u16" where
  "server_port X s = sx_htons X (listen_port s)"

definition sixlowapp_udp_server_loop ::
  "sx_ext \<Rightarrow> string option \<Rightarrow> sixlow \<Rightarrow> fault + sixlow \<times> sx_eff list" where
  "sixlowapp_udp_server_loop X received s =
     (if listen_port s = 0 then Inr (s, [])
      else if \<not> bind_ok X then Inr (s\<lparr>listen_port := 0\<rparr>, [])
      else
        (let buf = (case received of None \<Rightarrow> buffer_main s
                    | Some d \<Rightarrow> take SX_BUFFER_SIZE d @ drop (length d) (buffer_main s))
         in and_then (mem_string buf 0) (\<lambda>text.
              Inr (s\<lparr>buffer_main := buf, listen_port := 0\<rparr>, [Print_Received text]))))"

section \<open>The start\<close>

text \<open>The sensors are initialised one after the other until one call fails.\<close>

definition sixlowapp_sensor_init :: "sx_ext \<Rightarrow> int list \<Rightarrow> int" where
  "sixlowapp_sensor_init X results = (if sensor_modules X \<and> list_ex (\<lambda>r. r \<noteq> 0) results then -1 else 0)"

definition sixlow_start :: "string \<Rightarrow> sixlow" where
  "sixlow_start stack =
     \<lparr>waiting_for_pong = 0, listen_port = 0, nc_payload = replicate MAX_PAYLOAD_SIZE (CHR 0x00),
      buffer_main = stack, neighbours = [], pending = [], sx_now = 0\<rparr>"

end
