(* ===== verification/Sixlow_Props.thy ===== *)
theory Sixlow_Props
  imports Sixlow_App
begin

text \<open>
  The properties of the 6LoWPAN example: the verdict of an echo request, whatever packets the
  monitor sees; what a reply that comes too late does to all later requests; and what netcat
  prints on the other node.
\<close>

section \<open>Echo requests\<close>

text \<open>RIOT's times: subtraction where the result is not negative, and comparison.\<close>

definition timex_ok :: "sx_ext \<Rightarrow> bool" where
  "timex_ok X \<longleftrightarrow> (\<forall>a b. b \<le> a \<longrightarrow> timex_sub X a b = a - b) \<and> (\<forall>a b. timex_cmp X a b < 0 \<longleftrightarrow> a < b)"

definition reply_event :: "sx_event \<Rightarrow> bool" where
  "reply_event e = (case e of Monitor _ (Ipv6_Packet_Received p) \<Rightarrow> is_echo_reply p | _ \<Rightarrow> False)"

definition packet_event :: "sx_event \<Rightarrow> bool" where
  "packet_event e = (case e of Monitor _ _ \<Rightarrow> True | _ \<Rightarrow> False)"

fun ev_time :: "sx_event \<Rightarrow> 64 word" where
  "ev_time (Monitor t _) = t"
| "ev_time (Message t _) = t"
| "ev_time (Expired t) = t"

lemma monitor_idle:
  "\<not> reply_event (Monitor t m) \<or> waiting_for_pong s = 0 \<Longrightarrow>
   pending (sixlowapp_monitor X m s) = pending s \<and>
   waiting_for_pong (sixlowapp_monitor X m s) = waiting_for_pong s \<and>
   sx_now (sixlowapp_monitor X m s) = sx_now s"
  by (auto simp: sixlowapp_monitor_def reply_event_def Let_def split: sx_msg.splits)

lemma monitor_reply:
  "reply_event (Monitor t m) \<Longrightarrow> waiting_for_pong s \<noteq> 0 \<Longrightarrow>
   pending (sixlowapp_monitor X m s) = pending s @ [ICMP_ECHO_REPLY_RCVD] \<and>
   waiting_for_pong (sixlowapp_monitor X m s) = 0 \<and> sx_now (sixlowapp_monitor X m s) = sx_now s"
  by (auto simp: sixlowapp_monitor_def reply_event_def Let_def split: sx_msg.splits)

text \<open>While only packets arrive, waiting goes on until the first reply or the end of the timer.\<close>

lemma wait_packets:
  assumes "timex_ok X" "0 < timeout" "pending s = []" "waiting_for_pong s \<noteq> 0"
    and "list_all packet_event ps"
  shows "sixlowapp_wait_for_msg_type X ICMP_ECHO_REPLY_RCVD t1 0 timeout (ps @ Expired te # es) s = (r, s', rest) \<Longrightarrow>
    (case dropWhile (\<lambda>e. \<not> reply_event e) ps of
       e # ps' \<Rightarrow> r = Some (timex_sub X (ev_time e) t1) \<and> rest = ps' @ Expired te # es \<and>
                 pending s' = [] \<and> waiting_for_pong s' = 0 \<and> sx_now s' = ev_time e
     | [] \<Rightarrow> r = Some 0 \<and> rest = es \<and> pending s' = [] \<and> waiting_for_pong s' = waiting_for_pong s)"
  using assms(3-5)
proof (induction ps arbitrary: s)
  case Nil
  have "timex_cmp X 0 timeout < 0" using assms(1,2) by (simp add: timex_ok_def)
  with Nil show ?case by (auto simp: sixlowapp_wait_for_msg_type.simps)
next
  case (Cons e ps)
  have lt: "timex_cmp X 0 timeout < 0" using assms(1,2) by (simp add: timex_ok_def)
  from Cons.prems obtain t m where e: "e = Monitor t m" by (cases e) (auto simp: packet_event_def)
  let ?s = "sixlowapp_monitor X m (s\<lparr>sx_now := t\<rparr>)"
  have w: "sixlowapp_wait_for_msg_type X ICMP_ECHO_REPLY_RCVD t1 0 timeout (ps @ Expired te # es) ?s = (r, s', rest)"
    using Cons.prems(1,2) lt e by (simp add: sixlowapp_wait_for_msg_type.simps [of X _ _ _ _ "Monitor t m # _"])
  show ?case
  proof (cases "reply_event e")
    case True
    then have "pending ?s = [ICMP_ECHO_REPLY_RCVD]" "waiting_for_pong ?s = 0" "sx_now ?s = t"
      using monitor_reply [of t m "s\<lparr>sx_now := t\<rparr>" X] Cons.prems(2,3) e by auto
    with w lt True e show ?thesis by (auto simp: sixlowapp_wait_for_msg_type.simps [of _ _ _ _ _ "ps @ _"] Let_def)
  next
    case False
    then have "pending ?s = []" "waiting_for_pong ?s = waiting_for_pong s"
      using monitor_idle [of t m "s\<lparr>sx_now := t\<rparr>" X] Cons.prems(2) e by auto
    with Cons.IH [OF w] Cons.prems False show ?thesis
      by (cases "dropWhile (\<lambda>e. \<not> reply_event e) ps") (simp_all del: dropWhile_eq_Nil_conv)
  qed
qed

lemma workaround_simps [simp]:
  "pending (sixlowapp_ndp_workaround X d s) = pending s" "sx_now (sixlowapp_ndp_workaround X d s) = sx_now s"
  by (simp_all add: sixlowapp_ndp_workaround_def)

text \<open>
  C37. The verdict of an echo request: if only packets arrive at the node, in any number and
  of any kind, until the timer ends, the command reports a reply exactly if there is an echo
  reply among them, with the time from the request to the first one; and no message is left
  for the shell, so the next request starts like this one. The host the reply comes from is
  not looked at.
\<close>

theorem ping_verdict:
  assumes "timex_ok X" "inet_pton X a = Some dest" "pending s = []"
    and "list_all packet_event ps" "\<forall>e\<in>set ps. sx_now s \<le> ev_time e"
    and "sixlowapp_send_ping X [c, a] (ps @ Expired te # es) s = (r, s', fs, rest)"
  shows "fs = [Echo_Request dest ''RIOT''] \<and> pending s' = [] \<and>
    r = (case filter reply_event ps of e # _ \<Rightarrow> Reply (ev_time e - sx_now s) | [] \<Rightarrow> Unreachable)"
proof -
  let ?s = "(sixlowapp_ndp_workaround X dest s)\<lparr>waiting_for_pong := 1\<rparr>"
  obtain r1 s1 rest1 where w: "sixlowapp_wait_for_msg_type X ICMP_ECHO_REPLY_RCVD (sx_now s) 0 (ICMP_TIMEOUT * 1000)
      (ps @ Expired te # es) ?s = (r1, s1, rest1)"
    by (metis prod_cases3)
  have pos: "0 < ICMP_TIMEOUT * 1000" by (simp add: ICMP_TIMEOUT_def)
  note wp = wait_packets [OF assms(1) pos _ _ assms(4) w]
  have q: "r = (case r1 of None \<Rightarrow> Still_Waiting | Some t \<Rightarrow> if waiting_for_pong s1 = 0 then Reply t else Unreachable)"
    "s' = s1" "fs = [Echo_Request dest ''RIOT'']"
    using assms(2,6) w by (auto simp: sixlowapp_send_ping_def Let_def)
  show ?thesis
  proof (cases "filter reply_event ps")
    case Nil
    then have "dropWhile (\<lambda>e. \<not> reply_event e) ps = []" by (simp add: dropWhile_eq_Nil_conv filter_empty_conv)
    with wp assms(3) q Nil show ?thesis by simp
  next
    case (Cons e es')
    then obtain us vs where d: "ps = us @ e # vs" "\<forall>u\<in>set us. \<not> reply_event u" "reply_event e"
      by (auto simp: filter_eq_Cons_iff)
    then have "dropWhile (\<lambda>e. \<not> reply_event e) ps = e # vs" by (simp add: dropWhile_append3)
    moreover have "timex_sub X (ev_time e) (sx_now s) = ev_time e - sx_now s"
      using assms(1,5) d(1) by (simp add: timex_ok_def)
    ultimately show ?thesis using wp assms(3) q Cons by simp
  qed
qed

text \<open>
  A message of another kind after half of the time ends the wait, whatever comes then: the time
  since the start is compared with what is left after it was subtracted.
\<close>

lemma ping_gives_up_early:
  assumes "timex_ok X" "inet_pton X a = Some dest" "pending s = []" "m \<noteq> ICMP_ECHO_REPLY_RCVD"
    and "sx_now s \<le> t" "t - sx_now s \<le> ICMP_TIMEOUT * 1000" "t - sx_now s \<ge> ICMP_TIMEOUT * 500"
  shows "fst (sixlowapp_send_ping X [c, a] (Message t m # es) s) = Unreachable"
proof -
  let ?d = "t - sx_now s"
  have n: "0 < ICMP_TIMEOUT * 1000" by (simp add: ICMP_TIMEOUT_def)
  have "ICMP_TIMEOUT * 1000 - ?d \<le> ?d"
    using assms(6,7) unfolding ICMP_TIMEOUT_def by (simp add: word_le_nat_alt unat_sub_if_size word_size)
  then have "\<not> timex_cmp X ?d (ICMP_TIMEOUT * 1000 - ?d) < 0"
    using assms(1) by (simp add: timex_ok_def not_less)
  then show ?thesis
    using assms n
    by (simp add: sixlowapp_send_ping_def sixlowapp_wait_for_msg_type.simps timex_ok_def Let_def)
qed

section \<open>A late reply\<close>

lemma idle_packets:
  assumes "list_all packet_event es" "pending s = []" "waiting_for_pong s \<noteq> 0"
  shows "if list_ex reply_event es
    then pending (foldl (sx_idle X) s es) = [ICMP_ECHO_REPLY_RCVD] \<and> waiting_for_pong (foldl (sx_idle X) s es) = 0
    else pending (foldl (sx_idle X) s es) = [] \<and> waiting_for_pong (foldl (sx_idle X) s es) \<noteq> 0"
proof -
  have quiet: "pending (foldl (sx_idle X) s es) = pending s \<and> waiting_for_pong (foldl (sx_idle X) s es) = 0"
    if "list_all packet_event es" "waiting_for_pong s = 0" for es s
    using that
  proof (induction es arbitrary: s)
    case (Cons e es)
    then obtain t m where e: "e = Monitor t m" by (cases e) (auto simp: packet_event_def)
    show ?case using Cons.IH [of "sx_idle X s e"] Cons.prems monitor_idle [of t m "s\<lparr>sx_now := t\<rparr>" X] e
      by (simp add: sx_idle_def)
  qed simp
  show ?thesis using assms
  proof (induction es arbitrary: s)
    case (Cons e es)
    then obtain t m where e: "e = Monitor t m" by (cases e) (auto simp: packet_event_def)
    let ?t = "sixlowapp_monitor X m (s\<lparr>sx_now := t\<rparr>)"
    have i: "sx_idle X s e = ?t" by (simp add: sx_idle_def e)
    show ?case
    proof (cases "reply_event e")
      case True
      then have "pending ?t = [ICMP_ECHO_REPLY_RCVD]" "waiting_for_pong ?t = 0"
        using Cons.prems monitor_reply [of t m "s\<lparr>sx_now := t\<rparr>" X] e by auto
      with quiet [of es ?t] Cons.prems True i show ?thesis by simp
    next
      case False
      then have "pending ?t = []" "waiting_for_pong ?t \<noteq> 0"
        using Cons.prems monitor_idle [of t m "s\<lparr>sx_now := t\<rparr>" X] e by auto
      with Cons.IH [of ?t] Cons.prems False i show ?thesis by simp
    qed
  qed simp
qed

lemma pending_spoils:
  assumes "timex_ok X" "inet_pton X a = Some dest" "pending s = [ICMP_ECHO_REPLY_RCVD]"
    and "sixlowapp_send_ping X [c, a] es s = (r, s', fs, rest)"
  shows "r = Unreachable \<and> rest = es \<and> pending s' = [] \<and> waiting_for_pong s' = 1"
proof -
  have "timex_cmp X 0 (ICMP_TIMEOUT * 1000) < 0" using assms(1) by (simp add: timex_ok_def ICMP_TIMEOUT_def)
  with assms(2-4) show ?thesis
    by (auto simp: sixlowapp_send_ping_def sixlowapp_wait_for_msg_type.simps Let_def)
qed

text \<open>
  C38. One reply that comes too late spoils every later request: if the timer of the first
  request ends before its reply arrives, the first and all later requests are reported as
  unreachable, although each is answered before the next is made, however fast. The late
  message stays in the shell's queue; the next request takes it for its own answer and returns
  at once, and its reply is late in turn.
\<close>

theorem late_reply_spoils_pings:
  assumes "timex_ok X" "pending s = []"
    and "list_all packet_event ps" "\<not> list_ex reply_event ps"
    and "\<forall>(argv, es) \<in> set (([c, a], late) # rounds).
           (\<exists>c a d. argv = [c, a] \<and> inet_pton X a = Some d) \<and> list_all packet_event es \<and> list_ex reply_event es"
  shows "run_pings X s (([c, a], ps @ Expired te # late) # rounds) = replicate (length rounds + 1) Unreachable"
proof -
  have spoiled: "run_pings X s rounds = replicate (length rounds) Unreachable"
    if "pending s = [ICMP_ECHO_REPLY_RCVD]"
      and "\<forall>(argv, es) \<in> set rounds. (\<exists>c a d. argv = [c, a] \<and> inet_pton X a = Some d) \<and>
             list_all packet_event es \<and> list_ex reply_event es" for s rounds
    using that
  proof (induction rounds arbitrary: s)
    case (Cons round rounds)
    obtain argv es where round: "round = (argv, es)" by (cases round)
    with Cons.prems(2) obtain c a d where a: "argv = [c, a]" "inet_pton X a = Some d"
      and es: "list_all packet_event es" "list_ex reply_event es" by auto
    obtain r s1 fs rest where p: "sixlowapp_send_ping X [c, a] es s = (r, s1, fs, rest)" by (metis prod_cases4)
    from pending_spoils [OF assms(1) a(2) Cons.prems(1) p]
    have s1: "r = Unreachable" "rest = es" "pending s1 = []" "waiting_for_pong s1 = 1" by auto
    from idle_packets [OF es(1) s1(3), of X] s1(4) es(2)
    have "pending (foldl (sx_idle X) s1 es) = [ICMP_ECHO_REPLY_RCVD]" by simp
    with Cons.IH Cons.prems(2) p s1 round a(1) show ?case by simp
  qed simp
  from assms(5) obtain d where d: "inet_pton X a = Some d" and late: "list_all packet_event late" "list_ex reply_event late"
    by auto
  let ?s = "(sixlowapp_ndp_workaround X d s)\<lparr>waiting_for_pong := 1\<rparr>"
  obtain r1 s1 rest1 where w: "sixlowapp_wait_for_msg_type X ICMP_ECHO_REPLY_RCVD (sx_now s) 0 (ICMP_TIMEOUT * 1000)
      (ps @ Expired te # late) ?s = (r1, s1, rest1)"
    by (metis prod_cases3)
  have pos: "0 < ICMP_TIMEOUT * 1000" by (simp add: ICMP_TIMEOUT_def)
  have "dropWhile (\<lambda>e. \<not> reply_event e) ps = []" using assms(4) by (simp add: dropWhile_eq_Nil_conv list_ex_iff)
  with wait_packets [OF assms(1) pos _ _ assms(3) w] assms(2)
  have s1: "r1 = Some 0" "rest1 = late" "pending s1 = []" "waiting_for_pong s1 = 1" by auto
  from idle_packets [OF late(1) s1(3), of X] s1(4) late(2)
  have "pending (foldl (sx_idle X) s1 late) = [ICMP_ECHO_REPLY_RCVD]" by simp
  with spoiled [of _ rounds] assms(5) show ?thesis
    using w s1 d by (simp add: sixlowapp_send_ping_def Let_def)
qed

section \<open>Examples\<close>

definition ex_sx :: sx_ext where
  "ex_sx = \<lparr>timex_sub = (-), timex_cmp = (\<lambda>a b. if a < b then -1 else if a = b then 0 else 1),
     inet_pton = (\<lambda>a. if a = ''fe80::2'' then Some [0xfe80, 0, 0, 0, 0, 0, 0, 2] else None),
     cache_search = (\<lambda>ns a. a \<in> set ns), socket_ok = True, bind_ok = True, sx_htons = id,
     sensor_modules = False, lux = 0, acc = (0, 0, 0), temp = 0, pres = 0, mag = (0, 0, 0)\<rparr>"

definition ex_reply :: "64 word \<Rightarrow> sx_event" where
  "ex_reply t = Monitor t (Ipv6_Packet_Received \<lparr>p_src = [0xfe80, 0, 0, 0, 0, 0, 0, 2], p_nextheader = 58, p_type = 129\<rparr>)"

definition ex_other :: "64 word \<Rightarrow> sx_event" where
  "ex_other t = Monitor t (Ipv6_Packet_Received \<lparr>p_src = [0xfe80, 0, 0, 0, 0, 0, 0, 3], p_nextheader = 17, p_type = 129\<rparr>)"

lemma ex_timex: "timex_ok ex_sx"
  by (simp add: timex_ok_def ex_sx_def)

lemma ex_events [simp]:
  "reply_event (ex_reply t)" "\<not> reply_event (ex_other t)" "packet_event (ex_reply t)" "packet_event (ex_other t)"
  "ev_time (ex_reply t) = t" "ev_time (ex_other t) = t"
  by (simp_all add: reply_event_def packet_event_def ex_reply_def ex_other_def is_echo_reply_def
      PROTO_NUM_ICMPV6_def ICMPV6_TYPE_ECHO_REPLY_def)

lemma ex_address [simp]: "inet_pton ex_sx ''fe80::2'' = Some [0xfe80, 0, 0, 0, 0, 0, 0, 2]"
  by (simp add: ex_sx_def)

lemma ping_verdict_witness:
  "fst (sixlowapp_send_ping ex_sx [''ping'', ''fe80::2''] ([ex_other 10, ex_reply 700, ex_reply 800] @ Expired 900 # [])
     (sixlow_start [])) = Reply 700"
proof -
  let ?s = "sixlow_start []" and ?es = "[ex_other 10, ex_reply 700, ex_reply 800]"
  obtain r s' fs rest where p: "sixlowapp_send_ping ex_sx [''ping'', ''fe80::2''] (?es @ Expired 900 # []) ?s = (r, s', fs, rest)"
    by (metis prod_cases4)
  have "r = Reply 700" using ping_verdict [OF ex_timex ex_address _ _ _ p] by (simp add: sixlow_start_def)
  then show ?thesis using p by simp
qed

lemma late_reply_spoils_pings_witness:
  "run_pings ex_sx (sixlow_start [])
     [([''ping'', ''fe80::2''], [ex_other 10] @ Expired 100000 # [ex_reply 100100]),
      ([''ping'', ''fe80::2''], [ex_reply 200700]), ([''ping'', ''fe80::2''], [ex_reply 300700, ex_other 300800])] =
   replicate (length [([''ping'', ''fe80::2''], [ex_reply 200700]),
                      ([''ping'', ''fe80::2''], [ex_reply 300700, ex_other 300800])] + 1) Unreachable"
  by (rule late_reply_spoils_pings [OF ex_timex]) (simp_all add: sixlow_start_def)

section \<open>Netcat\<close>

lemma sent_text:
  assumes "length payload = MAX_PAYLOAD_SIZE" "length argv > 3" "\<not> sensor_modules X \<or> atoi (argv ! 3) = 0"
  shows "fill_payload X argv payload =
    (let text = argv ! 3 in
     if length text = 32 then Inl OutOfBounds
     else Inr (take 31 text @ CHR 0x00 # drop (min 32 (length text + 1)) payload, min 32 (length text + 1)))"
proof -
  define m where "m = argv ! 3"
  have plain: "fill_payload X argv payload =
      (let plen = (if length m > MAX_PAYLOAD_SIZE then MAX_PAYLOAD_SIZE else length m + 1)
       in and_then (mem_write payload 0 (take plen (m @ [CHR 0x00]))) (\<lambda>payload.
          and_then (mem_write payload (int plen - 1) [CHR 0x00]) (\<lambda>payload. Inr (payload, plen))))"
    using assms(2,3) by (auto simp: fill_payload_def m_def Let_def)
  consider "length m < 32" | "length m = 32" | "length m > 32" by linarith
  then show ?thesis
  proof cases
    case 1
    then show ?thesis unfolding plain m_def [symmetric] using assms(1)
      by (simp add: mem_write_def MAX_PAYLOAD_SIZE_def Let_def nat_add_distrib)
  next
    case 2
    then show ?thesis unfolding plain m_def [symmetric] using assms(1)
      by (simp add: mem_write_def MAX_PAYLOAD_SIZE_def Let_def)
  next
    case 3
    then show ?thesis unfolding plain m_def [symmetric] using assms(1)
      by (simp add: mem_write_def MAX_PAYLOAD_SIZE_def Let_def min_def)
  qed
qed

lemma listen_command:
  "sixlowapp_netcat Y [c, ''-l'', dec p] t = Inr (t\<lparr>listen_port := of_nat p\<rparr>, [Wakeup_Server])"
  using atoi_all_digits [OF all_digits_dec, of p] decnum_dec [of p]
  by (simp add: sixlowapp_netcat_def)

text \<open>
  C39. From one netcat to the other: a text given to \<^verbatim>\<open>nc\<close> on one node is printed by the node that
  listens at the port, up to 31 characters of it, exactly, whatever both buffers held before,
  and the server stops listening. A text of exactly 32 characters is copied past the end of the
  payload, with its final 0.
\<close>

theorem netcat_delivers:
  assumes "CHR 0x00 \<notin> set text" "length a \<noteq> 2" "inet_pton X a = Some dest" "socket_ok X" "bind_ok Y"
    and "\<not> sensor_modules X \<or> atoi text = 0" "sx_htons Y = sx_htons X"
    and "length (nc_payload s) = 32" "length (buffer_main t) = 128" "0 < p" "p < 2 ^ 16"
    and "sixlowapp_netcat Y [c', ''-l'', dec p] t = Inr (t1, es)"
  shows "if length text = 32 then sixlowapp_netcat X [c, a, dec p, text] s = Inl OutOfBounds
    else \<exists>s' d t2. sixlowapp_netcat X [c, a, dec p, text] s = Inr (s', [Udp_Datagram dest (server_port Y t1) d]) \<and>
      sixlowapp_udp_server_loop Y (Some d) t1 = Inr (t2, [Print_Received (take 31 text)]) \<and>
      listen_port t2 = 0 \<and> length (nc_payload s') = 32 \<and> length (buffer_main t2) = 128"
proof -
  have t1: "t1 = t\<lparr>listen_port := of_nat p\<rparr>" using assms(12) by (simp add: listen_command)
  have port: "word_of_int (atoi (dec p)) = (of_nat p :: u16)"
    using atoi_all_digits [OF all_digits_dec, of p] decnum_dec [of p] by simp
  have p0: "(of_nat p :: u16) \<noteq> 0"
    using assms(10,11) by (simp add: word_of_nat_eq_0_iff nat_dvd_not_less)
  define w where "w = sixlowapp_ndp_workaround X dest s"
  have w: "length (nc_payload w) = MAX_PAYLOAD_SIZE"
    using assms(8) by (simp add: w_def sixlowapp_ndp_workaround_def MAX_PAYLOAD_SIZE_def)
  have fill: "fill_payload X [c, a, dec p, text] (nc_payload w) =
      (if length text = 32 then Inl OutOfBounds
       else Inr (take 31 text @ CHR 0x00 # drop (min 32 (length text + 1)) (nc_payload w), min 32 (length text + 1)))"
    using sent_text [OF w, of "[c, a, dec p, text]" X] assms(6) by (simp add: Let_def)
  have nc: "sixlowapp_netcat X [c, a, dec p, text] s =
      and_then (fill_payload X [c, a, dec p, text] (nc_payload w)) (\<lambda>(payload, plen).
        and_then (sixlowapp_udp_send X dest (of_nat p) payload plen) (\<lambda>es. Inr (w\<lparr>nc_payload := payload\<rparr>, es)))"
    using assms(2,3) by (simp add: sixlowapp_netcat_def w_def port Let_def)
  show ?thesis
  proof (cases "length text = 32")
    case True
    then show ?thesis by (simp add: nc fill)
  next
    case False
    let ?d = "take 31 text @ [CHR 0x00]"
    let ?buf = "take 31 text @ CHR 0x00 # drop (length ?d) (buffer_main t)"
    have k: "min 32 (length text + 1) = length (take 31 text) + 1" by (simp add: min_def)
    have sent: "sixlowapp_netcat X [c, a, dec p, text] s =
        Inr (w\<lparr>nc_payload := take 31 text @ CHR 0x00 # drop (length ?d) (nc_payload w)\<rparr>,
             [Udp_Datagram dest (server_port Y t1) ?d])"
    proof -
      define x where "x = take 31 text"
      have k: "min 32 (length text + 1) = length x + 1" using k by (simp add: x_def)
      show ?thesis
        using False assms(4,7) w unfolding nc fill k x_def [symmetric]
        by (simp add: sixlowapp_udp_send_def server_port_def t1 MAX_PAYLOAD_SIZE_def)
    qed
    have "CHR 0x00 \<notin> set (take 31 text)" using assms(1) in_set_takeD by fast
    then have "mem_string ?buf 0 = Inr (take 31 text)" by (rule mem_string_start)
    moreover have "take SX_BUFFER_SIZE ?d @ drop (length ?d) (buffer_main t1) = ?buf"
      by (simp add: SX_BUFFER_SIZE_def t1)
    ultimately have "sixlowapp_udp_server_loop Y (Some ?d) t1 =
        Inr (t1\<lparr>buffer_main := ?buf, listen_port := 0\<rparr>, [Print_Received (take 31 text)])"
      using assms(5) p0 unfolding sixlowapp_udp_server_loop_def by (simp add: t1 Let_def)
    moreover have "length ?buf = 128" using assms(9) by simp
    ultimately show ?thesis using False sent w by (auto simp: MAX_PAYLOAD_SIZE_def)
  qed
qed

text \<open>A full buffer's worth of the letter x, and what is printed of it, and the text that is one too long.\<close>

lemma netcat_delivers_witness:
  "(\<exists>s' d t2. sixlowapp_netcat ex_sx [''nc'', ''fe80::2'', dec 7, replicate 40 CHR ''x''] (sixlow_start []) =
      Inr (s', [Udp_Datagram [0xfe80, 0, 0, 0, 0, 0, 0, 2] 7 d]) \<and>
    sixlowapp_udp_server_loop ex_sx (Some d) ((sixlow_start (replicate 128 CHR ''?''))\<lparr>listen_port := 7\<rparr>) =
      Inr (t2, [Print_Received (replicate 31 CHR ''x'')])) \<and>
   sixlowapp_netcat ex_sx [''nc'', ''fe80::2'', dec 7, replicate 32 CHR ''x''] (sixlow_start []) = Inl OutOfBounds"
proof -
  let ?t = "sixlow_start (replicate 128 CHR ''?'')"
  have a: "CHR 0x00 \<notin> set (replicate n CHR ''x'')" "length ''fe80::2'' \<noteq> 2" "socket_ok ex_sx" "bind_ok ex_sx"
    "\<not> sensor_modules ex_sx \<or> atoi (replicate n CHR ''x'') = 0" "length (nc_payload (sixlow_start [])) = 32"
    "length (buffer_main ?t) = 128" for n
    by (simp_all add: ex_sx_def sixlow_start_def MAX_PAYLOAD_SIZE_def)
  have l: "sixlowapp_netcat ex_sx [''nc'', ''-l'', dec 7] ?t = Inr (?t\<lparr>listen_port := of_nat 7\<rparr>, [Wakeup_Server])"
    by (rule listen_command)
  note long = netcat_delivers [OF a(1) [of 40] a(2) ex_address a(3,4) a(5) [of 40] refl a(6,7) _ _ l, where c = "''nc''"]
  note full = netcat_delivers [OF a(1) [of 32] a(2) ex_address a(3,4) a(5) [of 32] refl a(6,7) _ _ l, where c = "''nc''"]
  show ?thesis using long full
    by (auto simp: server_port_def ex_sx_def take_replicate)
qed

text \<open>
  A sensor's text is sent without its final 0, so the server prints it with the rest of what its
  buffer held; and it prints its buffer too when nothing was received.
\<close>

lemma sensor_text_sent:
  assumes "sensor_modules X" "atoi n \<noteq> 0" "length a \<noteq> 2" "inet_pton X a = Some dest" "socket_ok X"
    and "length (nc_payload s) = 32" "length (sensor_text X (atoi n)) \<le> 31"
  shows "\<exists>s'. sixlowapp_netcat X [c, a, p, n] s =
    Inr (s', [Udp_Datagram dest (sx_htons X (word_of_int (atoi p))) (sensor_text X (atoi n))])"
proof -
  have "length (nc_payload (sixlowapp_ndp_workaround X dest s)) = 32"
    using assms(6) by (simp add: sixlowapp_ndp_workaround_def)
  with assms show ?thesis
    by (simp add: sixlowapp_netcat_def fill_payload_def mem_write_def sixlowapp_udp_send_def MAX_PAYLOAD_SIZE_def Let_def)
qed

lemma sensor_text_unterminated:
  assumes "bind_ok Y" "listen_port t \<noteq> 0" "length text \<le> 128" "CHR 0x00 \<notin> set text"
    and "buffer_main t = old @ CHR 0x00 # r" "CHR 0x00 \<notin> set old" "length text \<le> length old"
  shows "\<exists>t'. sixlowapp_udp_server_loop Y (Some text) t = Inr (t', [Print_Received (text @ drop (length text) old)])"
proof -
  have "mem_string (text @ drop (length text) old @ CHR 0x00 # r) 0 = Inr (text @ drop (length text) old)"
    using mem_string_start [of "text @ drop (length text) old" r] assms(4,6) by (auto dest: in_set_dropD)
  with assms show ?thesis by (simp add: sixlowapp_udp_server_loop_def SX_BUFFER_SIZE_def)
qed

lemma nothing_received_printed:
  assumes "bind_ok Y" "listen_port t \<noteq> 0" "mem_string (buffer_main t) 0 = Inr text"
  shows "sixlowapp_udp_server_loop Y None t = Inr (t\<lparr>listen_port := 0\<rparr>, [Print_Received text])"
  using assms by (simp add: sixlowapp_udp_server_loop_def)

end
