(* ===== verification/Udp_Shell.thy ===== *)
theory Udp_Shell
  imports Decimal Output_Runs
begin

text \<open>
  The shell command \<^verbatim>\<open>udp\<close> of the test applications, on RIOT's packet buffer
  (\<^verbatim>\<open>src/coap_test/udp.c\<close>, with a copy in \<^verbatim>\<open>src/gnrc_border_router\<close>) and on POSIX sockets
  (\<^verbatim>\<open>src/libcoap_client/posix.c\<close>). What RIOT's calls give is an argument, by the number of the
  packet where it may vary.
\<close>

section \<open>On the packet buffer\<close>

text \<open>The process and the port of \<^verbatim>\<open>server\<close>; the process 0 is \<^verbatim>\<open>KERNEL_PID_UNDEF\<close>.\<close>

record gnrc_server =
  g_pid :: u16
  g_demux :: u32

definition gnrc_start :: gnrc_server where "gnrc_start = \<lparr>g_pid = 0, g_demux = 0xffff0000\<rparr>"

record gnrc_ext =
  g_addr_from_str :: "string \<Rightarrow> u8 list option"
  g_payload_ok :: "nat \<Rightarrow> bool"
  g_udp_ok :: "nat \<Rightarrow> bool"
  g_ip_ok :: "nat \<Rightarrow> bool"
  g_dispatch_ok :: "nat \<Rightarrow> bool"
  pktdump_pid :: u16

text \<open>
  \<open>Snip\<close> is an allocation of the packet buffer, \<open>Release\<close> gives back a packet of so many snips, and
  \<open>Dispatch\<close> hands a packet of three on to the UDP thread.
\<close>

datatype gnrc_eff =
  Snip | Release nat | Dispatch "u8 list" "u8 list" string | Usleep u32
  | Register_Udp u32 | Unregister_Udp u32

fun gnrc_send_loop :: "gnrc_ext \<Rightarrow> u8 list \<Rightarrow> u8 list \<Rightarrow> string \<Rightarrow> u32 \<Rightarrow> nat \<Rightarrow> nat \<Rightarrow> gnrc_eff list" where
  "gnrc_send_loop X addr port data delay i 0 = []"
| "gnrc_send_loop X addr port data delay i (Suc n) =
     (if \<not> g_payload_ok X i then []
      else if \<not> g_udp_ok X i then [Snip, Release 1]
      else if \<not> g_ip_ok X i then [Snip, Snip, Release 2]
      else if \<not> g_dispatch_ok X i then [Snip, Snip, Snip, Release 3]
      else [Snip, Snip, Snip, Dispatch addr port data, Usleep delay] @ gnrc_send_loop X addr port data delay (i + 1) n)"

definition gnrc_send :: "gnrc_ext \<Rightarrow> string \<Rightarrow> string \<Rightarrow> string \<Rightarrow> u32 \<Rightarrow> u32 \<Rightarrow> gnrc_eff list" where
  "gnrc_send X addr_str port_str data num delay =
     (case g_addr_from_str X addr_str of
        None \<Rightarrow> []
      | Some addr \<Rightarrow>
          (let tmp = word_of_int (atoi port_str) :: u16
           in if tmp = 0 then []
              else gnrc_send_loop X addr [ucast tmp, ucast (drop_bit 8 tmp)] data delay 0 (unat num)))"

definition gnrc_start_server :: "gnrc_ext \<Rightarrow> string \<Rightarrow> gnrc_server \<Rightarrow> gnrc_server \<times> gnrc_eff list" where
  "gnrc_start_server X port_str s =
     (if g_pid s \<noteq> 0 then (s, [])
      else
        (let port = word_of_int (atoi port_str) :: u16
         in if port = 0 then (s, [])
            else (s\<lparr>g_pid := pktdump_pid X, g_demux := ucast port\<rparr>, [Register_Udp (ucast port)])))"

definition gnrc_stop_server :: "gnrc_server \<Rightarrow> gnrc_server \<times> gnrc_eff list" where
  "gnrc_stop_server s = (if g_pid s = 0 then (s, []) else (s\<lparr>g_pid := 0\<rparr>, [Unregister_Udp (g_demux s)]))"

text \<open>The optional arguments of \<^verbatim>\<open>send\<close>: the number of packets and the delay.\<close>

definition opt_arg :: "string list \<Rightarrow> nat \<Rightarrow> u32 \<Rightarrow> u32" where
  "opt_arg argv i preset = (if length argv > i then word_of_int (atoi (argv ! i)) else preset)"

definition gnrc_udp_cmd :: "gnrc_ext \<Rightarrow> gnrc_server \<Rightarrow> string list \<Rightarrow> gnrc_server \<times> gnrc_eff list" where
  "gnrc_udp_cmd X s argv =
     (if length argv < 2 then (s, [])
      else if argv ! 1 = ''send'' then
        (if length argv < 5 then (s, [])
         else (s, gnrc_send X (argv ! 2) (argv ! 3) (argv ! 4) (opt_arg argv 5 1) (opt_arg argv 6 1000000)))
      else if argv ! 1 = ''server'' then
        (if length argv < 3 then (s, [])
         else if argv ! 2 = ''start'' then (if length argv < 4 then (s, []) else gnrc_start_server X (argv ! 3) s)
         else if argv ! 2 = ''stop'' then gnrc_stop_server s
         else (s, []))
      else (s, []))"

section \<open>On POSIX sockets\<close>

text \<open>
  \<open>p_listening\<close> is the port that the server's thread is bound to, while it receives.
\<close>

record posix_server =
  server_socket :: int
  server_buffer :: string
  p_listening :: "u16 option"

definition SERVER_BUFFER_SIZE :: nat where "SERVER_BUFFER_SIZE = 64"

definition posix_start :: posix_server where
  "posix_start = \<lparr>server_socket = -1, server_buffer = replicate SERVER_BUFFER_SIZE (CHR 0x00), p_listening = None\<rparr>"

record posix_ext =
  new_socket :: int
  p_bind :: int
  p_thread :: int
  p_inet_pton :: "string \<Rightarrow> u8 list option"
  p_sendto :: "nat \<Rightarrow> int"

datatype posix_eff = Send_To "u8 list" u16 string int | P_Usleep u32 | P_Close | Received string

text \<open>The thread up to the first call that waits: the socket is opened before the port is looked at.\<close>

definition posix_server_thread :: "posix_ext \<Rightarrow> string \<Rightarrow> posix_server \<Rightarrow> posix_server" where
  "posix_server_thread X args s =
     (let s = s\<lparr>server_socket := new_socket X\<rparr>;
          port = word_of_int (atoi args) :: u16
      in if port = 0 then s
         else if server_socket s < 0 then s\<lparr>server_socket := 0\<rparr>
         else if p_bind X < 0 then s\<lparr>server_socket := -1\<rparr>
         else s\<lparr>p_listening := Some port\<rparr>)"

text \<open>One round of its loop, with the result of the call and what it wrote into the buffer.\<close>

definition posix_server_round :: "int \<Rightarrow> string \<Rightarrow> posix_server \<Rightarrow> fault + posix_server \<times> posix_eff list" where
  "posix_server_round res data s =
     (if res < 0 \<or> res = 0 then Inr (s, [])
      else
        (let buf = take SERVER_BUFFER_SIZE data @ drop (length data) (server_buffer s)
         in and_then (mem_string buf 0) (\<lambda>t. Inr (s\<lparr>server_buffer := buf\<rparr>, [Received t]))))"

fun posix_send_loop :: "posix_ext \<Rightarrow> u8 list \<Rightarrow> u16 \<Rightarrow> string \<Rightarrow> u32 \<Rightarrow> nat \<Rightarrow> nat \<Rightarrow> posix_eff list" where
  "posix_send_loop X dst port data delay i 0 = []"
| "posix_send_loop X dst port data delay i (Suc n) =
     [Send_To dst port data (p_sendto X i), P_Usleep delay] @ posix_send_loop X dst port data delay (i + 1) n"

definition posix_udp_send :: "posix_ext \<Rightarrow> string \<Rightarrow> string \<Rightarrow> string \<Rightarrow> u32 \<Rightarrow> u32 \<Rightarrow> int \<times> posix_eff list" where
  "posix_udp_send X addr_str port_str data num delay =
     (case p_inet_pton X addr_str of
        None \<Rightarrow> (1, [])
      | Some dst \<Rightarrow>
          if new_socket X < 0 then (1, [])
          else (0, posix_send_loop X dst (word_of_int (atoi port_str)) data delay 0 (unat num) @ [P_Close]))"

definition posix_udp_start_server :: "posix_ext \<Rightarrow> string \<Rightarrow> posix_server \<Rightarrow> int \<times> posix_server" where
  "posix_udp_start_server X port_str s =
     (if server_socket s \<ge> 0 then (1, s)
      else if p_thread X \<le> 0 then (1, s\<lparr>server_socket := -1\<rparr>)
      else (0, posix_server_thread X port_str s))"

definition posix_udp_cmd :: "posix_ext \<Rightarrow> string list \<Rightarrow> posix_server \<Rightarrow> int \<times> posix_server \<times> posix_eff list" where
  "posix_udp_cmd X argv s =
     (if length argv < 2 then (1, s, [])
      else if argv ! 1 = ''send'' then
        (if length argv < 5 then (1, s, [])
         else case posix_udp_send X (argv ! 2) (argv ! 3) (argv ! 4) (opt_arg argv 5 1) (opt_arg argv 6 1000000) of
           (r, es) \<Rightarrow> (r, s, es))
      else if argv ! 1 = ''server'' then
        (if length argv < 3 then (1, s, [])
         else if argv ! 2 = ''start'' then
           (if length argv < 4 then (1, s, [])
            else case posix_udp_start_server X (argv ! 3) s of (r, s) \<Rightarrow> (r, s, []))
         else (1, s, []))
      else (1, s, []))"

section \<open>Properties\<close>

text \<open>The snips allocated and given away by an effect, and the ports registered and unregistered.\<close>

definition allocated :: "gnrc_eff \<Rightarrow> unit list" where
  "allocated e = (case e of Snip \<Rightarrow> [()] | _ \<Rightarrow> [])"

definition given_away :: "gnrc_eff \<Rightarrow> unit list" where
  "given_away e = (case e of Release n \<Rightarrow> replicate n () | Dispatch _ _ _ \<Rightarrow> replicate 3 () | _ \<Rightarrow> [])"

definition registered_ports :: "gnrc_eff \<Rightarrow> u32 list" where
  "registered_ports e = (case e of Register_Udp p \<Rightarrow> [p] | _ \<Rightarrow> [])"

definition unregistered :: "gnrc_eff \<Rightarrow> u32 list" where
  "unregistered e = (case e of Unregister_Udp p \<Rightarrow> [p] | _ \<Rightarrow> [])"

definition registration :: "gnrc_server \<Rightarrow> u32 list" where
  "registration s = (if g_pid s = 0 then [] else [g_demux s])"

lemmas shell_effects = allocated_def given_away_def registered_ports_def unregistered_def registration_def

lemmas server_commands = gnrc_udp_cmd_def gnrc_start_server_def gnrc_stop_server_def

lemma replicate_unit: "replicate m () @ replicate n () = replicate (m + n) ()" "replicate 3 () = [(), (), ()]"
  by (simp_all add: replicate_add numeral_3_eq_3)

lemma send_loop_balanced:
  "concat (map allocated (gnrc_send_loop X addr port data delay i n)) =
   concat (map given_away (gnrc_send_loop X addr port data delay i n))"
  "concat (map registered_ports (gnrc_send_loop X addr port data delay i n)) = []"
  "concat (map unregistered (gnrc_send_loop X addr port data delay i n)) = []"
  by (induction n arbitrary: i) (simp_all add: shell_effects numeral_2_eq_2 numeral_3_eq_3)

lemma send_balanced:
  "concat (map allocated (gnrc_send X a p data num delay)) = concat (map given_away (gnrc_send X a p data num delay))"
  "concat (map registered_ports (gnrc_send X a p data num delay)) = []"
  "concat (map unregistered (gnrc_send X a p data num delay)) = []"
  unfolding gnrc_send_def Let_def
  by (simp_all only: send_loop_balanced list.map concat.simps split: option.split if_split) simp_all

interpretation snip_queue: fifo "gnrc_udp_cmd X" "\<lambda>_. []" allocated given_away
  by unfold_locales (auto simp: server_commands send_balanced shell_effects Let_def split: if_splits)

interpretation register_queue: fifo "\<lambda>s argv. if pktdump_pid X = 0 then (s, []) else gnrc_udp_cmd X s argv"
    registration registered_ports unregistered
  by unfold_locales
    (auto simp: server_commands send_balanced registered_ports_def unregistered_def registration_def Let_def split: if_splits)

text \<open>
  The command on the packet buffer: over every run of commands, with any failures of RIOT's
  calls, every snip that was allocated is given back or handed on, so none is lost; and the
  ports registered are the ones unregistered so far, in the same order, followed by the one of the
  running server, of which there is at most one.
\<close>

theorem udp_commands_balanced:
  assumes "pktdump_pid X \<noteq> 0" "run_out (gnrc_udp_cmd X) gnrc_start cmds = (s, es)"
  shows "concat (map allocated es) = concat (map given_away es) \<and>
    concat (map registered_ports es) = concat (map unregistered es) @ registration s \<and> length (registration s) \<le> 1"
proof -
  have "registration gnrc_start = []" by (simp add: registration_def gnrc_start_def)
  moreover have "gnrc_udp_cmd X = (\<lambda>s argv. if pktdump_pid X = 0 then (s, []) else gnrc_udp_cmd X s argv)"
    using assms(1) by simp
  ultimately show ?thesis
    using snip_queue.run_fifo [OF assms(2)] register_queue.run_fifo [of X gnrc_start cmds s es] assms(2)
    by (simp add: registration_def)
qed

definition ex_gnrc :: gnrc_ext where
  "ex_gnrc = \<lparr>g_addr_from_str = (\<lambda>a. if a = ''fe80::1'' then Some (replicate 16 1) else None),
     g_payload_ok = (\<lambda>_. True), g_udp_ok = (\<lambda>_. True), g_ip_ok = (\<lambda>i. i \<noteq> 1), g_dispatch_ok = (\<lambda>_. True),
     pktdump_pid = 5\<rparr>"

definition ex_cmds :: "string list list" where
  "ex_cmds = [[''udp'', ''send'', ''fe80::1'', ''7'', ''x'', ''3''], [''udp'', ''server'', ''start'', ''9''],
     [''udp'', ''server'', ''start'', ''8''], [''udp'', ''server'', ''stop''], [''udp'', ''server'', ''start'', ''6'']]"

lemma ex_atoi: "atoi ''3'' = 3" "atoi ''6'' = 6" "atoi ''7'' = 7" "atoi ''8'' = 8" "atoi ''9'' = 9" "atoi ''0'' = 0"
  by code_simp+

text \<open>The second of three packets has no memory for its last header; three servers are asked for.\<close>

lemma udp_commands_balanced_witness:
  "\<exists>s es. run_out (gnrc_udp_cmd ex_gnrc) gnrc_start ex_cmds = (s, es) \<and>
    length (concat (map given_away es)) = 5 \<and> concat (map registered_ports es) = [9, 6] \<and> registration s = [6]"
proof -
  obtain s es where r: "run_out (gnrc_udp_cmd ex_gnrc) gnrc_start ex_cmds = (s, es)"
    by (cases "run_out (gnrc_udp_cmd ex_gnrc) gnrc_start ex_cmds")
  have "pktdump_pid ex_gnrc \<noteq> 0" by (simp add: ex_gnrc_def)
  note b = udp_commands_balanced [OF this r]
  have three: "gnrc_send_loop X a p d t i 3 = gnrc_send_loop X a p d t i (Suc (Suc (Suc 0)))" for X a p d t i
    by (simp only: numeral_3_eq_3)
  from r have "length (concat (map allocated es)) = 5 \<and> concat (map unregistered es) = [9] \<and> registration s = [6]"
    by (auto simp: ex_cmds_def server_commands gnrc_send_def opt_arg_def ex_gnrc_def gnrc_start_def ex_atoi
        three shell_effects Let_def)
  with b r show ?thesis by auto
qed

text \<open>
  On sockets a start with an invalid port blocks all later ones: the socket is opened before the
  port is looked at, is never closed, and counts as a running server. So does a socket that could
  not be opened, which is replaced by 0.
\<close>

lemma invalid_port_blocks_server:
  assumes "word_of_int (atoi port) = (0 :: u16)" "new_socket X \<ge> 0" "p_thread X > 0" "server_socket s < 0"
    and "posix_udp_cmd X [''udp'', ''server'', ''start'', port] s = (r, s1, es)"
  shows "r = 0 \<and> p_listening s1 = p_listening s \<and>
    posix_udp_cmd X [''udp'', ''server'', ''start'', port'] s1 = (1, s1, [])"
  using assms by (auto simp: posix_udp_cmd_def posix_udp_start_server_def posix_server_thread_def Let_def)

lemma failed_socket_blocks_server:
  assumes "word_of_int (atoi port) \<noteq> (0 :: u16)" "new_socket X < 0" "p_thread X > 0" "server_socket s < 0"
    and "posix_udp_cmd X [''udp'', ''server'', ''start'', port] s = (r, s1, es)"
  shows "r = 0 \<and> p_listening s1 = p_listening s \<and>
    posix_udp_cmd X [''udp'', ''server'', ''start'', port'] s1 = (1, s1, [])"
  using assms by (auto simp: posix_udp_cmd_def posix_udp_start_server_def posix_server_thread_def Let_def)

text \<open>The text of a datagram is printed with the end of an older, longer one, unless its 0 is sent too.\<close>

lemma datagram_printed_with_old_end:
  assumes "0 < length data" "length data \<le> length old" "CHR 0x00 \<notin> set data" "CHR 0x00 \<notin> set old"
    and "server_buffer s = old @ CHR 0x00 # rest" "length (server_buffer s) = SERVER_BUFFER_SIZE"
  shows "\<exists>s'. posix_server_round (int (length data)) data s =
    Inr (s', [Received (data @ drop (length data) old)])"
proof -
  have "length data \<le> SERVER_BUFFER_SIZE" using assms(2,5,6) by simp
  moreover have "mem_string (data @ drop (length data) old @ CHR 0x00 # rest) 0 = Inr (data @ drop (length data) old)"
    using mem_string_start [of "data @ drop (length data) old" rest] assms(3,4) by (auto dest: in_set_dropD)
  ultimately show ?thesis using assms(1,2,5) by (simp add: posix_server_round_def)
qed

end
