(* ===== verification/Ccnl_Routes.thy ===== *)
theory Ccnl_Routes
  imports Prelude
begin

text \<open>
  The CCN-lite experiment of \<^verbatim>\<open>src/ccnlriot\<close>: a line of nodes with static routes to its two ends
  (\<^verbatim>\<open>routes.c\<close>, \<^verbatim>\<open>routes.h\<close>), a producer that fills its cache and a consumer that asks for its
  chunks (\<^verbatim>\<open>main.c\<close>). CCN-lite and RIOT are the record \<open>cr_ext\<close>: \<open>wait_for\<close> is what waiting for a
  chunk gives, by the chunk and the attempt, and \<open>prefix_size\<close> the number of components of a name
  and the length of the first one.
\<close>

section \<open>Configuration\<close>

definition CCNLRIOT_CHUNKNUMBERS :: nat where "CCNLRIOT_CHUNKNUMBERS = 10"
definition CR_INT_RETRIES :: nat where "CR_INT_RETRIES = 10"
definition CCNLRIOT_NUMBER_OF_NODES :: nat where "CCNLRIOT_NUMBER_OF_NODES = 20"
definition CCNLRIOT_CONSUMERS :: nat where "CCNLRIOT_CONSUMERS = 1"
definition ccnlriot_prefix1 :: string where "ccnlriot_prefix1 = ''/riot/peter/schmerzl''"
definition ccnlriot_prefix2 :: string where "ccnlriot_prefix2 = ''/start/the/riot''"

definition long_ids :: "u8 list list" where
  "long_ids =
    [[0x36, 0x32, 0x48, 0x33, 0x46, 0xdf, 0xaa, 0x02],
     [0x36, 0x32, 0x48, 0x33, 0x46, 0xdb, 0xae, 0x02],
     [0x36, 0x32, 0x48, 0x33, 0x46, 0xd5, 0xaf, 0x12],
     [0x36, 0x32, 0x48, 0x33, 0x46, 0xd9, 0xa6, 0x02],
     [0x36, 0x32, 0x48, 0x33, 0x46, 0xd9, 0xac, 0x26],
     [0x36, 0x32, 0x48, 0x33, 0x46, 0xd7, 0xaa, 0x22],
     [0x36, 0x32, 0x48, 0x33, 0x46, 0xd7, 0x6f, 0x16],
     [0x36, 0x32, 0x48, 0x33, 0x46, 0xd8, 0xaa, 0x22],
     [0x36, 0x32, 0x48, 0x33, 0x46, 0xdb, 0xa9, 0x12],
     [0x36, 0x32, 0x48, 0x33, 0x46, 0xda, 0xa8, 0x26],
     [0x36, 0x32, 0x48, 0x33, 0x46, 0xd4, 0xa7, 0x22],
     [0x36, 0x32, 0x48, 0x33, 0x46, 0xd9, 0xaa, 0x06],
     [0x36, 0x32, 0x48, 0x33, 0x46, 0xd4, 0x77, 0x06],
     [0x36, 0x32, 0x48, 0x33, 0x46, 0xd8, 0xaf, 0x12],
     [0x36, 0x32, 0x48, 0x33, 0x46, 0xd5, 0xaa, 0x16],
     [0x36, 0x32, 0x48, 0x33, 0x46, 0xd4, 0xaa, 0x12],
     [0x36, 0x32, 0x48, 0x33, 0x46, 0xdb, 0xab, 0x2a],
     [0x36, 0x32, 0x48, 0x33, 0x46, 0xd8, 0xaa, 0x16],
     [0x36, 0x32, 0x48, 0x33, 0x46, 0xde, 0xac, 0x02],
     [0x36, 0x32, 0x48, 0x33, 0x46, 0xd4, 0xad, 0x16]]"

definition short_ids :: "u8 list list" where
  "short_ids =
    [[0xaa, 0x02], [0xae, 0x02], [0xaf, 0x12], [0xa6, 0x02], [0xac, 0x26], [0xaa, 0x22], [0x6f, 0x16],
     [0xaa, 0x22], [0xa9, 0x12], [0xa8, 0x26], [0xa7, 0x22], [0xaa, 0x06], [0x77, 0x06], [0xaf, 0x12],
     [0xaa, 0x16], [0xaa, 0x12], [0xab, 0x2a], [0xaa, 0x16], [0xac, 0x02], [0xad, 0x16]]"

definition native_ids :: "u8 list list" where
  "native_ids = replicate 20 [0x4a, 0xcc, 0xdf, 0x10, 0x93, 0x6f]"

section \<open>State\<close>

type_synonym fib = "(string \<times> u8 list) list"

text \<open>\<open>ids\<close> is the table of addresses that the board and \<^verbatim>\<open>USE_LONG\<close> choose.\<close>

record cr_ext =
  ids :: "u8 list list"
  netif_address :: "(u8 list) option"
  uri_ok :: "string \<Rightarrow> bool"
  fib_add_ok :: "fib \<Rightarrow> bool"
  max_packet :: "u16 option"
  ccnl_max_packet_size :: u16
  prefix_size :: "string \<Rightarrow> nat \<Rightarrow> nat \<times> nat"
  chunk_built :: "nat \<Rightarrow> bool"
  wait_for :: "nat \<Rightarrow> nat \<Rightarrow> int"
  netif_open :: bool
  board_native :: bool

datatype cr_eff =
  Add_Static_Chunk nat "nat list" | Register_Chunk | Send_Interest string nat | Unregister_Chunk
  | Success | Timed_Out | Sleep_Us nat

section \<open>Routes\<close>

definition addr_cmp :: "u8 list \<Rightarrow> u8 list \<Rightarrow> nat \<Rightarrow> int" where
  "addr_cmp a b n = (if list_ex (\<lambda>i. a ! i \<noteq> b ! i) [0..<n] then 1 else 0)"

definition addr_len :: "cr_ext \<Rightarrow> nat" where
  "addr_len X = length (hd (ids X))"

definition get_pos :: "cr_ext \<Rightarrow> u8 list \<Rightarrow> int" where
  "get_pos X addr =
     (case List.find (\<lambda>i. addr_cmp addr (ids X ! i) (addr_len X) = 0) [0..<CCNLRIOT_NUMBER_OF_NODES] of
        Some i \<Rightarrow> int i | None \<Rightarrow> -1)"

definition ccnlriot_get_mypos :: "cr_ext \<Rightarrow> int" where
  "ccnlriot_get_mypos X = (case netif_address X of None \<Rightarrow> -1 | Some a \<Rightarrow> get_pos X a)"

definition ccnlriot_routes_add :: "cr_ext \<Rightarrow> string \<Rightarrow> u8 list \<Rightarrow> fib \<Rightarrow> int \<times> fib" where
  "ccnlriot_routes_add X pfx relay_addr fib =
     (if \<not> uri_ok X pfx then (-1, fib)
      else if \<not> fib_add_ok X fib then (-1, fib)
      else (0, fib @ [(pfx, relay_addr)]))"

definition ccnlriot_routes_setup :: "cr_ext \<Rightarrow> fib \<Rightarrow> fib" where
  "ccnlriot_routes_setup X fib =
     (let my_pos = ccnlriot_get_mypos X
      in if my_pos < 0 then fib
         else
           (case (if my_pos > 0 then ccnlriot_routes_add X ccnlriot_prefix1 (ids X ! nat (my_pos - 1)) fib else (0, fib)) of
              (r, fib) \<Rightarrow>
                if r < 0 then fib
                else if my_pos < int CCNLRIOT_NUMBER_OF_NODES - 1
                then snd (ccnlriot_routes_add X ccnlriot_prefix2 (ids X ! nat (my_pos + 1)) fib)
                else fib))"

section \<open>Producer and consumer\<close>

text \<open>
  The producer's chunks, each filled with its number. An array of a length that is not positive
  has no defined behaviour.
\<close>

definition frag_size :: "cr_ext \<Rightarrow> u16" where
  "frag_size X =
     (let m = (case max_packet X of None \<Rightarrow> 0xffff | Some m \<Rightarrow> m)
      in if m > ccnl_max_packet_size X then ccnl_max_packet_size X else m)"

definition body_length :: "cr_ext \<Rightarrow> nat \<Rightarrow> int" where
  "body_length X i =
     (case prefix_size X ccnlriot_prefix1 i of (compcnt, len) \<Rightarrow>
        int (unat (frag_size X)) - (int compcnt + 1) * 2 - int len - 8 - 7 - 60)"

fun create_chunks :: "cr_ext \<Rightarrow> nat list \<Rightarrow> fault + cr_eff list" where
  "create_chunks X [] = Inr []"
| "create_chunks X (i # rest) =
     (if body_length X i \<le> 0 then Inl OutOfBounds
      else if \<not> chunk_built X i then Inr []
      else and_then (create_chunks X rest) (\<lambda>es.
        Inr (Add_Static_Chunk i (replicate (nat (body_length X i)) i) # es)))"

definition create_content :: "cr_ext \<Rightarrow> fault + cr_eff list" where
  "create_content X = create_chunks X [0..<CCNLRIOT_CHUNKNUMBERS]"

text \<open>The attempts for a chunk: whether it came, and the calls.\<close>

fun ask_chunk :: "cr_ext \<Rightarrow> nat \<Rightarrow> nat \<Rightarrow> nat \<Rightarrow> bool \<times> cr_eff list" where
  "ask_chunk X i cnt 0 = (False, [])"
| "ask_chunk X i cnt (Suc n) =
     (let es = [Register_Chunk, Send_Interest ccnlriot_prefix1 i, Unregister_Chunk]
      in if wait_for X i cnt > 0 then (True, es)
         else case ask_chunk X i (cnt + 1) n of (b, fs) \<Rightarrow> (b, es @ fs))"

fun ask_chunks :: "cr_ext \<Rightarrow> nat list \<Rightarrow> nat \<times> cr_eff list" where
  "ask_chunks X [] = (0, [])"
| "ask_chunks X (i # rest) =
     (case ask_chunk X i 0 CR_INT_RETRIES of (b, es) \<Rightarrow>
      case ask_chunks X rest of (k, fs) \<Rightarrow> ((if b then 1 else 0) + k, es @ fs))"

definition get_content :: "cr_ext \<Rightarrow> u8 list option \<Rightarrow> fib \<Rightarrow> fib \<times> cr_eff list" where
  "get_content X next_hop fib =
     (let hop = (case next_hop of None \<Rightarrow> replicate (addr_len X) 0xff | Some a \<Rightarrow> a);
          (_, fib) = ccnlriot_routes_add X ccnlriot_prefix1 hop fib;
          (success, es) = ask_chunks X [0..<CCNLRIOT_CHUNKNUMBERS]
      in (fib, es @ [if success = CCNLRIOT_CHUNKNUMBERS then Success else Timed_Out]))"

definition send_int :: "cr_ext \<Rightarrow> fib \<Rightarrow> fault + fib \<times> cr_eff list" where
  "send_int X fib =
     (let my_id = ccnlriot_get_mypos X
      in if my_id < 0 then Inr (get_content X None fib)
         else if my_id - 1 < 0 then Inl OutOfBounds
         else Inr (get_content X (Some (ids X ! nat (my_id - 1))) fib))"

definition ccnlriot_main :: "cr_ext \<Rightarrow> fault + int option \<times> fib \<times> cr_eff list" where
  "ccnlriot_main X =
     (if \<not> netif_open X then Inr (Some (-1), [], [])
      else if board_native X then Inr (None, [], [])
      else
        (let fib = ccnlriot_routes_setup X []; my_id = ccnlriot_get_mypos X
         in if my_id = 0 then and_then (create_content X) (\<lambda>es. Inr (None, fib, es))
            else if my_id \<ge> int (CCNLRIOT_NUMBER_OF_NODES - CCNLRIOT_CONSUMERS) then
              (case get_content X (Some (ids X ! nat (my_id - 1))) fib of (fib, es) \<Rightarrow>
                 Inr (None, fib, Sleep_Us ((CCNLRIOT_NUMBER_OF_NODES - nat my_id) * 1000 * 500) # es))
            else Inr (None, fib, [])))"

section \<open>Properties\<close>

text \<open>
  The table of addresses is usable if no two nodes share one; then every node finds its place.
\<close>

definition ids_ok :: "cr_ext \<Rightarrow> bool" where
  "ids_ok X \<longleftrightarrow> length (ids X) = CCNLRIOT_NUMBER_OF_NODES \<and> distinct (ids X) \<and>
     (\<forall>a\<in>set (ids X). length a = addr_len X)"

lemma addr_cmp_eq: "length a = n \<Longrightarrow> length b = n \<Longrightarrow> addr_cmp a b n = 0 \<longleftrightarrow> a = b"
  by (auto simp: addr_cmp_def list_ex_iff intro: nth_equalityI)

lemma find_upt: "i < n \<Longrightarrow> P i \<Longrightarrow> (\<And>j. j < i \<Longrightarrow> \<not> P j) \<Longrightarrow> List.find P [0..<n] = Some i"
  by (auto simp: find_Some_iff intro!: exI [of _ i])

lemma get_pos_own:
  assumes "ids_ok X" "p < CCNLRIOT_NUMBER_OF_NODES"
  shows "get_pos X (ids X ! p) = int p"
proof -
  have c: "addr_cmp (ids X ! p) (ids X ! j) (addr_len X) = 0 \<longleftrightarrow> p = j" if "j < CCNLRIOT_NUMBER_OF_NODES" for j
    using assms that by (subst addr_cmp_eq) (auto simp: ids_ok_def nth_eq_iff_index_eq)
  have "List.find (\<lambda>i. addr_cmp (ids X ! p) (ids X ! i) (addr_len X) = 0) [0..<CCNLRIOT_NUMBER_OF_NODES] = Some p"
    using assms(2) c by (intro find_upt) auto
  then show ?thesis by (simp add: get_pos_def)
qed

text \<open>
  The network: node \<open>p\<close> has the routes that it sets up, and hands an interest for a name to the
  node that has the address of its entry for it.
\<close>

definition node_fib :: "cr_ext \<Rightarrow> nat \<Rightarrow> fib" where
  "node_fib X p = ccnlriot_routes_setup (X\<lparr>netif_address := Some (ids X ! p)\<rparr>) []"

fun forward :: "cr_ext \<Rightarrow> string \<Rightarrow> nat \<Rightarrow> nat \<Rightarrow> nat list" where
  "forward X name 0 p = [p]"
| "forward X name (Suc n) p =
     p # (case map_of (node_fib X p) name of
            None \<Rightarrow> [] | Some a \<Rightarrow> (if get_pos X a < 0 then [] else forward X name n (nat (get_pos X a))))"

lemma get_pos_update [simp]: "get_pos (X\<lparr>netif_address := a\<rparr>) b = get_pos X b"
  by (simp add: get_pos_def addr_len_def)

lemma prefixes_differ [simp]: "ccnlriot_prefix2 \<noteq> ccnlriot_prefix1"
  by (simp add: ccnlriot_prefix1_def ccnlriot_prefix2_def)

lemma node_routes:
  assumes "ids_ok X" "\<forall>n. uri_ok X n" "\<forall>f. fib_add_ok X f" "p < CCNLRIOT_NUMBER_OF_NODES"
  shows "map_of (node_fib X p) ccnlriot_prefix1 = (if p = 0 then None else Some (ids X ! (p - 1)))"
    and "map_of (node_fib X p) ccnlriot_prefix2 =
      (if p = CCNLRIOT_NUMBER_OF_NODES - 1 then None else Some (ids X ! (p + 1)))"
proof -
  have "ccnlriot_get_mypos (X\<lparr>netif_address := Some (ids X ! p)\<rparr>) = int p"
    using get_pos_own [OF assms(1,4)] by (simp add: ccnlriot_get_mypos_def)
  moreover have "CCNLRIOT_NUMBER_OF_NODES > 0" by (simp add: CCNLRIOT_NUMBER_OF_NODES_def)
  ultimately show "map_of (node_fib X p) ccnlriot_prefix1 = (if p = 0 then None else Some (ids X ! (p - 1)))"
    and "map_of (node_fib X p) ccnlriot_prefix2 =
      (if p = CCNLRIOT_NUMBER_OF_NODES - 1 then None else Some (ids X ! (p + 1)))"
    using assms(2-4) prefixes_differ prefixes_differ [symmetric]
    by (auto simp: node_fib_def ccnlriot_routes_setup_def ccnlriot_routes_add_def Let_def nat_diff_distrib nat_add_distrib
        of_nat_diff)
qed

text \<open>
  C40. The static routes: with a table of different addresses, an interest for the first name
  that starts at any node of the line goes down node by node to the first one, and an interest
  for the second name goes up to the last one; there it has no route and stays, however many hops
  are allowed. The table of long addresses is such a table, so the consumer at the end of the
  line reaches the producer at its start over all nodes.
\<close>

theorem static_routes_lead_to_ends:
  assumes "ids_ok X" "\<forall>n. uri_ok X n" "\<forall>f. fib_add_ok X f" "p < CCNLRIOT_NUMBER_OF_NODES"
    and "n \<ge> CCNLRIOT_NUMBER_OF_NODES"
  shows "forward X ccnlriot_prefix1 n p = rev [0..<p + 1] \<and>
    forward X ccnlriot_prefix2 n p = [p..<CCNLRIOT_NUMBER_OF_NODES]"
proof -
  note routes = node_routes [OF assms(1-3)] get_pos_own [OF assms(1)]
  have down: "forward X ccnlriot_prefix1 n p = rev [0..<p + 1]" if "p < CCNLRIOT_NUMBER_OF_NODES" "n \<ge> p" for n p
    using that
  proof (induction n arbitrary: p)
    case (Suc n)
    show ?case
    proof (cases p)
      case (Suc q)
      then show ?thesis using Suc.prems Suc.IH [of q] routes(1) [of p] routes(3) [of q] by simp
    qed (use routes(1) [of 0] Suc.prems in simp)
  qed simp
  have up: "forward X ccnlriot_prefix2 n p = [p..<CCNLRIOT_NUMBER_OF_NODES]"
    if "p < CCNLRIOT_NUMBER_OF_NODES" "n \<ge> CCNLRIOT_NUMBER_OF_NODES - 1 - p" for n p
    using that
  proof (induction n arbitrary: p)
    case 0
    then show ?case by (simp add: upt_rec [of p])
  next
    case (Suc n)
    show ?case
    proof (cases "p = CCNLRIOT_NUMBER_OF_NODES - 1")
      case True
      then show ?thesis using routes(2) [of p] Suc.prems by (simp add: CCNLRIOT_NUMBER_OF_NODES_def upt_conv_Cons)
    next
      case False
      then have "p + 1 < CCNLRIOT_NUMBER_OF_NODES" using Suc.prems(1) by simp
      then show ?thesis
        using False Suc.prems Suc.IH [of "p + 1"] routes(2) [of p] routes(3) [of "p + 1"]
        by (simp add: upt_conv_Cons nat_add_distrib)
    qed
  qed
  from down up assms(4,5) show ?thesis by simp
qed

definition ex_cr :: cr_ext where
  "ex_cr = \<lparr>ids = long_ids, netif_address = None, uri_ok = (\<lambda>_. True), fib_add_ok = (\<lambda>_. True),
     max_packet = Some 102, ccnl_max_packet_size = 120, prefix_size = (\<lambda>_ _. (3, 4)), chunk_built = (\<lambda>_. True),
     wait_for = (\<lambda>i cnt. if cnt = 2 then 1 else 0), netif_open = True, board_native = False\<rparr>"

lemma long_ids_distinct: "length long_ids = CCNLRIOT_NUMBER_OF_NODES" "distinct long_ids" "list_all (\<lambda>a. length a = 8) long_ids"
  by code_simp+

lemma ex_ids: "ids_ok ex_cr"
proof -
  have "length (hd long_ids) = 8" by (simp add: long_ids_def)
  with long_ids_distinct show ?thesis by (simp add: ids_ok_def ex_cr_def addr_len_def list_all_iff)
qed

lemma static_routes_lead_to_ends_witness: "forward ex_cr ccnlriot_prefix1 20 19 = rev [0..<20]"
  using static_routes_lead_to_ends [OF ex_ids, of 19 20] by (simp add: ex_cr_def CCNLRIOT_NUMBER_OF_NODES_def)

text \<open>
  Of the short addresses three occur twice, so three nodes of the line take the place of another;
  the native table has one address only.
\<close>

lemma short_ids_shared:
  assumes "ids X = short_ids"
  shows "get_pos X (short_ids ! 7) = 5" "get_pos X (short_ids ! 13) = 2" "get_pos X (short_ids ! 17) = 14"
proof -
  have "List.find (\<lambda>i. addr_cmp (short_ids ! p) (short_ids ! i) 2 = 0) [0..<20] = Some q"
    if "(p, q) \<in> set [(7, 5), (13, 2), (17, 14)]" for p q
  proof -
    have "list_all (\<lambda>(p, q). List.find (\<lambda>i. addr_cmp (short_ids ! p) (short_ids ! i) 2 = 0) [0..<20] = Some q)
        [(7, 5), (13, 2), (17, 14)]" by code_simp
    with that show ?thesis by auto
  qed
  moreover have "addr_len X = 2" using assms by (simp add: addr_len_def short_ids_def)
  ultimately show "get_pos X (short_ids ! 7) = 5" "get_pos X (short_ids ! 13) = 2" "get_pos X (short_ids ! 17) = 14"
    using assms by (simp_all add: get_pos_def CCNLRIOT_NUMBER_OF_NODES_def)
qed

text \<open>The first node of the line asks with the address before the table.\<close>

lemma first_node_reads_before_table: "ccnlriot_get_mypos X = 0 \<Longrightarrow> send_int X fib = Inl OutOfBounds"
  by (simp add: send_int_def)

section \<open>The consumer\<close>

lemma ask_chunk_spec:
  "ask_chunk X i cnt n = (b, es) \<Longrightarrow>
   (b \<longleftrightarrow> (\<exists>k<n. wait_for X i (cnt + k) > 0)) \<and>
   es = concat (replicate (if b then (LEAST k. wait_for X i (cnt + k) > 0) + 1 else n)
     [Register_Chunk, Send_Interest ccnlriot_prefix1 i, Unregister_Chunk])"
proof (induction n arbitrary: cnt b es)
  case (Suc n)
  show ?case
  proof (cases "wait_for X i cnt > 0")
    case True
    then have "(LEAST k. wait_for X i (cnt + k) > 0) = 0" by (intro Least_equality) auto
    with True Suc.prems show ?thesis by (auto simp: Let_def)
  next
    case False
    obtain b' fs where r: "ask_chunk X i (cnt + 1) n = (b', fs)" by (cases "ask_chunk X i (cnt + 1) n")
    with Suc.prems False have b: "b = b'" "es = [Register_Chunk, Send_Interest ccnlriot_prefix1 i, Unregister_Chunk] @ fs"
      by (auto simp: Let_def)
    note ih = Suc.IH [OF r]
    have ex: "(\<exists>k<Suc n. wait_for X i (cnt + k) > 0) \<longleftrightarrow> (\<exists>k<n. wait_for X i (cnt + 1 + k) > 0)"
      using False by (auto simp: less_Suc_eq_0_disj)
    have "(LEAST k. wait_for X i (cnt + k) > 0) = Suc (LEAST k. wait_for X i (cnt + 1 + k) > 0)" if b'
    proof -
      from that ih obtain k where "wait_for X i (cnt + Suc k) > 0" by auto
      then show ?thesis using Least_Suc [of "\<lambda>k. wait_for X i (cnt + k) > 0" "Suc k"] False by simp
    qed
    with ih b ex show ?thesis by auto
  qed
qed simp

lemma length_filter_all: "length (filter P xs) = length xs \<longleftrightarrow> (\<forall>x\<in>set xs. P x)"
  by (metis filter_True length_filter_less less_irrefl)

lemma ask_chunks_spec:
  "ask_chunks X is = (k, es) \<Longrightarrow>
   k = length (filter (\<lambda>i. \<exists>c<CR_INT_RETRIES. wait_for X i c > 0) is) \<and>
   es = concat (map (\<lambda>i. snd (ask_chunk X i 0 CR_INT_RETRIES)) is)"
proof (induction "is" arbitrary: k es)
  case (Cons i "is")
  obtain b fs where 1: "ask_chunk X i 0 CR_INT_RETRIES = (b, fs)" by (cases "ask_chunk X i 0 CR_INT_RETRIES")
  obtain k' gs where 2: "ask_chunks X is = (k', gs)" by (cases "ask_chunks X is")
  from ask_chunk_spec [OF 1] Cons.IH [OF 2] 1 2 Cons.prems show ?case by (auto split: if_splits)
qed simp

text \<open>
  The consumer asks for every chunk until it comes, ten times at most, and reports
  success exactly if each of the ten chunks came in one of its attempts. Every interest is sent
  between a registration and its end.
\<close>

theorem consumer_success:
  assumes "get_content X hop fib = (fib', es)"
  shows "(Success \<in> set es \<longleftrightarrow> (\<forall>i<CCNLRIOT_CHUNKNUMBERS. \<exists>c<CR_INT_RETRIES. wait_for X i c > 0)) \<and>
    (\<exists>tries. length tries = CCNLRIOT_CHUNKNUMBERS \<and> (\<forall>n\<in>set tries. 1 \<le> n \<and> n \<le> CR_INT_RETRIES) \<and>
      butlast es = concat (map (\<lambda>i. concat (replicate (tries ! i)
        [Register_Chunk, Send_Interest ccnlriot_prefix1 i, Unregister_Chunk])) [0..<CCNLRIOT_CHUNKNUMBERS]))"
proof -
  let ?came = "\<lambda>i. \<exists>c<CR_INT_RETRIES. wait_for X i c > 0"
  define m where "m i = (if ?came i then (LEAST c. wait_for X i c > 0) + 1 else CR_INT_RETRIES)" for i
  obtain k fs where a: "ask_chunks X [0..<CCNLRIOT_CHUNKNUMBERS] = (k, fs)"
    by (cases "ask_chunks X [0..<CCNLRIOT_CHUNKNUMBERS]")
  from assms a have es: "es = fs @ [if k = CCNLRIOT_CHUNKNUMBERS then Success else Timed_Out]"
    by (auto simp: get_content_def Let_def split: prod.splits)
  have chunk: "snd (ask_chunk X i 0 CR_INT_RETRIES) =
      concat (replicate (m i) [Register_Chunk, Send_Interest ccnlriot_prefix1 i, Unregister_Chunk])" for i
    using ask_chunk_spec [of X i 0 CR_INT_RETRIES "fst (ask_chunk X i 0 CR_INT_RETRIES)"
        "snd (ask_chunk X i 0 CR_INT_RETRIES)"] by (auto simp: m_def)
  have n: "1 \<le> m i \<and> m i \<le> CR_INT_RETRIES" for i
  proof (cases "?came i")
    case True
    then obtain c where c: "c < CR_INT_RETRIES" "wait_for X i c > 0" by blast
    then have "(LEAST c. wait_for X i c > 0) \<le> c" by (intro Least_le)
    with c True show ?thesis by (simp add: m_def)
  qed (auto simp: m_def CR_INT_RETRIES_def)
  have fs: "fs = concat (map (\<lambda>i. concat (replicate (map m [0..<CCNLRIOT_CHUNKNUMBERS] ! i)
        [Register_Chunk, Send_Interest ccnlriot_prefix1 i, Unregister_Chunk])) [0..<CCNLRIOT_CHUNKNUMBERS])"
    using ask_chunks_spec [OF a] by (auto simp: chunk intro!: arg_cong [of _ _ concat])
  have k: "k = CCNLRIOT_CHUNKNUMBERS \<longleftrightarrow> (\<forall>i<CCNLRIOT_CHUNKNUMBERS. ?came i)"
  proof -
    have "k = length (filter ?came [0..<CCNLRIOT_CHUNKNUMBERS])" using ask_chunks_spec [OF a] by simp
    then have "k = CCNLRIOT_CHUNKNUMBERS \<longleftrightarrow> length (filter ?came [0..<CCNLRIOT_CHUNKNUMBERS]) = length [0..<CCNLRIOT_CHUNKNUMBERS]"
      by simp
    then show ?thesis unfolding length_filter_all by auto
  qed
  have "Success \<notin> set fs" by (auto simp: fs)
  with k have "Success \<in> set es \<longleftrightarrow> (\<forall>i<CCNLRIOT_CHUNKNUMBERS. ?came i)" by (auto simp: es)
  moreover have "butlast es = fs" by (simp add: es)
  ultimately show ?thesis using fs n by (intro conjI exI [of _ "map m [0..<CCNLRIOT_CHUNKNUMBERS]"]) auto
qed

text \<open>Two attempts for every chunk fail, the third brings it.\<close>

lemma consumer_success_witness: "Success \<in> set (snd (get_content ex_cr None []))"
proof -
  obtain fib' es where g: "get_content ex_cr None [] = (fib', es)" by (cases "get_content ex_cr None []")
  have "\<exists>c<CR_INT_RETRIES. wait_for ex_cr i c > 0" for i
    by (intro exI [of _ 2]) (simp add: ex_cr_def CR_INT_RETRIES_def)
  with consumer_success [OF g] g show ?thesis by simp
qed

text \<open>The producer's chunks have room for a body only in packets of more than 87 bytes.\<close>

lemma small_packets_undefined:
  assumes "frag_size X \<le> 87" "prefix_size X ccnlriot_prefix1 0 = (3, 4)"
  shows "create_content X = Inl OutOfBounds"
proof -
  have "uint (frag_size X) \<le> 87" using assms(1) by (simp add: word_le_def)
  then have "body_length X 0 \<le> 0" by (simp add: body_length_def assms(2))
  then show ?thesis by (simp add: create_content_def CCNLRIOT_CHUNKNUMBERS_def upt_conv_Cons)
qed

end
