(* ===== verification/Tcp_Echo.thy ===== *)
theory Tcp_Echo
  imports Prelude
begin

text \<open>
  The echo over TCP: \<^verbatim>\<open>src/tcpechoserver\<close> and \<^verbatim>\<open>src/tcpechoclient\<close>. The results of RIOT's sockets
  are inputs: what each reading call gives, and whether each writing call succeeds.
\<close>

section \<open>Server\<close>

definition TCP_BUFFER :: nat where "TCP_BUFFER = 128"

text \<open>A reading call gives bytes, as many as the buffer holds at most, or the end or an error.\<close>

datatype tcp_read = Got "u8 list" | Disconnected

datatype tcp_eff = Print_Read "u8 list" | Write "u8 list" | Disconnect

text \<open>
  The loop of one connection: the reading calls with the success of the writing call that may
  follow; nothing at the end if it still waits for data.
\<close>

fun tcp_connection :: "u8 list \<Rightarrow> (tcp_read \<times> bool) list \<Rightarrow> u8 list \<times> tcp_eff list" where
  "tcp_connection buf [] = (buf, [])"
| "tcp_connection buf ((Disconnected, _) # _) = (buf, [Disconnect])"
| "tcp_connection buf ((Got bytes, ok) # rest) =
     (let n = min TCP_BUFFER (length bytes);
          buf = take n bytes @ drop n buf;
          es = [Print_Read (take n buf), Write (take n buf)]
      in if ok then (case tcp_connection buf rest of (buf, fs) \<Rightarrow> (buf, es @ fs))
         else (buf, es @ [Disconnect]))"

text \<open>The connections one after the other; one that is not accepted is left out.\<close>

fun tcp_connections :: "u8 list \<Rightarrow> (tcp_read \<times> bool) list option list \<Rightarrow> tcp_eff list" where
  "tcp_connections buf [] = []"
| "tcp_connections buf (None # cs) = tcp_connections buf cs"
| "tcp_connections buf (Some c # cs) = (case tcp_connection buf c of (buf, es) \<Rightarrow> es @ tcp_connections buf cs)"

definition tcp_serve :: "bool \<Rightarrow> (tcp_read \<times> bool) list option list \<Rightarrow> int option \<times> tcp_eff list" where
  "tcp_serve listen_ok cs = (if \<not> listen_ok then (Some 1, []) else (None, tcp_connections (replicate TCP_BUFFER 0) cs))"

section \<open>Client\<close>

definition hello :: "u8 list" where
  "hello = map of_char ''Hello!'' @ [0]"

text \<open>The result of the command, what it writes and what it prints.\<close>

definition tcp_send :: "bool \<Rightarrow> int \<Rightarrow> int \<Rightarrow> u8 list \<Rightarrow> int \<times> tcp_eff list" where
  "tcp_send connected write_res read_res bytes =
     (if \<not> connected then (1, [])
      else if write_res < 0 then (write_res, [Write hello, Disconnect])
      else (read_res, [Write hello, Print_Read (take (nat read_res) bytes), Disconnect]))"

section \<open>Properties\<close>

definition written :: "tcp_eff \<Rightarrow> u8 list" where
  "written e = (case e of Write bs \<Rightarrow> bs | _ \<Rightarrow> [])"

definition read_bytes :: "tcp_read \<times> bool \<Rightarrow> u8 list" where
  "read_bytes r = (case fst r of Got bs \<Rightarrow> bs | Disconnected \<Rightarrow> [])"

lemma echo_simps [simp]:
  "written (Print_Read bs) = []" "written (Write bs) = bs" "written Disconnect = []" "read_bytes (Got bs, ok) = bs"
  by (simp_all add: written_def read_bytes_def)

lemma connection_echo:
  assumes "\<forall>(r, ok)\<in>set rs. r \<noteq> Disconnected \<and> ok" "\<forall>r\<in>set rs. length (read_bytes r) \<le> TCP_BUFFER"
  shows "concat (map written (snd (tcp_connection buf rs))) = concat (map read_bytes rs)"
  using assms
proof (induction rs arbitrary: buf)
  case (Cons r rs)
  then obtain bs where r: "r = (Got bs, True)" by (cases r; cases "fst r") auto
  let ?buf = "bs @ drop (length bs) buf"
  have "length bs \<le> TCP_BUFFER" using Cons.prems(2) r by (simp add: read_bytes_def)
  moreover have "concat (map written (snd (tcp_connection ?buf rs))) = concat (map read_bytes rs)"
    using Cons.IH [of ?buf] Cons.prems by simp
  ultimately show ?case
    by (simp add: r min_absorb2 case_prod_beta Let_def)
qed simp

text \<open>
  However the transport divides what the client sends, the server writes the same bytes back, in
  order; and the client prints what the first reading call gives of them.
\<close>

lemma hello_echoed:
  assumes "concat (map read_bytes rs) = hello" "\<forall>(r, ok)\<in>set rs. r \<noteq> Disconnected \<and> ok"
  shows "concat (map written (snd (tcp_serve True [Some rs]))) = hello"
proof -
  have "length (read_bytes r) \<le> TCP_BUFFER" if "r \<in> set rs" for r
  proof -
    from that obtain us vs where "rs = us @ r # vs" by (auto simp: in_set_conv_decomp)
    then have "length (read_bytes r) \<le> length (concat (map read_bytes rs))" by simp
    then show ?thesis using assms(1) by (simp add: hello_def TCP_BUFFER_def)
  qed
  with connection_echo [OF assms(2), of "replicate TCP_BUFFER 0"] assms(1) show ?thesis
    by (simp add: tcp_serve_def case_prod_beta)
qed

end
