(* ===== verification/Morse_Blink.thy ===== *)
theory Morse_Blink
  imports Main
begin

text \<open>
  The blinking board of \<^verbatim>\<open>src/mbed_lpc1768\<close>: four threads, each of which blinks with one light and
  then sleeps. The delays are loops that do not wait, so a thread is not left by the scheduler
  before it sleeps.
\<close>

section \<open>Lights\<close>

datatype led_eff = Led_On nat | Led_Off nat | Loop_Delay nat

definition WAIT_LONG :: nat where "WAIT_LONG = 10000000"
definition WAIT_SHORT :: nat where "WAIT_SHORT = 3000000"

definition led_on :: "nat \<Rightarrow> led_eff list" where
  "led_on i = [if i = 1 then Led_On 1 else if i = 2 then Led_On 2 else if i = 3 then Led_On 3 else Led_On 4]"

definition led_off :: "nat \<Rightarrow> led_eff list" where
  "led_off i = [if i = 1 then Led_Off 1 else if i = 2 then Led_Off 2 else if i = 3 then Led_Off 3 else Led_Off 4]"

definition blink_R :: "nat \<Rightarrow> led_eff list" where
  "blink_R nr =
     led_on nr @ [Loop_Delay WAIT_SHORT] @ led_off nr @ [Loop_Delay WAIT_SHORT] @
     led_on nr @ [Loop_Delay WAIT_LONG] @ led_off nr @ [Loop_Delay WAIT_SHORT] @
     led_on nr @ [Loop_Delay WAIT_SHORT] @ led_off nr"

definition blink_I :: "nat \<Rightarrow> led_eff list" where
  "blink_I nr =
     led_on nr @ [Loop_Delay WAIT_SHORT] @ led_off nr @ [Loop_Delay WAIT_SHORT] @
     led_on nr @ [Loop_Delay WAIT_SHORT] @ led_off nr"

definition blink_O :: "nat \<Rightarrow> led_eff list" where
  "blink_O nr =
     led_on nr @ [Loop_Delay WAIT_LONG] @ led_off nr @ [Loop_Delay WAIT_SHORT] @
     led_on nr @ [Loop_Delay WAIT_LONG] @ led_off nr @ [Loop_Delay WAIT_SHORT] @
     led_on nr @ [Loop_Delay WAIT_LONG] @ led_off nr"

definition blink_T :: "nat \<Rightarrow> led_eff list" where
  "blink_T nr = led_on nr @ [Loop_Delay WAIT_LONG] @ led_off nr"

section \<open>Threads\<close>

definition r_blinker :: "led_eff list" where "r_blinker = blink_R 4 @ [Loop_Delay WAIT_LONG]"
definition i_blinker :: "led_eff list" where "i_blinker = blink_I 3 @ [Loop_Delay WAIT_LONG]"
definition o_blinker :: "led_eff list" where "o_blinker = blink_O 2 @ [Loop_Delay WAIT_LONG]"
definition t_blinker :: "led_eff list" where "t_blinker = blink_T 1 @ [Loop_Delay WAIT_LONG]"

text \<open>
  The threads in the order they are created, with how far their priority is above that of the
  main thread. The last creation lets them run: the one with the highest priority first.
\<close>

definition threads :: "(nat \<times> led_eff list) list" where
  "threads = [(4, r_blinker), (3, i_blinker), (2, o_blinker), (1, t_blinker)]"

definition mbed_main :: "led_eff list" where
  "mbed_main = concat (map snd (rev (sort_key fst threads)))"

section \<open>What is signalled\<close>

text \<open>
  Reading the lights as Morse code: a light that is on for a short or a long time is a dot or a
  dash; the delay with all lights off is short within a letter and long between letters.
\<close>

fun signals :: "string \<Rightarrow> led_eff list \<Rightarrow> string list" where
  "signals cs (Led_On i # Loop_Delay d # Led_Off j # rest) =
     signals (cs @ [if d = WAIT_SHORT then CHR ''.'' else CHR ''-'']) rest"
| "signals cs (Loop_Delay d # rest) = (if d = WAIT_LONG then cs # signals [] rest else signals cs rest)"
| "signals cs _ = (if cs = [] then [] else [cs])"

definition morse_code :: "(string \<times> char) list" where
  "morse_code = [(''-'', CHR ''T''), (''..'', CHR ''I''), (''.-.'', CHR ''R''), (''---'', CHR ''O''),
     (''.-'', CHR ''A''), (''-.'', CHR ''N''), (''...'', CHR ''S''), (''.'', CHR ''E'')]"

definition decode :: "led_eff list \<Rightarrow> char option list" where
  "decode es = map (map_of morse_code) (signals [] es)"

text \<open>The board signals the name of the system, and ends with all lights off.\<close>

lemmas board_simps = mbed_main_def threads_def r_blinker_def i_blinker_def o_blinker_def t_blinker_def
  blink_R_def blink_I_def blink_O_def blink_T_def led_on_def led_off_def

lemma long_not_short [simp]: "WAIT_LONG \<noteq> WAIT_SHORT" "WAIT_SHORT \<noteq> WAIT_LONG"
  by (simp_all add: WAIT_LONG_def WAIT_SHORT_def)

lemma board_signals_riot: "decode mbed_main = map Some ''RIOT''"
  by (simp add: decode_def morse_code_def board_simps)

fun lit :: "nat set \<Rightarrow> led_eff list \<Rightarrow> nat set" where
  "lit A [] = A"
| "lit A (Led_On i # es) = lit (insert i A) es"
| "lit A (Led_Off i # es) = lit (A - {i}) es"
| "lit A (Loop_Delay _ # es) = lit A es"

lemma lights_off: "lit {} mbed_main = {}"
  by (simp add: board_simps)

end
