(* ===== verification/Spec2Isabelle.thy ===== *)
theory Spec2Isabelle
  imports Dow_Net_Props Dow_States L2_Props Sha1_Test Demo_Props Mqtt_Props Light_Ccnl Accel_Radio Coap_Ping Computation Rum_Props
    Coap_Server_Props Coap_Args_Props Sixlow_Props Udp_Shell Ccnl_Routes Tcp_Echo Morse_Blink
begin

text \<open>
  A verification library for the C applications of this repository, which are programs for the
  operating system RIOT: each directory under \<^verbatim>\<open>src/\<close> is one. The ones with logic of their own are
  modelled function by function, with the state the C code keeps in its global variables as a
  record that is passed along.

  \<^bold>\<open>Common ground.\<close> \<open>Prelude\<close>: words of 8, 16 and 32 bits, results that are a value or a \<open>fault\<close>
  (an access outside an array, a null pointer, a wait loop whose fuel is used up), runs of a step
  function, the C library's hexadecimal numbers. \<open>Decimal\<close>: decimal numbers in \<^verbatim>\<open>printf\<close> and
  \<^verbatim>\<open>atoi\<close>, arrays of characters. \<open>Debounce\<close>: runs of equal directions and the detector that the
  sensor nodes share. RIOT, CCN-lite, the MQTT library and the drivers are not under \<^verbatim>\<open>src/\<close>:
  their calls are fields of a record (\<open>ext\<close>, \<open>l2_ext\<close>, \<open>udp_ext\<close>, \<open>light_ext\<close>, \<open>srv_ext\<close>, \<open>cl_ext\<close>,
  \<open>sx_ext\<close>, \<open>gnrc_ext\<close>, \<open>posix_ext\<close>, \<open>cr_ext\<close>, \<open>libm\<close>) or a function of
  the calls so far (\<open>mqtt_ext\<close>), an argument of every operation. What a property relies on of
  them is a named hypothesis, and \<open>Example_Ext\<close> and the \<open>ex_\<close> definitions are small executable
  instances for which the properties are instantiated. Effects on the outside are recorded in
  the order of the calls; printing is left out unless it is all a function does with a result.
\<close>

section \<open>The caching application\<close>

text \<open>
  \<^verbatim>\<open>src/ccnl_caching\<close> is a content-centric network of nodes that sleep most of the time. A node is
  one record \<open>node\<close> (\<open>Dow_Types\<close>: the globals of \<^verbatim>\<open>dow.h\<close>, \<^verbatim>\<open>dow.c\<close> and \<^verbatim>\<open>ccnl_helper.c\<close>; the
  macros that configure it are the record \<open>config\<close>). Three parts work on it:

  \<^item> the callbacks that CCN-lite runs for packets, \<open>ccnlriot_consumer\<close> and \<open>ccnlriot_producer\<close>
    (\<open>Ccnl_Callbacks\<close>), with the content store below them (\<open>Ccnl_Store\<close>: creation of chunks, flags
    of the newest chunk, duplicates, pending interests, and the replacement strategy
    \<open>cs_oldest_representative\<close>, which CCN-lite calls back when the store is full);
  \<^item> the thread of the caching manager (\<open>Dow_Loop\<close>: \<open>loop_step\<close> handles one message of \<^verbatim>\<open>_loop\<close>),
    which sends interests and waits for the answers (\<open>Ccnl_Helper_Int\<close>), sleeps and wakes
    (\<open>Dow_Radio\<close>) and counts its neighbours at the start (\<open>Beaconing\<close>);
  \<^item> the shell (\<open>Dow_Shell\<close>, \<^verbatim>\<open>main.c\<close>).

  A run of the node is a sequence of events (\<open>node_step\<close> in \<open>Dow_System\<close>), each of which runs to its
  end before the next begins. This is an assumption of the model: \<^verbatim>\<open>dow.c\<close> takes no lock, and the threads
  could preempt each other within an event. Proved are: which entry the replacement strategy
  removes, namely the choice of its comment except in three cases that are named
  (\<open>Ccnl_Store_Props\<close>: \<open>victim\<close>), computed by four scans at once, which are instances of one locale
  (\<open>candidate_scan\<close>); the flags of the newest chunk and where they go wrong
  (\<open>Ccnl_Flags_Props\<close>); that every event takes the node along steps of an abstract machine of
  time and states, \<open>tstep\<close>, hence the accounting of time and the absence of hand-overs, as
  invariants of all runs (\<open>Dow_System\<close>); that waiting ends and interests are bounded
  (\<open>Dow_Comm_Props\<close>); which event may take a node from which state to which, as a machine of its
  own (\<open>Dow_States\<close>: \<open>node_trans\<close>); the decisions at the end of a second and the names of data
  (\<open>Dow_Props\<close>); the chunk an interest is answered with, who frees a packet, and the beacons
  (\<open>Dow_Net_Props\<close>). \<open>Computation\<close> relates \<^verbatim>\<open>src/ccnl_computation\<close> to it, a copy for a newer RIOT
  that adds a number read from every name: apart from it, their runs over names of three components
  are the same.

  Fuel: \<open>wait_fuel\<close> bounds the messages that one waiting loop handles; \<open>wait_for_chunk_ends\<close>
  shows that it suffices when the timeout of the timer that the loop sets is among them. A
  take-over asks for \<open>CCNLRIOT_CACHE_SIZE + 2\<close> chunks at most, as its loop does.
\<close>

section \<open>Routing below CCN-lite\<close>

text \<open>
  \<^verbatim>\<open>src/l2_routing\<close> sends interests and contents directly over the link layer, in a schedule of
  time slots and with static routes (\<open>L2_Routing\<close>: \<^verbatim>\<open>l2.c\<close>, \<^verbatim>\<open>icn.h\<close>, \<^verbatim>\<open>main.c\<close>; the state is
  \<open>l2_node\<close>, one message of the thread is \<open>eventloop_step\<close>). \<open>L2_Props\<close> shows that the routes lead
  to the store over scheduled links, that the consumer's retransmissions always pass its flow
  control, which snips of the packet buffer are lost, and, for the network of all nodes, that
  fetching ends with all chunks at the consumer. A packet makes \<open>FETCH_HOPS\<close> hops at most: four
  to the store and four back.
\<close>

section \<open>SHA-1\<close>

text \<open>
  \<^verbatim>\<open>src/sha1-test\<close> compares five implementations of SHA-1. \<open>Sha1_Spec\<close> has the standard's function
  on lists of bytes and the contract of an incremental hash, the locale \<open>incremental_hash\<close>: a
  context represents the bytes given so far, and the digest does not depend on how they were
  divided. \<open>Sha1_Rounds\<close> has the words and schedules they share. \<open>Sha1_Google\<close> (with its HMAC),
  \<open>Sha1_Oryx\<close>, \<open>Sha1_Pd\<close>, \<open>Sha1_Rfc\<close> and \<open>Sha1_Gladman\<close> model the five files at the level of their
  buffers, byte orders and unrolled rounds, and interpret the locale; \<open>Sha1_Test\<close> is the
  application. Fuel: the loops that pad a block run for the 64 bytes of a block at most, and a
  loop over whole blocks for the length of the piece plus one; both are shown to be enough, since
  the theorems say that the calls return.
\<close>

section \<open>The demos\<close>

text \<open>
  \<^item> \<^verbatim>\<open>src/inria-industry\<close>: a node senses its orientation and sends events over UDP
    (\<open>Demo_Sensor\<close>: \<^verbatim>\<open>accel_udp\<close>), and a light shows the events it receives (\<open>Demo_Light\<close>: \<^verbatim>\<open>light\<close>). As
    shipped the sensor sends to another port and node than the light's, so the two are not composed.
    \<open>Demo_Props\<close> shows that exactly one message is sent for every run of equal directions, what the
    light shows after any datagrams and shell commands, and that the temperature server's
    reply fits its buffer. A light sensor on CCN-lite (\<open>Light_Ccnl\<close>: \<^verbatim>\<open>light_ccnl\<close>) asks for a content
    when it gets bright and no answer is being shown; its two threads run interleaved.
  \<^item> \<^verbatim>\<open>src/accel_radio\<close> (\<open>Accel_Radio\<close>): the older detection of the orientation. Both sensors are
    instances of the locale \<open>debounced\<close>; here the length of a vector is computed in \<^verbatim>\<open>float\<close> (\<open>float_of_nat\<close>
    rounds the sums), and all that is relied on of the library's \<^verbatim>\<open>powf\<close> and \<^verbatim>\<open>sqrtf\<close> is an accuracy of one
    part in 1024 (\<open>accel_libm\<close>), interpreted for a library that rounds correctly.
  \<^item> \<^verbatim>\<open>src/dagstuhl23_demo\<close> (\<open>Mqtt_Demo\<close>, \<open>Mqtt_Props\<close>): an MQTT client with subscriptions in a
    static array, a clock set from the network, and a published text assembled at fixed offsets.
  \<^item> \<^verbatim>\<open>src/RUM2\<close> (\<open>Rum_Router\<close>, \<open>Rum_Props\<close>): a router node with its start, its monitor and tables,
    and a UDP server that answers a request with four packets. A network of them falls silent
    after at most five deliveries for every datagram in flight, which is the fuel of \<open>drain\<close>
    (\<open>Draining\<close>). The demo \<^verbatim>\<open>cebit_router\<close> is a copy of it without the answers.
  \<^item> \<^verbatim>\<open>src/coap_test\<close> (\<open>Coap_Ping\<close>): the ping over CoAP and the server that answers it.
\<close>

section \<open>Client and server of CoAP\<close>

text \<open>
  \<^item> \<^verbatim>\<open>src/libcoap_server\<close> (\<open>Coap_Server\<close>: \<^verbatim>\<open>server.c\<close>; the state is \<open>coap_server\<close>): a clock that is read,
    put and deleted, and a resource answered later; one round of the loop is \<open>srv_round\<close>, the
    requests that libcoap dispatches in it are its input. \<open>Coap_Server_Props\<close> shows that delayed
    answers leave in the order of their requests, what a clock reads after it was set, and that the
    command never returns.
  \<^item> \<^verbatim>\<open>src/libcoap_client\<close> (\<open>Coap_Client\<close>: \<^verbatim>\<open>client.c\<close>; the state is \<open>client\<close>, which the shell keeps from
    one command to the next): the arguments, the list of options, the handler of responses and the
    loop, whose rounds are its input. \<open>Coap_Block\<close> lets it talk to a server that holds a resource:
    the transfer in blocks is complete and ends. The fuel of that exchange is the number of blocks,
    the length divided by the size of a block plus one. \<open>Coap_Client_Props\<close> has the order of
    the options over all runs of commands and what a second command meets; \<open>Coap_Args_Props\<close> what
    the arguments are read as.
\<close>

section \<open>Test applications\<close>

text \<open>
  \<^item> \<^verbatim>\<open>src/sixlowapp\<close> (\<open>Sixlow_App\<close>; the state is \<open>sixlow\<close>): echo requests, which the shell sends and
    waits for while a monitor looks at the packets, and netcat. What happens while the shell waits
    is a list of events. \<open>Sixlow_Props\<close> shows the verdict of a request, what one late reply does
    to all later requests, and what netcat prints on the other node.
  \<^item> \<^verbatim>\<open>src/ccnlriot\<close> (\<open>Ccnl_Routes\<close>): a line of nodes with static routes to its ends, its producer
    and its consumer. The network of all nodes is \<open>forward\<close>, a packet makes as many hops as there
    are nodes at most.
  \<^item> The command \<^verbatim>\<open>udp\<close> of \<^verbatim>\<open>src/coap_test\<close> on the packet buffer and of \<^verbatim>\<open>src/libcoap_client\<close> on
    sockets (\<open>Udp_Shell\<close>): no snip is lost, ports are unregistered as they were registered.
  \<^item> \<^verbatim>\<open>src/tcpechoserver\<close> and \<^verbatim>\<open>src/tcpechoclient\<close> (\<open>Tcp_Echo\<close>), and the lights of \<^verbatim>\<open>src/mbed_lpc1768\<close>
    read as Morse code (\<open>Morse_Blink\<close>).
\<close>

section \<open>Interfaces\<close>

text \<open>
  \<open>run_invariant\<close>, \<open>res_invariant\<close> and \<open>safe_invariant\<close> (\<open>Prelude\<close>): invariants of steps hold in
  all runs; interpreted for the caching node, the shell's sensors, the link-layer consumer, and
  the calls of \<^verbatim>\<open>google_sha1.c\<close>. \<open>candidate_scan\<close>: a scan that keeps the first minimum;
  interpreted for the four candidates of the replacement strategy. \<open>incremental_hash\<close>: interpreted
  for five hash functions. \<open>debounced\<close>: interpreted for the orientation sensor, and by \<open>sublocale\<close>
  for the accelerometer. \<open>draining\<close> and its extension \<open>accounted\<close>: answers lighter than the
  messages they answer; interpreted for the network of routers. \<open>fifo\<close> (\<open>Output_Runs\<close>): a step whose
  inputs leave in their order; interpreted for the dispatcher, the check for delayed answers and
  the rounds of the CoAP server, and for the snips and ports of the command \<^verbatim>\<open>udp\<close>. \<open>keyed_order\<close>: a comparison that makes insertion keep a list
  sorted; interpreted for the order of options.
\<close>

section \<open>Not modelled\<close>

text \<open>
  Of the modelled applications: \<open>dow_estimate_p\<close>, a numerical estimate that the caching
  application never calls; the start of RPL and the tables of the industry demo, which are
  sequences of RIOT's calls; the CoAP client's input from a text or file and its empty replies,
  which are never called; tests that are switched off. Of \<^verbatim>\<open>src/ccnl_computation\<close> only what it adds:
  the rest is the caching application again, function by function. The other directories hold
  drivers and shells around libraries (RPL routers, CCN-lite's relay), boards' showcases that
  read a sensor and print it, and tests of RIOT's kernel and timers, which call it and print.
  Interrupts and preemption between two statements are not modelled: an event, a message or a
  command runs to its end.
\<close>

end
